(* ===== verification/Prelude.thy ===== *)
theory Prelude
  imports Main "HOL-Library.Char_ord" "HOL-Library.List_Lexorder" "HOL-Library.Product_Lexorder"
    "HOL-Library.Word"
begin

text \<open>
  The shared layer of the development: the fact collections the component theories fill, the part
  of Rust's standard library that the program uses on strings and integers, and finite maps.

  A Rust \<open>String\<close> is the list of its UTF-8 bytes (a HOL \<^typ>\<open>char\<close> is a byte), so \<open>len()\<close> is
  \<^const>\<open>length\<close> and Rust's byte-wise order on \<open>str\<close> is the lexicographic order of
  \<open>List_Lexorder\<close> over \<open>Char_ord\<close>. \<open>HashMap\<close> and \<open>BTreeMap\<close> are association lists kept strictly
  sorted by key, so that two maps are equal exactly when they hold the same entries. A function
  whose Rust source iterates over a \<open>HashMap\<close> in an order that matters takes that order as an
  argument.
\<close>

section \<open>Fact collections\<close>

named_theorems map_simps \<open>lookup equations of finite maps\<close>
named_theorems inv_intros \<open>operations preserve the invariants of their component\<close>
named_theorems frame_simps \<open>fields an operation leaves alone\<close>

section \<open>Machine integers\<close>

type_synonym i32 = int
type_synonym u8 = "8 word"
type_synonym u16 = "16 word"
type_synonym u32 = "32 word"
type_synonym u64 = "64 word"

text \<open>\<open>x.saturating_add(1)\<close> on an unsigned word.\<close>

definition sat_succ :: "'a::len word \<Rightarrow> 'a word" where
  "sat_succ x = (if x = - 1 then x else x + 1)"

lemma unat_sat_succ: "unat (sat_succ x) = min (unat (- 1 :: 'a::len word)) (Suc (unat (x :: 'a word)))"
proof (cases "x = - 1")
  case True
  then show ?thesis by (simp add: sat_succ_def)
next
  case False
  then have less: "unat x < 2 ^ LENGTH('a) - 1"
    using word_order.not_eq_extremum [of x] by (simp add: word_less_nat_alt unsigned_minus_1_eq_mask mask_eq_exp_minus_1)
  then have "unat (x + 1) = Suc (unat x)"
    by (simp add: unat_word_ariths)
  with False less show ?thesis by (simp add: sat_succ_def unsigned_minus_1_eq_mask mask_eq_exp_minus_1)
qed

lemma sat_succ_mono: "x \<le> sat_succ x"
  by (simp add: word_le_nat_alt unat_sat_succ) (use word_order.extremum [of x] in \<open>simp add: word_le_nat_alt\<close>)

section \<open>Finite maps\<close>

type_synonym ('k, 'v) omap = "('k \<times> 'v) list"

fun om_insert :: "'k::linorder \<Rightarrow> 'v \<Rightarrow> ('k, 'v) omap \<Rightarrow> ('k, 'v) omap" where
  "om_insert k v [] = [(k, v)]"
| "om_insert k v ((l, w) # m) =
     (if k < l then (k, v) # (l, w) # m
      else if k = l then (k, v) # m
      else (l, w) # om_insert k v m)"

fun om_remove :: "'k::linorder \<Rightarrow> ('k, 'v) omap \<Rightarrow> ('k, 'v) omap" where
  "om_remove k [] = []"
| "om_remove k ((l, w) # m) = (if k = l then m else (l, w) # om_remove k m)"

abbreviation om_get :: "('k, 'v) omap \<Rightarrow> 'k \<Rightarrow> 'v option" where
  "om_get \<equiv> map_of"

abbreviation om_keys :: "('k, 'v) omap \<Rightarrow> 'k list" where
  "om_keys m \<equiv> map fst m"

definition om_contains :: "('k, 'v) omap \<Rightarrow> 'k \<Rightarrow> bool" where
  "om_contains m k = (om_get m k \<noteq> None)"

definition om_wf :: "('k::linorder, 'v) omap \<Rightarrow> bool" where
  "om_wf m = sorted_wrt (<) (om_keys m)"

definition om_insert_all :: "('k::linorder \<times> 'v) list \<Rightarrow> ('k, 'v) omap \<Rightarrow> ('k, 'v) omap" where
  "om_insert_all kvs m = fold (\<lambda>(k, v). om_insert k v) kvs m"

definition om_of_list :: "('k::linorder \<times> 'v) list \<Rightarrow> ('k, 'v) omap" where
  "om_of_list kvs = om_insert_all kvs []"

lemma om_wf_Nil [simp, intro]: "om_wf []"
  by (simp add: om_wf_def)

lemma om_wf_Cons: "om_wf ((k, v) # m) \<longleftrightarrow> (\<forall>l \<in> set (om_keys m). k < l) \<and> om_wf m"
  by (simp add: om_wf_def)

lemma om_wf_distinct: "om_wf m \<Longrightarrow> distinct (om_keys m)"
  by (simp add: om_wf_def strict_sorted_iff)

lemma set_keys_insert [simp]: "set (om_keys (om_insert k v m)) = insert k (set (om_keys m))"
  by (induction k v m rule: om_insert.induct) auto

lemma fst_keys_insert [simp]: "fst ` set (om_insert k v m) = insert k (fst ` set m)"
  using set_keys_insert [of k v m] by simp

lemma om_wf_insert [simp, intro]: "om_wf m \<Longrightarrow> om_wf (om_insert k v m)"
proof (induction k v m rule: om_insert.induct)
  case (2 k v l w m)
  then show ?case by (auto simp: om_wf_Cons simp del: set_map)
qed (simp add: om_wf_def)

lemma set_keys_remove: "om_wf m \<Longrightarrow> set (om_keys (om_remove k m)) = set (om_keys m) - {k}"
  by (induction k m rule: om_remove.induct) (auto simp: om_wf_Cons)

lemma om_wf_remove [simp, intro]: "om_wf m \<Longrightarrow> om_wf (om_remove k m)"
proof (induction k m rule: om_remove.induct)
  case (2 k l w m)
  then have "om_wf m" and *: "\<forall>x \<in> set (om_keys m). l < x" unfolding om_wf_Cons by auto
  then have "\<forall>x \<in> set (om_keys (om_remove k m)). l < x"
    by (simp only: set_keys_remove) blast
  with 2 \<open>om_wf m\<close> show ?case by (simp only: om_remove.simps om_wf_Cons split: if_split) simp
qed simp

lemma om_get_insert [simp, map_simps]: "om_get (om_insert k v m) = (om_get m)(k \<mapsto> v)"
  by (induction k v m rule: om_insert.induct) auto

lemma om_get_remove [map_simps]: "om_wf m \<Longrightarrow> om_get (om_remove k m) = (om_get m)(k := None)"
proof (induction k m rule: om_remove.induct)
  case (2 k l w m)
  have "om_get m l = None"
    using 2(2) unfolding om_wf_Cons map_of_eq_None_iff set_map by fastforce
  then show ?case
    using 2 by (cases "k = l") (auto simp: om_wf_Cons fun_upd_twist fun_upd_idem)
qed simp

lemma om_contains_keys: "om_contains m k \<longleftrightarrow> k \<in> set (om_keys m)"
  by (simp only: om_contains_def map_of_eq_None_iff set_map) simp

lemma om_insert_all_simps [simp]:
  "om_insert_all [] m = m"
  "om_insert_all ((k, v) # kvs) m = om_insert_all kvs (om_insert k v m)"
  by (simp_all add: om_insert_all_def)

lemma om_insert_all_append: "om_insert_all (xs @ ys) m = om_insert_all ys (om_insert_all xs m)"
  by (simp add: om_insert_all_def)

lemma om_wf_insert_all [simp, intro]: "om_wf m \<Longrightarrow> om_wf (om_insert_all kvs m)"
  by (induction kvs arbitrary: m) (simp_all add: om_insert_all_def split_beta)

text \<open>Inserting a batch: the last entry for a key wins, keys that are not in the batch stay.\<close>

lemma om_get_insert_all [map_simps]:
  "om_get (om_insert_all kvs m) k = (case map_of (rev kvs) k of None \<Rightarrow> om_get m k | Some v \<Rightarrow> Some v)"
  by (induction kvs arbitrary: m) (auto simp: map_add_def split: option.splits)

lemma om_wf_of_list [simp, intro]: "om_wf (om_of_list kvs)"
  by (simp add: om_of_list_def)

lemma om_get_of_list [map_simps]: "om_get (om_of_list kvs) k = map_of (rev kvs) k"
  by (simp add: om_of_list_def om_get_insert_all split: option.splits)

text \<open>Two well-formed maps are equal when their lookups agree, as \<open>HashMap\<close>'s equality has it.\<close>

lemma om_ext:
  assumes "om_wf m" "om_wf m'" "om_get m = om_get m'"
  shows "m = m'"
  using assms
proof (induction m arbitrary: m')
  case Nil
  then show ?case by (cases m') (auto simp: fun_eq_iff split: if_splits)
next
  case (Cons kv m)
  obtain k v where kv: "kv = (k, v)" by (cases kv)
  have "om_get m' k = Some v" using Cons.prems(3) [symmetric] kv by simp
  then obtain l w n where m': "m' = (l, w) # n" by (cases m') auto
  have keys: "set (om_keys (kv # m)) = set (om_keys m')"
    using arg_cong [OF Cons.prems(3), of dom] by (simp only: dom_map_of_conv_image_fst set_map)
  have "k = l \<or> k \<in> set (om_keys n)" "k = l \<or> l \<in> set (om_keys m)"
    using keys unfolding kv m' by auto
  then have kl: "k = l"
    using Cons.prems(1,2) unfolding kv m' om_wf_Cons by (meson order.asym)
  moreover have "v = w" using Cons.prems(3) kl by (auto simp: kv m' fun_eq_iff split: if_splits)
  moreover have "om_get m = om_get n"
  proof
    fix x
    have "k \<notin> set (om_keys m)" "k \<notin> set (om_keys n)"
      using Cons.prems(1,2) kl unfolding kv m' om_wf_Cons by auto
    then have "om_get m k = None" "om_get n k = None"
      by (simp_all add: map_of_eq_None_iff)
    then show "om_get m x = om_get n x"
      using fun_cong [OF Cons.prems(3), of x] kl by (cases "x = k") (auto simp: kv m')
  qed
  ultimately show ?case using Cons.IH [of n] Cons.prems(1,2) by (simp add: kv m' om_wf_Cons)
qed

end
