(* ===== verification/Rust_Strings.thy ===== *)
theory Rust_Strings
  imports Prelude
begin

text \<open>
  The methods of Rust's \<open>str\<close> that microinit calls, on strings as UTF-8 bytes: trimming, prefix
  stripping, splitting, ASCII case, number formatting and parsing.
\<close>

abbreviation NL :: char where "NL \<equiv> CHR 0x0A"
abbreviation CR :: char where "CR \<equiv> CHR 0x0D"

text \<open>A string in single quotes, as the program's messages have it.\<close>

definition quoted :: "string \<Rightarrow> string" where
  "quoted s = CHR 0x27 # s @ [CHR 0x27]"

section \<open>Prefixes and trimming\<close>

definition starts_with :: "string \<Rightarrow> string \<Rightarrow> bool" where
  "starts_with p s = (take (length p) s = p)"

definition ends_with :: "string \<Rightarrow> string \<Rightarrow> bool" where
  "ends_with p s = starts_with (rev p) (rev s)"

definition strip_prefix :: "string \<Rightarrow> string \<Rightarrow> string option" where
  "strip_prefix p s = (if starts_with p s then Some (drop (length p) s) else None)"

lemma starts_with_append [simp]: "starts_with p (p @ s)"
  by (simp add: starts_with_def)

lemma starts_withE: "starts_with p s \<Longrightarrow> \<exists>t. s = p @ t"
  by (metis append_take_drop_id starts_with_def)

lemma strip_prefix_Some: "strip_prefix p s = Some t \<longleftrightarrow> s = p @ t"
  by (auto simp: strip_prefix_def starts_with_def) (metis append_take_drop_id)

text \<open>
  The code points with the Unicode property \<open>White_Space\<close>, which is what \<open>str::trim\<close> and
  \<open>split_whitespace\<close> look for, as UTF-8 byte sequences. No sequence is empty.
\<close>

definition ws_seqs :: "string list" where
  "ws_seqs = [[CHR 0x20], [CHR 0x09], [CHR 0x0A], [CHR 0x0B], [CHR 0x0C], [CHR 0x0D],
     [CHR 0xC2, CHR 0x85], [CHR 0xC2, CHR 0xA0], [CHR 0xE1, CHR 0x9A, CHR 0x80],
     [CHR 0xE2, CHR 0x80, CHR 0x80], [CHR 0xE2, CHR 0x80, CHR 0x81], [CHR 0xE2, CHR 0x80, CHR 0x82],
     [CHR 0xE2, CHR 0x80, CHR 0x83], [CHR 0xE2, CHR 0x80, CHR 0x84], [CHR 0xE2, CHR 0x80, CHR 0x85],
     [CHR 0xE2, CHR 0x80, CHR 0x86], [CHR 0xE2, CHR 0x80, CHR 0x87], [CHR 0xE2, CHR 0x80, CHR 0x88],
     [CHR 0xE2, CHR 0x80, CHR 0x89], [CHR 0xE2, CHR 0x80, CHR 0x8A], [CHR 0xE2, CHR 0x80, CHR 0xA8],
     [CHR 0xE2, CHR 0x80, CHR 0xA9], [CHR 0xE2, CHR 0x80, CHR 0xAF], [CHR 0xE2, CHR 0x81, CHR 0x9F],
     [CHR 0xE3, CHR 0x80, CHR 0x80]]"

fun strip_any :: "string list \<Rightarrow> string \<Rightarrow> string option" where
  "strip_any [] s = None"
| "strip_any (p # ps) s = (case strip_prefix p s of Some t \<Rightarrow> Some t | None \<Rightarrow> strip_any ps s)"

function trim_seqs :: "string list \<Rightarrow> string \<Rightarrow> string" where
  "trim_seqs ps s =
     (case strip_any ps s of
        Some t \<Rightarrow> if length t < length s then trim_seqs ps t else s
      | None \<Rightarrow> s)"
  by pat_completeness auto
termination
  by (relation "measure (\<lambda>(ps, s). length s)") auto

declare trim_seqs.simps [simp del]

definition trim_start :: "string \<Rightarrow> string" where
  "trim_start s = trim_seqs ws_seqs s"

definition trim_end :: "string \<Rightarrow> string" where
  "trim_end s = rev (trim_seqs (map rev ws_seqs) (rev s))"

definition trim :: "string \<Rightarrow> string" where
  "trim s = trim_end (trim_start s)"

text \<open>\<open>trim_matches\<close> and \<open>trim_end_matches\<close> with a predicate on ASCII characters.\<close>

definition trim_matches :: "(char \<Rightarrow> bool) \<Rightarrow> string \<Rightarrow> string" where
  "trim_matches p s = rev (dropWhile p (rev (dropWhile p s)))"

definition trim_end_matches :: "(char \<Rightarrow> bool) \<Rightarrow> string \<Rightarrow> string" where
  "trim_end_matches p s = rev (dropWhile p (rev s))"

definition headed :: "string list \<Rightarrow> string \<Rightarrow> bool" where
  "headed ps s = (\<exists>p \<in> set ps. starts_with p s)"

lemma strip_any_None: "strip_any ps s = None \<longleftrightarrow> \<not> headed ps s"
  by (induction ps) (auto simp: headed_def strip_prefix_def)

lemma strip_any_Some: "strip_any ps s = Some t \<Longrightarrow> \<exists>p \<in> set ps. s = p @ t"
  by (induction ps) (auto simp: strip_prefix_Some split: option.splits)

lemma strip_any_shorter: "strip_any ps s = Some t \<Longrightarrow> [] \<notin> set ps \<Longrightarrow> length t < length s"
  by (drule strip_any_Some) auto

lemma trim_seqs_suffix: "\<exists>u. s = u @ trim_seqs ps s"
proof (induction ps s rule: trim_seqs.induct)
  case (1 ps s)
  show ?case
  proof (cases "strip_any ps s")
    case None
    then show ?thesis by (simp add: trim_seqs.simps [of ps s])
  next
    case (Some t)
    then obtain p where p: "s = p @ t" using strip_any_Some by blast
    show ?thesis
    proof (cases "length t < length s")
      case True
      obtain u where "t = u @ trim_seqs ps t" using 1 [OF Some True] by blast
      then have "s = (p @ u) @ trim_seqs ps t" using p by simp
      moreover have "trim_seqs ps s = trim_seqs ps t"
        using Some True by (simp add: trim_seqs.simps [of ps s])
      ultimately show ?thesis by metis
    next
      case False
      then show ?thesis using Some by (simp add: trim_seqs.simps [of ps s])
    qed
  qed
qed

lemma trim_seqs_not_headed: "[] \<notin> set ps \<Longrightarrow> \<not> headed ps (trim_seqs ps s)"
proof (induction ps s rule: trim_seqs.induct)
  case (1 ps s)
  show ?case
  proof (cases "strip_any ps s")
    case None
    then show ?thesis using strip_any_None [of ps s] by (simp add: trim_seqs.simps [of ps s])
  next
    case (Some t)
    then show ?thesis
      using 1 strip_any_shorter [OF Some] by (simp add: trim_seqs.simps [of ps s])
  qed
qed

lemma trim_seqs_id: "\<not> headed ps s \<Longrightarrow> trim_seqs ps s = s"
  using strip_any_None [of ps s] by (simp add: trim_seqs.simps [of ps s])

lemma ws_seqs_nonempty [simp]: "[] \<notin> set ws_seqs" "[] \<notin> rev ` set ws_seqs"
  by (auto simp: ws_seqs_def)

text \<open>A string that neither starts nor ends with white space is left alone.\<close>

lemma trim_id: "\<not> headed ws_seqs s \<Longrightarrow> \<not> headed (map rev ws_seqs) (rev s) \<Longrightarrow> trim s = s"
  by (simp add: trim_def trim_start_def trim_end_def trim_seqs_id)

lemma headed_append: "headed ps s \<Longrightarrow> headed ps (s @ t)"
  by (force simp: headed_def dest: starts_withE)

lemma trim_not_headed: "\<not> headed ws_seqs (trim s)" "\<not> headed (map rev ws_seqs) (rev (trim s))"
proof -
  let ?t = "trim_start s"
  obtain u where "rev ?t = u @ rev (trim s)"
    using trim_seqs_suffix [of "rev ?t" "map rev ws_seqs"] by (auto simp: trim_def trim_end_def)
  then have "?t = trim s @ rev u" by (metis rev_append rev_rev_ident)
  moreover have "\<not> headed ws_seqs ?t" by (simp add: trim_start_def trim_seqs_not_headed)
  ultimately show "\<not> headed ws_seqs (trim s)" using headed_append by metis
  show "\<not> headed (map rev ws_seqs) (rev (trim s))"
    by (simp add: trim_def trim_end_def trim_seqs_not_headed)
qed

lemma trim_idem [simp]: "trim (trim s) = trim s"
  by (rule trim_id) (rule trim_not_headed)+

lemma trim_Nil [simp]: "trim [] = []"
  by (rule trim_id) (auto simp: headed_def starts_with_def ws_seqs_def)

lemma set_trim: "set (trim s) \<subseteq> set s"
proof -
  obtain u where "s = u @ trim_start s" using trim_seqs_suffix unfolding trim_start_def by blast
  moreover obtain v where "rev (trim_start s) = v @ rev (trim s)"
    using trim_seqs_suffix [of "rev (trim_start s)" "map rev ws_seqs"]
    by (auto simp: trim_def trim_end_def)
  ultimately show ?thesis by (metis Un_iff set_append set_rev subsetI)
qed

section \<open>ASCII case\<close>

definition is_ascii_upper :: "char \<Rightarrow> bool" where
  "is_ascii_upper c = (CHR ''A'' \<le> c \<and> c \<le> CHR ''Z'')"

definition is_ascii_lower :: "char \<Rightarrow> bool" where
  "is_ascii_lower c = (CHR ''a'' \<le> c \<and> c \<le> CHR ''z'')"

definition is_ascii_digit :: "char \<Rightarrow> bool" where
  "is_ascii_digit c = (CHR ''0'' \<le> c \<and> c \<le> CHR ''9'')"

definition is_ascii_alphanumeric :: "char \<Rightarrow> bool" where
  "is_ascii_alphanumeric c = (is_ascii_upper c \<or> is_ascii_lower c \<or> is_ascii_digit c)"

definition ascii_upper_char :: "char \<Rightarrow> char" where
  "ascii_upper_char c = (if is_ascii_lower c then char_of (of_char c - 32 :: nat) else c)"

definition ascii_lower_char :: "char \<Rightarrow> char" where
  "ascii_lower_char c = (if is_ascii_upper c then char_of (of_char c + 32 :: nat) else c)"

definition to_ascii_uppercase :: "string \<Rightarrow> string" where
  "to_ascii_uppercase s = map ascii_upper_char s"

definition to_ascii_lowercase :: "string \<Rightarrow> string" where
  "to_ascii_lowercase s = map ascii_lower_char s"

lemma ascii_upper_char_idem [simp]: "ascii_upper_char (ascii_upper_char c) = ascii_upper_char c"
proof (cases "is_ascii_lower c")
  case True
  then have "97 \<le> (of_char c :: nat)" "(of_char c :: nat) \<le> 122"
    by (simp_all add: is_ascii_lower_def less_eq_char_def)
  then have "(of_char (char_of (of_char c - 32 :: nat)) :: nat) = of_char c - 32"
    by simp
  then have "\<not> is_ascii_lower (char_of (of_char c - 32 :: nat))"
    using \<open>of_char c \<le> 122\<close> by (simp add: is_ascii_lower_def less_eq_char_def)
  then show ?thesis by (simp add: ascii_upper_char_def)
qed (simp add: ascii_upper_char_def)

lemma to_ascii_uppercase_idem [simp]:
  "to_ascii_uppercase (to_ascii_uppercase s) = to_ascii_uppercase s"
  by (simp add: to_ascii_uppercase_def)

section \<open>Splitting and joining\<close>

fun split_once :: "char \<Rightarrow> string \<Rightarrow> (string \<times> string) option" where
  "split_once c [] = None"
| "split_once c (x # xs) =
     (if x = c then Some ([], xs) else map_option (\<lambda>(k, v). (x # k, v)) (split_once c xs))"

definition rsplit_once :: "char \<Rightarrow> string \<Rightarrow> (string \<times> string) option" where
  "rsplit_once c s = map_option (\<lambda>(v, k). (rev k, rev v)) (split_once c (rev s))"

lemma split_once_Some: "split_once c s = Some (k, v) \<longleftrightarrow> s = k @ c # v \<and> c \<notin> set k"
proof (induction s arbitrary: k)
  case (Cons x xs)
  then show ?case by (cases k) auto
qed simp

lemma split_once_None: "split_once c s = None \<longleftrightarrow> c \<notin> set s"
  by (induction s) auto

lemma rsplit_once_Some: "rsplit_once c s = Some (h, p) \<longleftrightarrow> s = h @ c # p \<and> c \<notin> set p"
proof -
  have "rsplit_once c s = Some (h, p) \<longleftrightarrow> split_once c (rev s) = Some (rev p, rev h)"
    by (auto simp: rsplit_once_def)
  also have "\<dots> \<longleftrightarrow> s = h @ c # p \<and> c \<notin> set p"
    by (simp add: split_once_Some rev_swap)
  finally show ?thesis .
qed

text \<open>\<open>str::split\<close> by a character: always at least one part.\<close>

fun split_char :: "char \<Rightarrow> string \<Rightarrow> string list" where
  "split_char c [] = [[]]"
| "split_char c (x # xs) =
     (if x = c then [] # split_char c xs
      else (case split_char c xs of p # ps \<Rightarrow> (x # p) # ps | [] \<Rightarrow> [[x]]))"

fun join :: "string \<Rightarrow> string list \<Rightarrow> string" where
  "join sep [] = []"
| "join sep [x] = x"
| "join sep (x # y # zs) = x @ sep @ join sep (y # zs)"

lemma split_char_nonempty [simp]: "split_char c s \<noteq> []"
  by (induction s) (auto split: list.splits)

lemma split_char_no_sep: "c \<notin> set x \<Longrightarrow> split_char c x = [x]"
  by (induction x) auto

lemma split_char_append: "c \<notin> set x \<Longrightarrow> split_char c (x @ c # s) = x # split_char c s"
  by (induction x) auto

lemma split_char_join:
  "xs \<noteq> [] \<Longrightarrow> \<forall>x \<in> set xs. c \<notin> set x \<Longrightarrow> split_char c (join [c] xs) = xs"
  by (induction "[c]" xs rule: join.induct) (auto simp: split_char_no_sep split_char_append)

text \<open>
  \<open>str::lines\<close>: the pieces ended by a newline, each without its \<open>\n\<close> or \<open>\r\n\<close>, and what follows the
  last newline when it is not empty.
\<close>

definition strip_cr :: "string \<Rightarrow> string" where
  "strip_cr l = (if l \<noteq> [] \<and> last l = CR then butlast l else l)"

definition str_lines :: "string \<Rightarrow> string list" where
  "str_lines s =
     (let ps = split_char NL s in
      map strip_cr (butlast ps) @ (if last ps = [] then [] else [last ps]))"

text \<open>\<open>split_whitespace\<close>: the maximal runs without white space.\<close>

function take_word :: "string \<Rightarrow> string" where
  "take_word s = (if s = [] \<or> headed ws_seqs s then [] else hd s # take_word (tl s))"
  by pat_completeness auto
termination
  by (relation "measure length") auto

declare take_word.simps [simp del]

lemma length_trim_start: "length (trim_start s) \<le> length s"
  by (metis trim_seqs_suffix trim_start_def length_append le_add2)

lemma headed_code [code]: "headed ps s = list_ex (\<lambda>p. starts_with p s) ps"
  by (simp add: headed_def list_ex_iff)

function split_whitespace :: "string \<Rightarrow> string list" where
  "split_whitespace s =
     (let t = trim_start s; w = take_word t in
      if w = [] then [] else w # split_whitespace (drop (length w) t))"
  by pat_completeness auto
termination
proof (relation "measure length", goal_cases)
  case (2 s t w)
  have "trim_start s \<noteq> []" using 2 by (auto simp: take_word.simps [of "[]"])
  moreover have "0 < length w" using 2 by simp
  ultimately have "length t - length w < length s"
    using 2(1) length_trim_start [of s] diff_less [of "length w" "length t"]
    by (metis length_greater_0_conv less_le_trans)
  then show ?case by simp
qed simp

declare split_whitespace.simps [simp del]

section \<open>Numbers\<close>

definition digit_char :: "nat \<Rightarrow> char" where
  "digit_char d = char_of (48 + d)"

fun nat_str :: "nat \<Rightarrow> string" where
  "nat_str n = (if n < 10 then [digit_char n] else nat_str (n div 10) @ [digit_char (n mod 10)])"

declare nat_str.simps [simp del]

definition int_str :: "int \<Rightarrow> string" where
  "int_str i = (if i < 0 then CHR ''-'' # nat_str (nat (- i)) else nat_str (nat i))"

text \<open>
  \<open>parse::<uN>\<close>: an optional \<open>+\<close>, then at least one decimal digit and nothing else, and the value
  within the type's range.
\<close>

definition digits_value :: "string \<Rightarrow> nat" where
  "digits_value s = foldl (\<lambda>n c. 10 * n + (of_char c - 48)) 0 s"

definition parse_uint :: "nat \<Rightarrow> string \<Rightarrow> nat option" where
  "parse_uint bits s =
     (let ds = (case s of c # cs \<Rightarrow> if c = CHR ''+'' then cs else s | [] \<Rightarrow> []) in
      if ds \<noteq> [] \<and> list_all is_ascii_digit ds \<and> digits_value ds < 2 ^ bits
      then Some (digits_value ds) else None)"

lemma digit_char_digit: "d < 10 \<Longrightarrow> is_ascii_digit (digit_char d) \<and> of_char (digit_char d) - 48 = d"
  by (simp add: is_ascii_digit_def digit_char_def less_eq_char_def)

lemma nat_str_digits: "nat_str n \<noteq> [] \<and> list_all is_ascii_digit (nat_str n)"
proof (induction n rule: nat_str.induct)
  case (1 n)
  then show ?case
    by (auto simp: nat_str.simps [of n] list_all_iff digit_char_digit)
qed

lemma digits_value_snoc: "digits_value (s @ [c]) = 10 * digits_value s + (of_char c - 48)"
  by (simp add: digits_value_def)

lemma digits_value_nat_str: "digits_value (nat_str n) = n"
proof (induction n rule: nat_str.induct)
  case (1 n)
  show ?case
  proof (cases "n < 10")
    case True
    then show ?thesis
      by (simp add: nat_str.simps [of n] digits_value_def digit_char_digit)
  next
    case False
    with 1 show ?thesis
      by (simp add: nat_str.simps [of n] digits_value_snoc digit_char_digit)
  qed
qed

text \<open>Formatting then parsing gives the number back.\<close>

lemma parse_uint_nat_str: "n < 2 ^ bits \<Longrightarrow> parse_uint bits (nat_str n) = Some n"
proof -
  assume n: "n < 2 ^ bits"
  obtain c cs where s: "nat_str n = c # cs" using nat_str_digits [of n] by (cases "nat_str n") auto
  then have "is_ascii_digit c" using nat_str_digits [of n] by simp
  then have "c \<noteq> CHR ''+''" by (auto simp: is_ascii_digit_def)
  then show ?thesis
    using n nat_str_digits [of n] digits_value_nat_str [of n] by (simp add: parse_uint_def s)
qed

lemma parse_uint_bound: "parse_uint bits s = Some n \<Longrightarrow> n < 2 ^ bits"
  by (auto simp: parse_uint_def Let_def split: if_splits)

end
