(* ===== verification/Errors.thy ===== *)
theory Errors
  imports Rust_Strings
begin

text \<open>
  The crate's error type (\<open>src/src/error.rs\<close>) and its named constants
  (\<open>src/src/constants.rs\<close>). A fallible function returns \<open>error + 'a\<close>. An error that wraps one of
  another crate or of \<open>std::io\<close> carries that error's text. The last constructor, \<open>ErrPanic\<close>, is not
  one of the source: the release profile has \<open>overflow-checks = true\<close> and \<open>panic = "abort"\<close>, and a
  definition whose code can panic returns it there.
\<close>

datatype error =
    ErrIo string
  | ErrIoPath string string
  | ErrJson string
  | ErrConfig string
  | ErrService string string
  | ErrCycle string
  | ErrUnknownService string
  | ErrDisabled string
  | ErrEarlyBoot i32
  | ErrUnmount i32
  | ErrIpc string
  | ErrBusy string
  | ErrNix string
  | ErrSecurity string
  | ErrOther string
  | ErrPanic string

type_synonym 'a res = "error + 'a"

text \<open>\<open>Error::code\<close>: the stable code an IPC error response carries.\<close>

fun error_code :: "error \<Rightarrow> string option" where
  "error_code (ErrUnknownService _) = Some ''not_found''"
| "error_code (ErrDisabled _) = Some ''disabled''"
| "error_code (ErrCycle _) = Some ''cycle''"
| "error_code (ErrBusy _) = Some ''busy''"
| "error_code _ = None"

text \<open>The \<open>Display\<close> text that \<open>thiserror\<close> derives from the \<open>#[error(...)]\<close> attributes.\<close>

fun error_to_string :: "error \<Rightarrow> string" where
  "error_to_string (ErrIo e) = ''I/O error: '' @ e"
| "error_to_string (ErrIoPath p e) = ''I/O error on '' @ p @ '': '' @ e"
| "error_to_string (ErrJson e) = ''JSON error: '' @ e"
| "error_to_string (ErrConfig m) = ''config: '' @ m"
| "error_to_string (ErrService s m) = ''service '' @ quoted s @ '': '' @ m"
| "error_to_string (ErrCycle s) = ''dependency cycle involving '' @ quoted s"
| "error_to_string (ErrUnknownService s) = ''unknown service '' @ quoted s"
| "error_to_string (ErrDisabled s) = ''service '' @ quoted s @ '' is disabled''"
| "error_to_string (ErrEarlyBoot c) = ''early-boot failed with exit code '' @ int_str c"
| "error_to_string (ErrUnmount c) = ''unmount script failed with exit code '' @ int_str c"
| "error_to_string (ErrIpc m) = ''IPC error: '' @ m"
| "error_to_string (ErrBusy m) = m"
| "error_to_string (ErrNix m) = ''nix error: '' @ m"
| "error_to_string (ErrSecurity m) = ''security: '' @ m"
| "error_to_string (ErrOther m) = m"
| "error_to_string (ErrPanic m) = m"

definition is_panic :: "'a res \<Rightarrow> bool" where
  "is_panic r = (case r of Inl (ErrPanic _) \<Rightarrow> True | _ \<Rightarrow> False)"

lemma is_panic_simps [simp]:
  "\<not> is_panic (Inr x)"
  "is_panic (Inl (ErrPanic m))"
  by (simp_all add: is_panic_def)

section \<open>Sequencing\<close>

text \<open>The operator \<open>?\<close>, an early \<open>return Err\<close> under a condition, and a \<open>for\<close> loop whose body may return early.\<close>

definition res_bind :: "'a res \<Rightarrow> ('a \<Rightarrow> 'b res) \<Rightarrow> 'b res" where
  "res_bind r f = (case r of Inl e \<Rightarrow> Inl e | Inr x \<Rightarrow> f x)"

definition reject :: "bool \<Rightarrow> error \<Rightarrow> unit res" where
  "reject c e = (if c then Inl e else Inr ())"

fun res_for :: "('a \<Rightarrow> unit res) \<Rightarrow> 'a list \<Rightarrow> unit res" where
  "res_for f [] = Inr ()"
| "res_for f (x # xs) = res_bind (f x) (\<lambda>_. res_for f xs)"

definition map_err :: "(error \<Rightarrow> error) \<Rightarrow> 'a res \<Rightarrow> 'a res" where
  "map_err f r = (case r of Inl e \<Rightarrow> Inl (f e) | Inr x \<Rightarrow> Inr x)"

lemma res_bind_simps [simp]: "res_bind (Inl e) f = Inl e" "res_bind (Inr x) f = f x"
  by (simp_all add: res_bind_def)

lemma res_bind_Inr_iff: "res_bind r f = Inr y \<longleftrightarrow> (\<exists>x. r = Inr x \<and> f x = Inr y)"
  by (cases r) auto

lemma res_bind_Inl_iff: "res_bind r f = Inl e \<longleftrightarrow> r = Inl e \<or> (\<exists>x. r = Inr x \<and> f x = Inl e)"
  by (cases r) auto

lemma res_bind_unit_iff: "res_bind r f = Inr y \<longleftrightarrow> r = Inr () \<and> f () = Inr y"
  by (cases r) auto

lemma reject_iff [simp]: "reject c e = Inr u \<longleftrightarrow> \<not> c" "reject c e = Inl e' \<longleftrightarrow> c \<and> e = e'"
  by (auto simp: reject_def)

lemma res_for_iff [simp]: "res_for f xs = Inr u \<longleftrightarrow> (\<forall>x \<in> set xs. f x = Inr ())"
  by (induction xs) (auto simp: res_bind_unit_iff)

lemma res_for_Inl: "res_for f xs = Inl e \<Longrightarrow> \<exists>x \<in> set xs. f x = Inl e"
  by (induction xs) (auto simp: res_bind_Inl_iff)

lemma map_err_iff [simp]:
  "map_err f r = Inr x \<longleftrightarrow> r = Inr x" "map_err f r = Inl e \<longleftrightarrow> (\<exists>e'. r = Inl e' \<and> e = f e')"
  by (auto simp: map_err_def split: sum.splits)

section \<open>Constants\<close>

text \<open>Durations are in milliseconds, as every clock value of the development.\<close>

type_synonym millis = nat

abbreviation secs :: "nat \<Rightarrow> millis" where "secs n \<equiv> 1000 * n"

definition BOOT_FG_SETTLE :: millis where "BOOT_FG_SETTLE = secs 120"
definition BOOT_BG_SETTLE :: millis where "BOOT_BG_SETTLE = secs 60"
definition DEP_WAIT :: millis where "DEP_WAIT = secs 120"
definition DAEMONIZE_GRACE :: millis where "DAEMONIZE_GRACE = 300"
definition CTL_POLL :: millis where "CTL_POLL = 200"
definition STOP_GRACE_SECS :: nat where "STOP_GRACE_SECS = 5"
definition SHUTDOWN_STOP_WAIT :: millis where "SHUTDOWN_STOP_WAIT = secs 2"
definition SHUTDOWN_QUIT_WAIT :: millis where "SHUTDOWN_QUIT_WAIT = secs 1"
definition INIT_LOOP_SLEEP :: millis where "INIT_LOOP_SLEEP = 200"
definition GETTY_RESPAWN_DELAY :: millis where "GETTY_RESPAWN_DELAY = secs 1"
definition MAX_IPC_FRAME_BYTES :: nat where "MAX_IPC_FRAME_BYTES = 16 * 1024 * 1024"
definition MAX_IPC_CLIENTS :: nat where "MAX_IPC_CLIENTS = 32"
definition MAX_EXIT_REGISTRY_ENTRIES :: nat where "MAX_EXIT_REGISTRY_ENTRIES = 4096"
definition MAX_LOG_FOLLOWERS :: nat where "MAX_LOG_FOLLOWERS = 16"
definition MAX_WATCH_FOLLOWERS :: nat where "MAX_WATCH_FOLLOWERS = 8"
definition WATCH_HEARTBEAT :: millis where "WATCH_HEARTBEAT = secs 10"
definition TERMINATE_POLL :: millis where "TERMINATE_POLL = 100"
definition CHILD_WAIT_POLL :: millis where "CHILD_WAIT_POLL = 50"
definition REAP_AFTER_KILL :: millis where "REAP_AFTER_KILL = 500"
definition CHILD_WAIT_SLICE :: millis where "CHILD_WAIT_SLICE = secs 60"
definition EVENT_RING_CAP :: nat where "EVENT_RING_CAP = 16"
definition EVENT_RETURN :: nat where "EVENT_RETURN = EVENT_RING_CAP"
definition MAX_EARLY_BOOT_CAPTURE_LINES :: nat where "MAX_EARLY_BOOT_CAPTURE_LINES = 2000"
definition MAX_EARLY_BOOT_CAPTURE_BYTES :: nat where "MAX_EARLY_BOOT_CAPTURE_BYTES = 256 * 1024"
definition MAX_EARLY_BOOT_LINE_BYTES :: nat where "MAX_EARLY_BOOT_LINE_BYTES = 4096"

end
