(* ===== verification/Protocol.thy ===== *)
theory Protocol
  imports Errors
begin

text \<open>
  The messages of the control socket (\<open>src/src/protocol.rs\<close>) with the texts their \<open>Display\<close>
  implementations print. The JSON encoding is \<open>serde\<close>'s and is not modelled; a raw
  \<open>serde_json::Value\<close> is of an arbitrary type \<open>'j\<close>. \<open>SecurityContext\<close> is declared here because
  \<open>ServiceDescribe\<close> carries one.
\<close>

section \<open>Service states\<close>

datatype service_state =
    Pending
  | Starting
  | Running
  | Succeeded
  | Failed
  | Stopping
  | Stopped
  | Restarting
  | Disabled
  | WaitingForDependency

fun state_str :: "service_state \<Rightarrow> string" where
  "state_str Pending = ''pending''"
| "state_str Starting = ''starting''"
| "state_str Running = ''running''"
| "state_str Succeeded = ''succeeded''"
| "state_str Failed = ''failed''"
| "state_str Stopping = ''stopping''"
| "state_str Stopped = ''stopped''"
| "state_str Restarting = ''restarting''"
| "state_str Disabled = ''disabled''"
| "state_str WaitingForDependency = ''waiting_for_dependency''"

lemma state_str_inj: "state_str s = state_str t \<Longrightarrow> s = t"
  by (cases s; cases t) simp_all

record service_status =
  st_name :: string
  st_state :: service_state
  st_pid :: "i32 option"
  st_restarts :: u32
  st_liveness_failures :: u32
  st_enabled :: bool
  st_labels :: "(string, string) omap"

section \<open>Lifecycle events\<close>

datatype event_kind = StateChange | RestartEvent | LivenessFailed

fun event_kind_str :: "event_kind \<Rightarrow> string" where
  "event_kind_str StateChange = ''state_change''"
| "event_kind_str RestartEvent = ''restart''"
| "event_kind_str LivenessFailed = ''liveness_failed''"

record service_event =
  se_ts :: string
  se_kind :: event_kind
  se_from :: "service_state option"
  se_to :: "service_state option"
  se_detail :: "string option"

section \<open>Describe\<close>

record dep_node =
  dn_name :: string
  dn_state :: service_state

record running_identity =
  ri_uid :: nat
  ri_gid :: nat
  ri_user :: "string option"
  ri_group :: "string option"

record 'j service_source =
  src_path :: string
  src_json :: 'j

datatype describe_output = Human | Json

instantiation describe_output :: default
begin

definition default_describe_output :: describe_output where
  "default_describe_output = Human"

instance ..

end

record security_context =
  run_as_user :: "string option"
  run_as_group :: "string option"
  capabilities :: "string list"

record 'j service_describe =
  sd_status :: service_status
  sd_uptime_secs :: "nat option"
  sd_depends_on :: "dep_node list"
  sd_dependents :: "dep_node list"
  sd_dep_nodes :: "dep_node list"
  sd_dep_edges :: "(string \<times> string) list"
  sd_events :: "service_event list"
  sd_running_as :: "running_identity option"
  sd_security_context :: "security_context option"
  sd_source :: "'j service_source option"

section \<open>Daemon info\<close>

datatype daemon_mode = ModeInit | ModeSupervise

fun daemon_mode_str :: "daemon_mode \<Rightarrow> string" where
  "daemon_mode_str ModeInit = ''init''"
| "daemon_mode_str ModeSupervise = ''supervise''"

record daemon_info =
  di_version :: string
  di_tag_commit :: string
  di_build_commit :: string
  di_build_time :: string
  di_pid :: nat
  di_hostname :: string
  di_uptime_secs :: nat
  di_socket :: string
  di_mode :: daemon_mode
  di_services_total :: nat
  di_services_running :: nat
  di_otel_enabled :: bool
  di_otel_endpoint :: string
  di_otel_protocol :: string
  di_otel_service_name :: string
  di_otel_export_interval_secs :: nat

section \<open>Log lines\<close>

datatype log_level = LvStdout | LvStderr | LvInfo | LvWarn | LvError

fun log_level_str :: "log_level \<Rightarrow> string" where
  "log_level_str LvStdout = ''stdout''"
| "log_level_str LvStderr = ''stderr''"
| "log_level_str LvInfo = ''info''"
| "log_level_str LvWarn = ''warn''"
| "log_level_str LvError = ''error''"

record log_line =
  ll_ts :: string
  ll_service :: string
  ll_level :: log_level
  ll_msg :: string

section \<open>Requests and responses\<close>

datatype shutdown_mode = Reboot | Poweroff | Halt

fun shutdown_mode_str :: "shutdown_mode \<Rightarrow> string" where
  "shutdown_mode_str Reboot = ''reboot''"
| "shutdown_mode_str Poweroff = ''poweroff''"
| "shutdown_mode_str Halt = ''halt''"

datatype request =
    ReqList
  | ReqStart string bool
  | ReqStop string
  | ReqRestart string
  | ReqStatus string
  | ReqDescribe string describe_output
  | ReqEnable string bool
  | ReqLogs "string option" bool "nat option"
  | ReqInfo
  | ReqShutdown shutdown_mode
  | ReqWatch "string list"

datatype 'j response =
    RespOk "string option"
  | RespError string "string option"
  | RespList "service_status list"
  | RespStatus service_status
  | RespDescribe "'j service_describe"
  | RespInfo daemon_info
  | RespLog log_line
  | RespHeartbeat

end
