(* ===== verification/Labels.thy ===== *)
theory Labels
  imports Protocol
begin

text \<open>
  Label selectors and formatting (\<open>src/src/labels.rs\<close>). A label map is a \<open>BTreeMap\<close>, iterated in key order.
  \<open>dbg\<close> is the \<open>{:?}\<close> text of a string, used in messages only.
\<close>

type_synonym labels = "(string, string) omap"

definition parse_selector :: "(string \<Rightarrow> string) \<Rightarrow> string \<Rightarrow> (string \<times> string) res" where
  "parse_selector dbg s =
     (case split_once CHR ''='' s of
        None \<Rightarrow> Inl (ErrConfig (''invalid label selector '' @ dbg s @ '': want key=value''))
      | Some (key, value) \<Rightarrow>
          if key = [] \<or> value = []
          then Inl (ErrConfig (''invalid label selector '' @ dbg s @ '': key and value must be non-empty''))
          else if CHR ''='' \<in> set key
          then Inl (ErrConfig (''invalid label selector '' @ dbg s @ '': want key=value''))
          else Inr (key, value))"

definition matches_selectors :: "labels \<Rightarrow> (string \<times> string) list \<Rightarrow> bool" where
  "matches_selectors labels want =
     list_all (\<lambda>(k, v). case om_get labels k of Some have_v \<Rightarrow> have_v = v | None \<Rightarrow> False) want"

definition has_keys :: "labels \<Rightarrow> string list \<Rightarrow> bool" where
  "has_keys labels keys = list_all (om_contains labels) keys"

definition format_label :: "string \<times> string \<Rightarrow> string" where
  "format_label = (\<lambda>(k, v). k @ ''='' @ v)"

definition format_labels :: "labels \<Rightarrow> string" where
  "format_labels labels = join '','' (map format_label labels)"

text \<open>A parsed selector is the text before and after the first \<open>=\<close>; the value may contain further ones.\<close>

lemma parse_selector_Inr:
  "parse_selector dbg s = Inr (k, v) \<longleftrightarrow> s = k @ CHR ''='' # v \<and> CHR ''='' \<notin> set k \<and> k \<noteq> [] \<and> v \<noteq> []"
proof (cases "split_once CHR ''='' s")
  case None
  then have "CHR ''='' \<notin> set s" by (simp add: split_once_None)
  then show ?thesis using None by (auto simp: parse_selector_def)
next
  case (Some kv)
  obtain k' v' where kv: "kv = (k', v')" by (cases kv)
  have s: "s = k' @ CHR ''='' # v'" "CHR ''='' \<notin> set k'" using Some kv by (simp_all add: split_once_Some)
  have "split_once CHR ''='' s = Some (k, v) \<longleftrightarrow> k = k' \<and> v = v'" using Some kv by auto
  then have "s = k @ CHR ''='' # v \<and> CHR ''='' \<notin> set k \<longleftrightarrow> k = k' \<and> v = v'"
    by (simp add: split_once_Some)
  then show ?thesis using Some s by (auto simp: parse_selector_def kv)
qed

lemma matches_selectors_iff:
  "matches_selectors labels want \<longleftrightarrow> (\<forall>(k, v) \<in> set want. om_get labels k = Some v)"
  by (auto simp: matches_selectors_def list_all_iff split: option.splits)

lemma has_keys_iff: "has_keys labels keys \<longleftrightarrow> set keys \<subseteq> set (om_keys labels)"
  by (auto simp: has_keys_def list_all_iff om_contains_keys simp del: set_map)

section \<open>Properties\<close>

text \<open>
  C37: a formatted label map, split at its commas and parsed as selectors, matches the map it came from,
  provided no key or value holds a comma and no key an equals sign, as validation ensures for keys.
\<close>

lemma parse_format_label:
  assumes "k \<noteq> []" "v \<noteq> []" "CHR ''='' \<notin> set k"
  shows "parse_selector dbg (format_label (k, v)) = Inr (k, v)"
  using assms parse_selector_Inr [of dbg _ k v] by (simp add: format_label_def)



end
