(* ===== verification/Security.thy ===== *)
theory Security
  imports Protocol "HOL-Library.Sublist"
begin

unbundle bit_operations_syntax

text \<open>
  Privilege drop and capabilities (\<open>src/src/security.rs\<close>): the capability table, the resolution of a
  \<open>securityContext\<close> into a \<open>ResolvedIdentity\<close>, and the sequence of system calls that the child
  makes between fork and exec. The passwd and group databases are the parameter \<open>user_db\<close>, the
  kernel's answers the parameter \<open>kernel\<close>; both belong to the system, not to the repository.
\<close>

section \<open>Capability table\<close>

definition CAP_TABLE :: "(string \<times> nat) list" where
  "CAP_TABLE = [
    (''CHOWN'', 0), (''DAC_OVERRIDE'', 1), (''DAC_READ_SEARCH'', 2), (''FOWNER'', 3),
    (''FSETID'', 4), (''KILL'', 5), (''SETGID'', 6), (''SETUID'', 7), (''SETPCAP'', 8),
    (''LINUX_IMMUTABLE'', 9), (''NET_BIND_SERVICE'', 10), (''NET_BROADCAST'', 11),
    (''NET_ADMIN'', 12), (''NET_RAW'', 13), (''IPC_LOCK'', 14), (''IPC_OWNER'', 15),
    (''SYS_MODULE'', 16), (''SYS_RAWIO'', 17), (''SYS_CHROOT'', 18), (''SYS_PTRACE'', 19),
    (''SYS_PACCT'', 20), (''SYS_ADMIN'', 21), (''SYS_BOOT'', 22), (''SYS_NICE'', 23),
    (''SYS_RESOURCE'', 24), (''SYS_TIME'', 25), (''SYS_TTY_CONFIG'', 26), (''MKNOD'', 27),
    (''LEASE'', 28), (''AUDIT_WRITE'', 29), (''AUDIT_CONTROL'', 30), (''SETFCAP'', 31),
    (''MAC_OVERRIDE'', 32), (''MAC_ADMIN'', 33), (''SYSLOG'', 34), (''WAKE_ALARM'', 35),
    (''BLOCK_SUSPEND'', 36), (''AUDIT_READ'', 37), (''PERFMON'', 38), (''BPF'', 39),
    (''CHECKPOINT_RESTORE'', 40)]"

definition CAP_LAST :: nat where
  "CAP_LAST = 40"

definition KNOWN_CAPABILITIES :: "string list" where
  "KNOWN_CAPABILITIES = [
    ''AUDIT_CONTROL'', ''AUDIT_READ'', ''AUDIT_WRITE'', ''BLOCK_SUSPEND'', ''BPF'',
    ''CHECKPOINT_RESTORE'', ''CHOWN'', ''DAC_OVERRIDE'', ''DAC_READ_SEARCH'', ''FOWNER'',
    ''FSETID'', ''IPC_LOCK'', ''IPC_OWNER'', ''KILL'', ''LEASE'', ''LINUX_IMMUTABLE'',
    ''MAC_ADMIN'', ''MAC_OVERRIDE'', ''MKNOD'', ''NET_ADMIN'', ''NET_BIND_SERVICE'',
    ''NET_BROADCAST'', ''NET_RAW'', ''PERFMON'', ''SETFCAP'', ''SETGID'', ''SETPCAP'', ''SETUID'',
    ''SYS_ADMIN'', ''SYS_BOOT'', ''SYS_CHROOT'', ''SYSLOG'', ''SYS_MODULE'', ''SYS_NICE'',
    ''SYS_PACCT'', ''SYS_PTRACE'', ''SYS_RAWIO'', ''SYS_RESOURCE'', ''SYS_TIME'',
    ''SYS_TTY_CONFIG'', ''WAKE_ALARM'']"

definition normalize_cap_name :: "string \<Rightarrow> string" where
  "normalize_cap_name raw =
     (let s = trim raw;
          s' = (case strip_prefix ''CAP_'' s of
                  Some t \<Rightarrow> t
                | None \<Rightarrow> (case strip_prefix ''cap_'' s of Some t \<Rightarrow> t | None \<Rightarrow> s))
      in to_ascii_uppercase s')"

definition validate_cap_name :: "string \<Rightarrow> unit res" where
  "validate_cap_name raw =
     (let n = normalize_cap_name raw in
      if n = [] then Inl (ErrConfig ''empty capability name'')
      else if \<not> list_ex (\<lambda>(name, _). name = n) CAP_TABLE
      then Inl (ErrConfig (''unknown capability '' @ quoted raw))
      else Inr ())"

definition cap_number :: "string \<Rightarrow> nat res" where
  "cap_number normalized =
     (case find (\<lambda>(name, _). name = normalized) CAP_TABLE of
        Some (_, n) \<Rightarrow> Inr n
      | None \<Rightarrow> Inl (ErrSecurity (''unknown capability '' @ quoted normalized)))"

section \<open>Resolved identity\<close>

record resolved_identity =
  id_uid :: "nat option"
  id_gid :: "nat option"
  id_caps :: "nat list"
  id_home :: "string option"
  id_username :: "string option"
  id_named_user :: bool

definition is_noop :: "resolved_identity \<Rightarrow> bool" where
  "is_noop i = (id_uid i = None \<and> id_gid i = None \<and> id_caps i = [])"

definition drops_identity :: "resolved_identity \<Rightarrow> bool" where
  "drops_identity i = (id_uid i \<noteq> None \<or> id_gid i \<noteq> None)"

text \<open>\<open>cur\<close> is the real uid and gid of the calling process.\<close>

definition already_current_without_caps :: "nat \<times> nat \<Rightarrow> resolved_identity \<Rightarrow> bool" where
  "already_current_without_caps cur i =
     (if id_caps i \<noteq> [] then False
      else (case id_uid i of None \<Rightarrow> True | Some u \<Rightarrow> u = fst cur)
         \<and> (case id_gid i of None \<Rightarrow> True | Some g \<Rightarrow> g = snd cur))"

text \<open>
  \<open>nix::unistd::User\<close> and \<open>Group\<close> lookups: an error text, no entry, or the entry.
\<close>

record passwd =
  pw_name :: string
  pw_uid :: nat
  pw_gid :: nat
  pw_dir :: string

record user_db =
  user_from_uid :: "nat \<Rightarrow> string + passwd option"
  user_from_name :: "string \<Rightarrow> string + passwd option"
  group_from_name :: "string \<Rightarrow> string + nat option"
  group_name_of_gid :: "nat \<Rightarrow> string + string option"

definition set_nonblank :: "string option \<Rightarrow> bool" where
  "set_nonblank spec = (case spec of None \<Rightarrow> False | Some s \<Rightarrow> trim s \<noteq> [])"

text \<open>The \<open>runAsUser\<close> part of \<open>resolve\<close>: uid, primary gid, home, user name and whether a login name
  was given.\<close>

type_synonym user_part = "nat option \<times> nat option \<times> string option \<times> string option \<times> bool"

definition resolve_user :: "user_db \<Rightarrow> bool \<Rightarrow> string option \<Rightarrow> user_part res" where
  "resolve_user db has_group user =
     (case user of
        None \<Rightarrow> Inr (None, None, None, None, False)
      | Some user_spec \<Rightarrow>
          let spec = trim user_spec in
          if spec = [] then Inl (ErrSecurity ''runAsUser is empty'')
          else (case parse_uint 32 spec of
            Some n \<Rightarrow>
              (case user_from_uid db n of
                 Inr (Some u) \<Rightarrow> Inr (Some n, Some (pw_gid u), Some (pw_dir u), Some (pw_name u), False)
               | _ \<Rightarrow>
                   if \<not> has_group
                   then Inl (ErrSecurity (''runAsUser '' @ quoted spec
                          @ '' has no passwd entry; set runAsGroup explicitly''))
                   else Inr (Some n, None, None, None, False))
          | None \<Rightarrow>
              (case user_from_name db spec of
                 Inl e \<Rightarrow> Inl (ErrSecurity (''lookup user '' @ quoted spec @ '': '' @ e))
               | Inr None \<Rightarrow> Inl (ErrSecurity (''unknown user '' @ quoted spec))
               | Inr (Some u) \<Rightarrow>
                   Inr (Some (pw_uid u), Some (pw_gid u), Some (pw_dir u), Some (pw_name u), True))))"

definition resolve_group :: "user_db \<Rightarrow> nat option \<Rightarrow> string option \<Rightarrow> nat option res" where
  "resolve_group db primary_gid grp =
     (case grp of
        None \<Rightarrow> Inr primary_gid
      | Some group_spec \<Rightarrow>
          let spec = trim group_spec in
          if spec = [] then Inl (ErrSecurity ''runAsGroup is empty'')
          else (case parse_uint 32 spec of
            Some n \<Rightarrow> Inr (Some n)
          | None \<Rightarrow>
              (case group_from_name db spec of
                 Inl e \<Rightarrow> Inl (ErrSecurity (''lookup group '' @ quoted spec @ '': '' @ e))
               | Inr None \<Rightarrow> Inl (ErrSecurity (''unknown group '' @ quoted spec))
               | Inr (Some g) \<Rightarrow> Inr (Some g))))"

fun resolve_caps :: "string list \<Rightarrow> nat list res" where
  "resolve_caps [] = Inr []"
| "resolve_caps (raw # raws) =
     (case cap_number (normalize_cap_name raw) of
        Inl e \<Rightarrow> Inl e
      | Inr n \<Rightarrow> (case resolve_caps raws of Inl e \<Rightarrow> Inl e | Inr ns \<Rightarrow> Inr (n # ns)))"

definition resolve :: "user_db \<Rightarrow> security_context \<Rightarrow> resolved_identity option res" where
  "resolve db ctx =
     (let has_user = set_nonblank (run_as_user ctx);
          has_group = set_nonblank (run_as_group ctx)
      in if \<not> has_user \<and> \<not> has_group \<and> capabilities ctx = [] then Inr None
      else (case resolve_user db has_group (run_as_user ctx) of
        Inl e \<Rightarrow> Inl e
      | Inr (uid, primary_gid, home, username, named_user) \<Rightarrow>
          (case resolve_group db primary_gid (run_as_group ctx) of
             Inl e \<Rightarrow> Inl e
           | Inr gid \<Rightarrow>
               (case resolve_caps (capabilities ctx) of
                  Inl e \<Rightarrow> Inl e
                | Inr caps \<Rightarrow>
                    let ident = \<lparr>id_uid = uid, id_gid = gid, id_caps = remdups_adj (sort caps),
                                 id_home = home, id_username = username, id_named_user = named_user\<rparr>
                    in if is_noop ident then Inr None else Inr (Some ident)))))"

section \<open>System calls before exec\<close>

datatype syscall =
    PrSetKeepcaps
  | PrCapbsetDrop nat
  | Initgroups string nat
  | Setgroups "nat list"
  | Setgid nat
  | Setuid nat
  | Capset u32 u32
  | AmbientClearAll
  | AmbientRaise nat
  | PrSetNoNewPrivs

text \<open>
  The kernel answers each call, knowing the calls made before it: \<open>None\<close> for success, \<open>Some e\<close> for a
  failure with text \<open>e\<close>. A computation extends the list of calls made and may fail.
\<close>

type_synonym kernel = "syscall list \<Rightarrow> syscall \<Rightarrow> string option"

type_synonym 'a sys = "syscall list \<Rightarrow> syscall list \<times> 'a res"

definition sys_return :: "'a \<Rightarrow> 'a sys" where
  "sys_return x = (\<lambda>tr. (tr, Inr x))"

definition sys_fail :: "error \<Rightarrow> 'a sys" where
  "sys_fail e = (\<lambda>tr. (tr, Inl e))"

definition sys_bind :: "'a sys \<Rightarrow> ('a \<Rightarrow> 'b sys) \<Rightarrow> 'b sys" where
  "sys_bind m f = (\<lambda>tr. case m tr of (tr', Inl e) \<Rightarrow> (tr', Inl e) | (tr', Inr x) \<Rightarrow> f x tr')"

definition sys_call :: "kernel \<Rightarrow> syscall \<Rightarrow> (string \<Rightarrow> string) \<Rightarrow> unit sys" where
  "sys_call k c msg = (\<lambda>tr.
     (tr @ [c], case k tr c of None \<Rightarrow> Inr () | Some e \<Rightarrow> Inl (ErrSecurity (msg e))))"

definition sys_try :: "kernel \<Rightarrow> syscall \<Rightarrow> unit sys" where
  "sys_try k c = (\<lambda>tr. (tr @ [c], Inr ()))"

fun sys_for :: "('a \<Rightarrow> unit sys) \<Rightarrow> 'a list \<Rightarrow> unit sys" where
  "sys_for f [] = sys_return ()"
| "sys_for f (x # xs) = sys_bind (f x) (\<lambda>_. sys_for f xs)"

definition drop_bounding_set :: "kernel \<Rightarrow> nat list \<Rightarrow> unit sys" where
  "drop_bounding_set k keep =
     sys_for (\<lambda>cap. if cap \<in> set keep then sys_return () else sys_try k (PrCapbsetDrop cap))
       [0..<Suc CAP_LAST]"

text \<open>The two 32-bit words of the capability set, or the out-of-range capability.\<close>

fun cap_words :: "nat list \<Rightarrow> u32 \<Rightarrow> u32 \<Rightarrow> (u32 \<times> u32) res" where
  "cap_words [] low high = Inr (low, high)"
| "cap_words (c # cs) low high =
     (if c < 32 then cap_words cs (low OR push_bit c 1) high
      else if c < 64 then cap_words cs low (high OR push_bit (c - 32) 1)
      else Inl (ErrSecurity (''capability number '' @ nat_str c @ '' out of range'')))"

definition set_capabilities :: "kernel \<Rightarrow> nat list \<Rightarrow> unit sys" where
  "set_capabilities k caps =
     (case cap_words caps 0 0 of
        Inl e \<Rightarrow> sys_fail e
      | Inr (low, high) \<Rightarrow>
          sys_bind (sys_call k (Capset low high) (\<lambda>e. ''capset: '' @ e)) (\<lambda>_.
          sys_bind (sys_call k AmbientClearAll (\<lambda>e. ''PR_CAP_AMBIENT_CLEAR_ALL: '' @ e)) (\<lambda>_.
          sys_for (\<lambda>c. sys_call k (AmbientRaise c)
                     (\<lambda>e. ''PR_CAP_AMBIENT_RAISE('' @ nat_str c @ ''): '' @ e)) caps)))"

text \<open>\<open>CString::new\<close> refuses a name with a NUL byte.\<close>

definition apply_groups :: "kernel \<Rightarrow> resolved_identity \<Rightarrow> unit sys" where
  "apply_groups k ident =
     (if id_named_user ident then
        (case (id_username ident, id_gid ident) of
           (Some name, Some gid) \<Rightarrow>
             if CHR 0x00 \<in> set name
             then sys_fail (ErrSecurity (''username '' @ quoted name @ '' contains NUL''))
             else sys_call k (Initgroups name gid)
               (\<lambda>e. ''initgroups('' @ name @ '', '' @ nat_str gid @ ''): '' @ e
                  @ '' (required when runAsUser/runAsGroup is set)'')
         | _ \<Rightarrow> sys_fail (ErrSecurity
                 ''named_user set but username/gid missing (invariant violated)''))
      else sys_call k (Setgroups [])
             (\<lambda>e. ''setgroups: '' @ e @ '' (required when runAsUser/runAsGroup is set)''))"

definition apply_pre_exec :: "kernel \<Rightarrow> nat \<times> nat \<Rightarrow> resolved_identity \<Rightarrow> unit sys" where
  "apply_pre_exec k cur ident =
     (if is_noop ident \<or> already_current_without_caps cur ident then sys_return ()
      else
        let want_caps = id_caps ident \<noteq> []; drop_id = drops_identity ident in
        sys_bind (if want_caps then sys_call k PrSetKeepcaps (\<lambda>e. ''PR_SET_KEEPCAPS: '' @ e)
                  else sys_return ()) (\<lambda>_.
        sys_bind (drop_bounding_set k (id_caps ident)) (\<lambda>_.
        sys_bind (if drop_id then apply_groups k ident else sys_return ()) (\<lambda>_.
        sys_bind (case id_gid ident of
                    Some gid \<Rightarrow> sys_call k (Setgid gid) (\<lambda>e. ''setgid('' @ nat_str gid @ ''): '' @ e)
                  | None \<Rightarrow> sys_return ()) (\<lambda>_.
        sys_bind (case id_uid ident of
                    Some uid \<Rightarrow> sys_call k (Setuid uid) (\<lambda>e. ''setuid('' @ nat_str uid @ ''): '' @ e)
                  | None \<Rightarrow> sys_return ()) (\<lambda>_.
        sys_bind (if want_caps \<or> drop_id then set_capabilities k (id_caps ident) else sys_return ()) (\<lambda>_.
        sys_call k PrSetNoNewPrivs (\<lambda>e. ''PR_SET_NO_NEW_PRIVS: '' @ e))))))))"

text \<open>\<open>attach_pre_exec\<close> installs the closure unless there is nothing to apply.\<close>

definition attach_pre_exec :: "nat \<times> nat \<Rightarrow> resolved_identity \<Rightarrow> resolved_identity option" where
  "attach_pre_exec cur ident =
     (if is_noop ident \<or> already_current_without_caps cur ident then None else Some ident)"


section \<open>Capability names and numbers\<close>

lemma cap_table_numbers: "map snd CAP_TABLE = [0..<Suc CAP_LAST]"
  by (simp add: CAP_TABLE_def CAP_LAST_def upt_rec)

lemma cap_table_distinct: "distinct (map fst CAP_TABLE)"
  by code_simp

lemma cap_table_known: "set KNOWN_CAPABILITIES = set (map fst CAP_TABLE)"
proof -
  have "list_all (\<lambda>x. List.member (map fst CAP_TABLE) x) KNOWN_CAPABILITIES"
    and "list_all (\<lambda>x. List.member KNOWN_CAPABILITIES x) (map fst CAP_TABLE)"
    by code_simp+
  then show ?thesis by (auto simp: list_all_iff)
qed

lemma cap_table_no_empty: "[] \<notin> set (map fst CAP_TABLE)"
  by (simp add: CAP_TABLE_def)

lemma find_Some_iff_ex: "(\<exists>x. find P xs = Some x) \<longleftrightarrow> list_ex P xs"
  by (induction xs) auto

lemma validate_cap_name_iff:
  "validate_cap_name raw = Inr () \<longleftrightarrow> (\<exists>n. cap_number (normalize_cap_name raw) = Inr n)"
proof -
  have "list_ex (\<lambda>(name, _). name = []) CAP_TABLE \<longleftrightarrow> False"
    by (simp add: CAP_TABLE_def)
  then show ?thesis
    using find_Some_iff_ex [of "\<lambda>(name, _). name = normalize_cap_name raw" CAP_TABLE]
    by (auto simp: validate_cap_name_def cap_number_def Let_def split: option.splits)
qed

lemma cap_number_bound: "cap_number name = Inr n \<Longrightarrow> n \<le> CAP_LAST"
proof -
  assume "cap_number name = Inr n"
  then obtain m where "find (\<lambda>(x, _). x = name) CAP_TABLE = Some (m, n)"
    by (auto simp: cap_number_def split: option.splits)
  then have "(m, n) \<in> set CAP_TABLE" unfolding find_Some_iff by (metis nth_mem)
  then have "n \<in> set (map snd CAP_TABLE)" by force
  then show ?thesis by (simp only: cap_table_numbers) auto
qed

lemma resolve_caps_iff:
  "(\<exists>ns. resolve_caps raws = Inr ns) \<longleftrightarrow> (\<forall>raw \<in> set raws. validate_cap_name raw = Inr ())"
  by (induction raws) (auto simp: validate_cap_name_iff split: sum.splits)

lemma resolve_caps_bound: "resolve_caps raws = Inr ns \<Longrightarrow> \<forall>n \<in> set ns. n \<le> CAP_LAST"
  by (induction raws arbitrary: ns) (auto split: sum.splits dest: cap_number_bound)

section \<open>Resolved identities are well formed\<close>

definition wf_identity :: "resolved_identity \<Rightarrow> bool" where
  "wf_identity i =
     (sorted (id_caps i) \<and> distinct (id_caps i) \<and> (\<forall>c \<in> set (id_caps i). c \<le> CAP_LAST)
      \<and> (id_named_user i \<longrightarrow> id_uid i \<noteq> None \<and> id_gid i \<noteq> None \<and> id_username i \<noteq> None)
      \<and> \<not> is_noop i)"

lemma sorted_distinct_remdups_adj: "sorted xs \<Longrightarrow> distinct (remdups_adj (xs :: nat list))"
  by (induction xs rule: remdups_adj.induct) (auto simp: dual_order.antisym)

lemma resolve_user_named:
  "resolve_user db hg user = Inr (uid, pg, home, name, named) \<Longrightarrow>
   named \<longrightarrow> uid \<noteq> None \<and> pg \<noteq> None \<and> name \<noteq> None"
  by (auto simp: resolve_user_def Let_def split: option.splits sum.splits if_splits)

lemma resolve_group_keeps:
  "resolve_group db pg grp = Inr gid \<Longrightarrow> pg \<noteq> None \<Longrightarrow> gid \<noteq> None"
  by (cases gid) (simp_all add: resolve_group_def Let_def split: option.splits sum.splits if_splits)

lemma resolve_SomeE:
  assumes "resolve db ctx = Inr (Some i)"
  obtains uid pg home name named gid caps where
    "resolve_user db (set_nonblank (run_as_group ctx)) (run_as_user ctx) = Inr (uid, pg, home, name, named)"
    "resolve_group db pg (run_as_group ctx) = Inr gid"
    "resolve_caps (capabilities ctx) = Inr caps"
    "i = \<lparr>id_uid = uid, id_gid = gid, id_caps = remdups_adj (sort caps),
          id_home = home, id_username = name, id_named_user = named\<rparr>"
    "\<not> is_noop i"
  using assms
  by (auto simp: resolve_def Let_def split: if_splits sum.splits prod.splits)

lemma resolve_wf: "resolve db ctx = Inr (Some i) \<Longrightarrow> wf_identity i"
proof (elim resolve_SomeE)
  fix uid pg home name named gid caps
  assume u: "resolve_user db (set_nonblank (run_as_group ctx)) (run_as_user ctx)
              = Inr (uid, pg, home, name, named)"
    and g: "resolve_group db pg (run_as_group ctx) = Inr gid"
    and c: "resolve_caps (capabilities ctx) = Inr caps"
    and i: "i = \<lparr>id_uid = uid, id_gid = gid, id_caps = remdups_adj (sort caps),
                id_home = home, id_username = name, id_named_user = named\<rparr>"
    and n: "\<not> is_noop i"
  show "wf_identity i"
    using resolve_user_named [OF u] resolve_group_keeps [OF g] resolve_caps_bound [OF c] n
    by (auto simp: wf_identity_def i sorted_distinct_remdups_adj)
qed

section \<open>The two capability words\<close>

lemma cap_words_ok:
  "\<forall>c \<in> set caps. c < 64 \<Longrightarrow> \<exists>low high. cap_words caps l h = Inr (low, high)"
  by (induction caps arbitrary: l h) auto

lemma cap_words_bits:
  assumes "cap_words caps l h = Inr (low, high)"
  shows "bit low n \<longleftrightarrow> bit l n \<or> (n < 32 \<and> n \<in> set caps)"
    and "bit high n \<longleftrightarrow> bit h n \<or> (n < 32 \<and> n + 32 \<in> set caps)"
proof -
  have one: "bit (push_bit c 1 :: u32) m \<longleftrightarrow> m = c \<and> m < 32" for c m
    by (auto simp: bit_push_bit_iff bit_1_iff possible_bit_word simp del: push_bit_of_1)
  show "bit low n \<longleftrightarrow> bit l n \<or> (n < 32 \<and> n \<in> set caps)"
    using assms
    by (induction caps arbitrary: l h)
      (auto simp: bit_or_iff one simp del: push_bit_of_1 split: if_splits)
  show "bit high n \<longleftrightarrow> bit h n \<or> (n < 32 \<and> n + 32 \<in> set caps)"
    using assms
    by (induction caps arbitrary: l h)
      (auto simp: bit_or_iff one simp del: push_bit_of_1 split: if_splits)
qed

section \<open>Which calls are made\<close>

text \<open>
  \<open>runs k m p\<close>: the computation \<open>m\<close> makes the calls of the plan \<open>p\<close> in order and stops early only when
  it fails; when it succeeds, every call of the plan other than a best-effort \<open>PR_CAPBSET_DROP\<close>
  succeeded.
\<close>

definition optional_call :: "syscall \<Rightarrow> bool" where
  "optional_call c = (\<exists>n. c = PrCapbsetDrop n)"

definition all_succeed :: "kernel \<Rightarrow> syscall list \<Rightarrow> syscall list \<Rightarrow> bool" where
  "all_succeed k tr p =
     (\<forall>pre c post. p = pre @ c # post \<longrightarrow> optional_call c \<or> k (tr @ pre) c = None)"

definition runs :: "kernel \<Rightarrow> 'a sys \<Rightarrow> syscall list \<Rightarrow> bool" where
  "runs k m p =
     (\<forall>tr. \<exists>q. fst (m tr) = tr @ q \<and> prefix q p
        \<and> (\<forall>x. snd (m tr) = Inr x \<longrightarrow> q = p \<and> all_succeed k tr p))"

lemma all_succeed_Nil [simp]: "all_succeed k tr []"
  by (simp add: all_succeed_def)

lemma all_succeed_append:
  "all_succeed k tr (p @ q) \<longleftrightarrow> all_succeed k tr p \<and> all_succeed k (tr @ p) q"
proof (intro iffI conjI)
  assume a: "all_succeed k tr (p @ q)"
  show "all_succeed k tr p"
    using a unfolding all_succeed_def by (metis append_Cons append_assoc)
  show "all_succeed k (tr @ p) q"
    using a unfolding all_succeed_def by (metis append_assoc)
next
  assume a: "all_succeed k tr p \<and> all_succeed k (tr @ p) q"
  show "all_succeed k tr (p @ q)"
    unfolding all_succeed_def
  proof (intro allI impI)
    fix pre c post
    assume "p @ q = pre @ c # post"
    then consider us where "p = pre @ c # us" | us where "pre = p @ us" "q = us @ c # post"
      by (auto simp: append_eq_append_conv2 append_eq_Cons_conv)
    then show "optional_call c \<or> k (tr @ pre) c = None"
      using a unfolding all_succeed_def by cases (metis append_assoc)+
  qed
qed

lemma all_succeed_single: "all_succeed k tr [c] \<longleftrightarrow> optional_call c \<or> k tr c = None"
  by (auto simp: all_succeed_def Cons_eq_append_conv)

lemma runs_return [intro]: "runs k (sys_return x) []"
  by (simp add: runs_def sys_return_def)

lemma runs_fail [intro]: "runs k (sys_fail e) p"
  by (simp add: runs_def sys_fail_def)

lemma runs_call [intro]: "runs k (sys_call k c msg) [c]"
  by (auto simp: runs_def sys_call_def all_succeed_single split: option.splits)

lemma runs_try [intro]: "optional_call c \<Longrightarrow> runs k (sys_try k c) [c]"
  by (simp add: runs_def sys_try_def all_succeed_single)

lemma runs_bind:
  assumes m: "runs k m p" and f: "\<And>x. runs k (f x) q"
  shows "runs k (sys_bind m f) (p @ q)"
  unfolding runs_def
proof
  fix tr
  obtain u where u: "fst (m tr) = tr @ u" "prefix u p"
      "\<forall>x. snd (m tr) = Inr x \<longrightarrow> u = p \<and> all_succeed k tr p"
    using m unfolding runs_def by blast
  show "\<exists>w. fst (sys_bind m f tr) = tr @ w \<and> prefix w (p @ q)
      \<and> (\<forall>x. snd (sys_bind m f tr) = Inr x \<longrightarrow> w = p @ q \<and> all_succeed k tr (p @ q))"
  proof (cases "snd (m tr)")
    case (Inl e)
    then have "sys_bind m f tr = (tr @ u, Inl e)"
      using u(1) by (cases "m tr") (auto simp: sys_bind_def)
    then show ?thesis using u(2) by (auto intro: prefix_prefix)
  next
    case (Inr x)
    then have b: "sys_bind m f tr = f x (tr @ p)" and s: "all_succeed k tr p"
      using u by (cases "m tr"; auto simp: sys_bind_def)+
    obtain v where "fst (f x (tr @ p)) = (tr @ p) @ v" "prefix v q"
        "\<forall>y. snd (f x (tr @ p)) = Inr y \<longrightarrow> v = q \<and> all_succeed k (tr @ p) q"
      using f [of x] unfolding runs_def by blast
    then show ?thesis
      using b s by (intro exI [of _ "p @ v"]) (auto simp: all_succeed_append)
  qed
qed

lemma runs_for:
  assumes "\<And>x. x \<in> set xs \<Longrightarrow> runs k (f x) (p x)"
  shows "runs k (sys_for f xs) (concat (map p xs))"
  using assms by (induction xs) (auto intro: runs_bind)

text \<open>The plan: keepcaps, bounding set, groups, gid, uid, capability sets, no-new-privs.\<close>

definition groups_plan :: "resolved_identity \<Rightarrow> syscall list" where
  "groups_plan i =
     (if id_named_user i then [Initgroups (the (id_username i)) (the (id_gid i))] else [Setgroups []])"

definition caps_plan :: "nat list \<Rightarrow> syscall list" where
  "caps_plan caps =
     (case cap_words caps 0 0 of
        Inl _ \<Rightarrow> []
      | Inr (low, high) \<Rightarrow> [Capset low high, AmbientClearAll] @ map AmbientRaise caps)"

definition pre_exec_plan :: "resolved_identity \<Rightarrow> syscall list" where
  "pre_exec_plan i =
     (if id_caps i \<noteq> [] then [PrSetKeepcaps] else [])
     @ map PrCapbsetDrop (filter (\<lambda>c. c \<notin> set (id_caps i)) [0..<Suc CAP_LAST])
     @ (if drops_identity i then groups_plan i else [])
     @ (case id_gid i of Some g \<Rightarrow> [Setgid g] | None \<Rightarrow> [])
     @ (case id_uid i of Some u \<Rightarrow> [Setuid u] | None \<Rightarrow> [])
     @ caps_plan (id_caps i)
     @ [PrSetNoNewPrivs]"

lemma runs_drop_bounding_set:
  "runs k (drop_bounding_set k keep) (map PrCapbsetDrop (filter (\<lambda>c. c \<notin> set keep) [0..<Suc CAP_LAST]))"
proof -
  let ?p = "\<lambda>c. if c \<in> set keep then [] else [PrCapbsetDrop c]"
  have "runs k (drop_bounding_set k keep) (concat (map ?p [0..<Suc CAP_LAST]))"
    unfolding drop_bounding_set_def by (rule runs_for) (auto simp: optional_call_def)
  moreover have "concat (map ?p xs) = map PrCapbsetDrop (filter (\<lambda>c. c \<notin> set keep) xs)" for xs
    by (induction xs) auto
  ultimately show ?thesis by metis
qed

lemma runs_set_capabilities: "runs k (set_capabilities k caps) (caps_plan caps)"
proof (cases "cap_words caps 0 0")
  case (Inl e)
  then show ?thesis by (auto simp: set_capabilities_def caps_plan_def)
next
  case (Inr lh)
  obtain low high where lh: "lh = (low, high)" by (cases lh)
  have raise: "runs k (sys_for (\<lambda>c. sys_call k (AmbientRaise c) (msg c)) caps) (map AmbientRaise caps)"
    for msg
    using runs_for [of caps k "\<lambda>c. sys_call k (AmbientRaise c) (msg c)" "\<lambda>c. [AmbientRaise c]"]
    by auto
  have "caps_plan caps = [Capset low high] @ [AmbientClearAll] @ map AmbientRaise caps"
    by (simp add: caps_plan_def Inr lh)
  then show ?thesis
    unfolding set_capabilities_def Inr lh sum.case prod.case
    by (simp only:) (intro runs_bind runs_call raise)
qed

lemma runs_apply_groups: "runs k (apply_groups k ident) (groups_plan ident)"
  by (auto simp: apply_groups_def groups_plan_def split: option.splits)

lemma runs_apply_pre_exec:
  assumes "\<not> is_noop ident" "\<not> already_current_without_caps cur ident"
  shows "runs k (apply_pre_exec k cur ident) (pre_exec_plan ident)"
proof -
  have caps: "id_caps ident \<noteq> [] \<or> drops_identity ident"
    using assms(1) by (auto simp: is_noop_def drops_identity_def)
  show ?thesis
    unfolding apply_pre_exec_def pre_exec_plan_def Let_def
    by (simp only: assms caps if_True if_False simp_thms)
      (intro runs_bind runs_drop_bounding_set runs_set_capabilities runs_call;
       auto simp: runs_apply_groups split: option.splits)
qed

section \<open>A kernel that refuses nothing\<close>

definition succeeds :: "unit sys \<Rightarrow> syscall list \<Rightarrow> bool" where
  "succeeds m p = (\<forall>tr. m tr = (tr @ p, Inr ()))"

lemma succeeds_return [intro]: "succeeds (sys_return ()) []"
  by (simp add: succeeds_def sys_return_def)

lemma succeeds_call: "(\<And>tr. k tr c = None) \<Longrightarrow> succeeds (sys_call k c msg) [c]"
  by (simp add: succeeds_def sys_call_def)

lemma succeeds_try [intro]: "succeeds (sys_try k c) [c]"
  by (simp add: succeeds_def sys_try_def)

lemma succeeds_bind: "succeeds m p \<Longrightarrow> succeeds (f ()) q \<Longrightarrow> succeeds (sys_bind m f) (p @ q)"
  by (simp add: succeeds_def sys_bind_def)

lemma succeeds_for:
  "(\<And>x. x \<in> set xs \<Longrightarrow> succeeds (f x) (p x)) \<Longrightarrow> succeeds (sys_for f xs) (concat (map p xs))"
  by (induction xs) (auto intro: succeeds_bind)

lemma succeeds_drop_bounding_set:
  "succeeds (drop_bounding_set k keep) (map PrCapbsetDrop (filter (\<lambda>c. c \<notin> set keep) [0..<Suc CAP_LAST]))"
proof -
  let ?p = "\<lambda>c. if c \<in> set keep then [] else [PrCapbsetDrop c]"
  have "succeeds (drop_bounding_set k keep) (concat (map ?p [0..<Suc CAP_LAST]))"
    unfolding drop_bounding_set_def by (rule succeeds_for) auto
  moreover have "concat (map ?p xs) = map PrCapbsetDrop (filter (\<lambda>c. c \<notin> set keep) xs)" for xs
    by (induction xs) auto
  ultimately show ?thesis by metis
qed

lemma succeeds_set_capabilities:
  assumes k: "\<And>tr c. k tr c = None" and caps: "\<forall>c \<in> set caps. c \<le> CAP_LAST"
  shows "succeeds (set_capabilities k caps) (caps_plan caps)"
proof -
  obtain low high where w: "cap_words caps 0 0 = Inr (low, high)"
    using cap_words_ok [of caps] caps by (fastforce simp: CAP_LAST_def)
  have raise: "succeeds (sys_for (\<lambda>c. sys_call k (AmbientRaise c) (msg c)) caps) (map AmbientRaise caps)" for msg
    using succeeds_for [of caps "\<lambda>c. sys_call k (AmbientRaise c) (msg c)" "\<lambda>c. [AmbientRaise c]"]
    by (auto simp: succeeds_call k)
  have plan: "caps_plan caps = [Capset low high] @ [AmbientClearAll] @ map AmbientRaise caps"
    by (simp add: caps_plan_def w)
  show ?thesis
    unfolding set_capabilities_def w sum.case prod.case plan
    by (intro succeeds_bind succeeds_call k raise)
qed

lemma succeeds_apply_groups:
  assumes "\<And>tr c. k tr c = None" "wf_identity i" "\<forall>n. id_username i = Some n \<longrightarrow> CHR 0x00 \<notin> set n"
  shows "succeeds (apply_groups k i) (groups_plan i)"
  using assms by (auto simp: apply_groups_def groups_plan_def wf_identity_def succeeds_call)

lemma succeeds_apply_pre_exec:
  assumes k: "\<And>tr c. k tr c = None" and wf: "wf_identity i"
    and nul: "\<forall>n. id_username i = Some n \<longrightarrow> CHR 0x00 \<notin> set n"
    and cur: "\<not> already_current_without_caps cur i"
  shows "succeeds (apply_pre_exec k cur i) (pre_exec_plan i)"
proof -
  have noop: "\<not> is_noop i" using wf by (simp add: wf_identity_def)
  then have caps: "id_caps i \<noteq> [] \<or> drops_identity i" by (auto simp: is_noop_def drops_identity_def)
  show ?thesis
    unfolding apply_pre_exec_def pre_exec_plan_def Let_def
    by (simp only: noop cur caps if_True if_False simp_thms)
      (intro succeeds_bind succeeds_drop_bounding_set succeeds_set_capabilities succeeds_call;
       use wf in \<open>auto simp: k nul succeeds_apply_groups wf_identity_def succeeds_call split: option.splits\<close>)
qed

section \<open>Properties\<close>

text \<open>
  A security context that resolves gives a sorted capability list without duplicates, all of them
  numbers the kernel knows, and, when a login name was given, a uid, a gid and a user name; it is
  never an identity with nothing to apply.
\<close>

theorem resolved_identity_wf:
  assumes "resolve db ctx = Inr (Some i)"
  shows "sorted (id_caps i) \<and> distinct (id_caps i) \<and> (\<forall>c \<in> set (id_caps i). c \<le> CAP_LAST)
    \<and> (id_named_user i \<longrightarrow> id_uid i \<noteq> None \<and> id_gid i \<noteq> None \<and> id_username i \<noteq> None)
    \<and> \<not> is_noop i"
  using resolve_wf [OF assms] by (simp add: wf_identity_def)

definition demo_db :: user_db where
  "demo_db =
     \<lparr>user_from_uid = (\<lambda>_. Inr None),
      user_from_name = (\<lambda>n. if n = ''nobody''
         then Inr (Some \<lparr>pw_name = ''nobody'', pw_uid = 65534, pw_gid = 65533, pw_dir = ''/''\<rparr>) else Inr None),
      group_from_name = (\<lambda>_. Inr None), group_name_of_gid = (\<lambda>_. Inr None)\<rparr>"

definition demo_ctx :: security_context where
  "demo_ctx = \<lparr>run_as_user = Some ''nobody'', run_as_group = None,
     capabilities = [''CAP_NET_RAW'', ''cap_net_admin'', ''NET_RAW'', ''bpf'']\<rparr>"

definition demo_identity :: resolved_identity where
  "demo_identity = \<lparr>id_uid = Some 65534, id_gid = Some 65533, id_caps = [12, 13, 39],
     id_home = Some ''/'', id_username = Some ''nobody'', id_named_user = True\<rparr>"

lemma demo_resolve: "resolve demo_db demo_ctx = Inr (Some demo_identity)"
proof -
  have t: "trim ''nobody'' = ''nobody''" by code_simp
  then have "resolve_user demo_db False (Some ''nobody'') =
      Inr (Some 65534, Some 65533, Some ''/'', Some ''nobody'', True)"
    by (simp add: resolve_user_def parse_uint_def demo_db_def is_ascii_digit_def Let_def)
  moreover have "resolve_caps (capabilities demo_ctx) = Inr [13, 12, 13, 39]" by code_simp
  moreover have "remdups_adj (sort [13, 12, 13, 39 :: nat]) = [12, 13, 39]" by code_simp
  ultimately show ?thesis
    using t by (simp add: resolve_def resolve_group_def set_nonblank_def is_noop_def demo_ctx_def
        demo_identity_def Let_def)
qed

theorem resolved_identity_wf_witness: "sorted (id_caps demo_identity) \<and> \<not> is_noop demo_identity"
  using resolved_identity_wf [OF demo_resolve] by blast

text \<open>
  C7: the child makes the calls of the privilege-drop plan in this order and no others: keep
  capabilities, shrink the bounding set, groups, gid, uid, capability sets, no new privileges. It
  stops early only with an error; when it reports success the whole plan was made and the kernel
  accepted every call except possibly a best-effort bounding-set drop.
\<close>

theorem privilege_drop_follows_plan:
  assumes "resolve db ctx = Inr (Some i)" "\<not> already_current_without_caps cur i"
  shows "\<exists>calls r. apply_pre_exec k cur i [] = (calls, r) \<and> prefix calls (pre_exec_plan i)
    \<and> (r = Inr () \<longrightarrow> calls = pre_exec_plan i
         \<and> (\<forall>pre c post. calls = pre @ c # post \<longrightarrow> (\<exists>n. c = PrCapbsetDrop n) \<or> k pre c = None))"
proof -
  have "\<not> is_noop i" using resolve_wf [OF assms(1)] by (simp add: wf_identity_def)
  from runs_apply_pre_exec [OF this assms(2), of k]
  obtain q where "fst (apply_pre_exec k cur i []) = q" "prefix q (pre_exec_plan i)"
      "\<forall>x. snd (apply_pre_exec k cur i []) = Inr x \<longrightarrow>
         q = pre_exec_plan i \<and> all_succeed k [] (pre_exec_plan i)"
    unfolding runs_def by (metis append_Nil)
  then show ?thesis
    by (intro exI [of _ q] exI [of _ "snd (apply_pre_exec k cur i [])"])
      (auto simp: all_succeed_def optional_call_def prod_eq_iff)
qed

theorem privilege_drop_follows_plan_witness:
  "\<exists>calls r. apply_pre_exec (\<lambda>_ _. None) (0, 0) demo_identity [] = (calls, r)
     \<and> prefix calls (pre_exec_plan demo_identity)"
proof -
  have "\<not> already_current_without_caps (0, 0) demo_identity"
    by (simp add: already_current_without_caps_def demo_identity_def)
  from privilege_drop_follows_plan [OF demo_resolve this] show ?thesis by blast
qed

text \<open>
  When the kernel accepts every call and the user name has no NUL byte, the privilege drop of a
  resolved identity succeeds and makes the whole plan.
\<close>

theorem privilege_drop_completes:
  assumes "resolve db ctx = Inr (Some i)" "\<not> already_current_without_caps cur i"
    and "\<And>tr c. k tr c = None" "\<forall>n. id_username i = Some n \<longrightarrow> CHR 0x00 \<notin> set n"
  shows "apply_pre_exec k cur i [] = (pre_exec_plan i, Inr ())"
  using succeeds_apply_pre_exec [OF assms(3) resolve_wf [OF assms(1)] assms(4) assms(2)]
  by (simp add: succeeds_def)

theorem privilege_drop_completes_witness:
  "apply_pre_exec (\<lambda>_ _. None) (0, 0) demo_identity [] = (pre_exec_plan demo_identity, Inr ())"
  by (rule privilege_drop_completes [OF demo_resolve])
    (simp_all add: already_current_without_caps_def demo_identity_def)

text \<open>
  The two 32-bit words handed to \<open>capset\<close> hold exactly the resolved capabilities: bit \<open>n\<close> of the low
  word is capability \<open>n\<close>, bit \<open>n\<close> of the high word capability \<open>n + 32\<close>.
\<close>

theorem capability_words_exact:
  assumes "resolve db ctx = Inr (Some i)"
  shows "\<exists>low high. cap_words (id_caps i) 0 0 = Inr (low, high)
    \<and> (\<forall>n < 32. (bit low n \<longleftrightarrow> n \<in> set (id_caps i)) \<and> (bit high n \<longleftrightarrow> n + 32 \<in> set (id_caps i)))"
proof -
  have "\<forall>c \<in> set (id_caps i). c < 64"
    using resolve_wf [OF assms] by (auto simp: wf_identity_def CAP_LAST_def)
  then obtain low high where "cap_words (id_caps i) 0 0 = Inr (low, high)"
    using cap_words_ok by blast
  then show ?thesis using cap_words_bits by (metis bit_0_eq bot_apply bot_bool_def)
qed

theorem capability_words_exact_witness:
  "\<exists>low high. cap_words [12, 13, 39] 0 0 = Inr (low, high) \<and> bit low 12 \<and> bit high 7 \<and> \<not> bit low 7"
  using capability_words_exact [OF demo_resolve] by (auto simp: demo_identity_def)

end
