(* ===== verification/Config.thy ===== *)
theory Config
  imports Security
begin

text \<open>
  The configuration model of \<open>src/src/config.rs\<close>: the structures of \<open>microinit.json\<close> with their
  default values, \<open>Config::validate\<close>, the commands a service resolves to, \<open>socketAllowUsers\<close> and the
  enabled override. \<open>dd\<close> stands for \<open>datadir::path\<close> of the crate \<open>bigfred_shared_daemon\<close>, \<open>db\<close> for the
  passwd and group databases. The build modelled is the Linux one; the Android variant of
  \<open>validate\<close> refuses every \<open>securityContext\<close>.
\<close>

section \<open>Paths\<close>

type_synonym path = string
type_synonym data_dir = "string list \<Rightarrow> path"

definition DEFAULT_SOCKET :: path where "DEFAULT_SOCKET = ''/data/run/microinit.sock''"
definition DEFAULT_CONSOLE :: path where "DEFAULT_CONSOLE = ''/dev/tty1''"
definition DEFAULT_LOGS_TTY :: path where "DEFAULT_LOGS_TTY = ''/dev/tty2''"
definition DEFAULT_INIT_LOGS_TTY :: path where "DEFAULT_INIT_LOGS_TTY = ''/dev/tty3''"
definition DEFAULT_LOG_LINES :: nat where "DEFAULT_LOG_LINES = 300"
definition DEFAULT_EARLY_BOOT :: path where "DEFAULT_EARLY_BOOT = ''/etc/microinit/early-boot.sh''"
definition DEFAULT_UNMOUNT :: path where "DEFAULT_UNMOUNT = ''/etc/microinit/unmount.sh''"
definition DEFAULT_EARLY_BOOT_LOGS_PATH :: path where
  "DEFAULT_EARLY_BOOT_LOGS_PATH = ''/var/log/early-boot.log''"
definition IMAGE_ENV_PATH :: path where "IMAGE_ENV_PATH = ''/etc/microinit/microinit.env''"

definition default_config_path :: "data_dir \<Rightarrow> path" where
  "default_config_path dd = dd [''etc'', ''microinit.json'']"

definition default_socket_path :: "data_dir \<Rightarrow> path" where
  "default_socket_path dd = dd [''run'', ''microinit.sock'']"

definition default_example_path :: "data_dir \<Rightarrow> path" where
  "default_example_path dd = dd [''etc'', ''microinit.json.example'']"

definition default_override_path :: "data_dir \<Rightarrow> path" where
  "default_override_path dd = dd [''etc'', ''microinit.services.enabled-override.json'']"

definition default_dropins_dir :: "data_dir \<Rightarrow> path" where
  "default_dropins_dir dd = dd [''etc'', ''microinit.d'', ''services'']"

definition default_early_boot_override_path :: "data_dir \<Rightarrow> path" where
  "default_early_boot_override_path dd = dd [''etc'', ''microinit'', ''early-boot.sh'']"

definition default_unmount_override_path :: "data_dir \<Rightarrow> path" where
  "default_unmount_override_path dd = dd [''etc'', ''microinit'', ''unmount.sh'']"

definition default_logs_dir :: "data_dir \<Rightarrow> path" where
  "default_logs_dir dd = dd [''logs'']"

text \<open>\<open>envfile::default_paths\<close>: the image file, then the data file.\<close>

definition default_env_file :: "data_dir \<Rightarrow> path list" where
  "default_env_file dd = [IMAGE_ENV_PATH, dd [''etc'', ''microinit.env'']]"

text \<open>\<open>Path::is_absolute\<close> on Unix.\<close>

definition is_absolute :: "path \<Rightarrow> bool" where
  "is_absolute p = starts_with ''/'' p"

section \<open>Sections of the configuration\<close>

record logs_config =
  lg_tty :: path
  lg_init_tty :: path
  lg_lines :: nat
  lg_dir :: "path option"
  lg_to_files :: bool

definition default_logs_config :: "data_dir \<Rightarrow> logs_config" where
  "default_logs_config dd =
     \<lparr>lg_tty = DEFAULT_LOGS_TTY, lg_init_tty = DEFAULT_INIT_LOGS_TTY, lg_lines = DEFAULT_LOG_LINES,
      lg_dir = Some (default_logs_dir dd), lg_to_files = False\<rparr>"

definition effective_log_dir :: "logs_config \<Rightarrow> path option" where
  "effective_log_dir c = (if \<not> lg_to_files c then None else lg_dir c)"

record early_boot_config =
  eb_capture_logs :: bool
  eb_logs_path :: path

definition default_early_boot_config :: early_boot_config where
  "default_early_boot_config = \<lparr>eb_capture_logs = False, eb_logs_path = DEFAULT_EARLY_BOOT_LOGS_PATH\<rparr>"

record liveness_probe =
  lp_cmd :: "string option"
  lp_http_url :: "string option"
  lp_tcp_addr :: "string option"
  lp_success_exit_codes :: "i32 list"
  lp_http_accepted_codes :: "u16 list"
  lp_http_method :: string
  lp_interval :: u64
  lp_timeout :: u64
  lp_failure_threshold :: u32

definition probe_is_success :: "liveness_probe \<Rightarrow> i32 \<Rightarrow> bool" where
  "probe_is_success p code = (code \<in> set (lp_success_exit_codes p))"

definition non_empty :: "string option \<Rightarrow> bool" where
  "non_empty opt = (case opt of None \<Rightarrow> False | Some s \<Rightarrow> trim s \<noteq> [])"

definition kind_count :: "liveness_probe \<Rightarrow> nat" where
  "kind_count p = of_bool (non_empty (lp_cmd p)) + of_bool (non_empty (lp_http_url p))
     + of_bool (non_empty (lp_tcp_addr p))"

datatype restart_policy = Always | OnError | NeverRestart

definition should_restart :: "restart_policy \<Rightarrow> bool \<Rightarrow> bool" where
  "should_restart p success =
     (case p of Always \<Rightarrow> True | OnError \<Rightarrow> \<not> success | NeverRestart \<Rightarrow> False)"

definition requires_daemon :: "restart_policy \<Rightarrow> bool" where
  "requires_daemon p = (p \<noteq> NeverRestart)"

record service_config =
  sc_name :: string
  sc_enabled :: bool
  sc_daemon :: bool
  sc_restart_policy :: restart_policy
  sc_restart_backoff :: u64
  sc_success_exit_codes :: "i32 list"
  sc_start_wait_secs :: u64
  sc_shutdown_wait_secs :: u64
  sc_background :: bool
  sc_order_priority :: u64
  sc_depends_on :: "string list"
  sc_cmd :: "string option"
  sc_start_cmd :: "string option"
  sc_stop_cmd :: "string option"
  sc_restart_cmd :: "string option"
  sc_env :: "(string, string) omap"
  sc_cwd :: path
  sc_liveness_probe :: "liveness_probe option"
  sc_labels :: "(string, string) omap"
  sc_security_context :: "security_context option"
  sc_resolved_security :: "resolved_identity option"

record open_telemetry_config =
  ot_enable :: bool
  ot_endpoint :: string
  ot_protocol :: string
  ot_service_name :: string
  ot_export_interval_secs :: u64
  ot_headers :: "(string, string) omap"

definition default_open_telemetry_config :: open_telemetry_config where
  "default_open_telemetry_config =
     \<lparr>ot_enable = False, ot_endpoint = ''http://127.0.0.1:4318'', ot_protocol = ''http'',
      ot_service_name = ''microinit'', ot_export_interval_secs = 15, ot_headers = []\<rparr>"

record config =
  cfg_version :: u32
  cfg_logs :: logs_config
  cfg_early_boot :: early_boot_config
  cfg_socket :: path
  cfg_console :: path
  cfg_socket_allow_users :: "string list"
  cfg_open_telemetry :: open_telemetry_config
  cfg_env_file :: "path list"
  cfg_services :: "service_config list"

definition default_config :: "data_dir \<Rightarrow> config" where
  "default_config dd =
     \<lparr>cfg_version = 1, cfg_logs = default_logs_config dd, cfg_early_boot = default_early_boot_config,
      cfg_socket = default_socket_path dd, cfg_console = DEFAULT_CONSOLE, cfg_socket_allow_users = [],
      cfg_open_telemetry = default_open_telemetry_config, cfg_env_file = default_env_file dd,
      cfg_services = []\<rparr>"

text \<open>The values \<open>serde\<close> gives the fields of a service that only has a name.\<close>

definition default_service_config :: "string \<Rightarrow> service_config" where
  "default_service_config name =
     \<lparr>sc_name = name, sc_enabled = True, sc_daemon = True, sc_restart_policy = OnError,
      sc_restart_backoff = 2, sc_success_exit_codes = [0], sc_start_wait_secs = 0,
      sc_shutdown_wait_secs = 5, sc_background = False, sc_order_priority = 100,
      sc_depends_on = [], sc_cmd = None, sc_start_cmd = None, sc_stop_cmd = None,
      sc_restart_cmd = None, sc_env = [], sc_cwd = ''/'', sc_liveness_probe = None,
      sc_labels = [], sc_security_context = None, sc_resolved_security = None\<rparr>"

section \<open>Labels of a service\<close>

definition LABEL_KEY_MAX :: nat where "LABEL_KEY_MAX = 63"
definition LABEL_VALUE_MAX :: nat where "LABEL_VALUE_MAX = 253"

definition is_valid_label_key :: "string \<Rightarrow> bool" where
  "is_valid_label_key key =
     (case key of
        [] \<Rightarrow> False
      | c # cs \<Rightarrow> is_ascii_alphanumeric c
          \<and> list_all (\<lambda>c. is_ascii_alphanumeric c \<or> c = CHR ''.'' \<or> c = CHR ''_'' \<or> c = CHR ''-'') cs)"

abbreviation svc_err :: "string \<Rightarrow> string \<Rightarrow> error" where
  "svc_err service m \<equiv> ErrConfig (''service '' @ quoted service @ '': '' @ m)"

definition validate_label :: "string \<Rightarrow> string \<times> string \<Rightarrow> unit res" where
  "validate_label service = (\<lambda>(key, value).
     res_bind (reject (key = []) (svc_err service ''label key must not be empty'')) (\<lambda>_.
     res_bind (reject (length key > LABEL_KEY_MAX)
       (svc_err service (''label key '' @ quoted key @ '' exceeds '' @ nat_str LABEL_KEY_MAX
          @ '' characters''))) (\<lambda>_.
     res_bind (reject (\<not> is_valid_label_key key)
       (svc_err service (''invalid label key '' @ quoted key
          @ '' (want [A-Za-z0-9][A-Za-z0-9._-]*)''))) (\<lambda>_.
     res_bind (reject (value = [])
       (svc_err service (''label '' @ quoted key @ '' value must not be empty''))) (\<lambda>_.
     reject (length value > LABEL_VALUE_MAX)
       (svc_err service (''label '' @ quoted key @ '' value exceeds '' @ nat_str LABEL_VALUE_MAX
          @ '' characters'')))))))"

definition validate_labels :: "string \<Rightarrow> (string, string) omap \<Rightarrow> unit res" where
  "validate_labels service labels = res_for (validate_label service) labels"

section \<open>Commands of a service\<close>

definition resolve_start :: "service_config \<Rightarrow> string res" where
  "resolve_start s =
     (case sc_start_cmd s of
        Some c \<Rightarrow> Inr c
      | None \<Rightarrow> (case sc_cmd s of
          Some c \<Rightarrow> Inr (c @ '' start'')
        | None \<Rightarrow> Inl (ErrService (sc_name s) ''no startCmd or cmd defined'')))"

definition resolve_stop :: "service_config \<Rightarrow> string res" where
  "resolve_stop s =
     (case sc_stop_cmd s of
        Some c \<Rightarrow> Inr c
      | None \<Rightarrow> (case sc_cmd s of
          Some c \<Rightarrow> Inr (c @ '' stop'')
        | None \<Rightarrow> Inl (ErrService (sc_name s) ''no stopCmd or cmd defined'')))"

definition resolve_restart :: "service_config \<Rightarrow> string res" where
  "resolve_restart s =
     (case sc_restart_cmd s of
        Some c \<Rightarrow> Inr c
      | None \<Rightarrow> (case sc_cmd s of
          Some c \<Rightarrow> Inr (c @ '' restart'')
        | None \<Rightarrow> res_bind (resolve_stop s) (\<lambda>stop.
            res_bind (resolve_start s) (\<lambda>start. Inr (stop @ '' && '' @ start)))))"

definition is_success :: "service_config \<Rightarrow> i32 \<Rightarrow> bool" where
  "is_success s code = (code \<in> set (sc_success_exit_codes s))"

section \<open>Validation\<close>

definition validate_early_boot :: "config \<Rightarrow> unit res" where
  "validate_early_boot cfg =
     (if eb_capture_logs (cfg_early_boot cfg) then
        let p = trim (eb_logs_path (cfg_early_boot cfg)) in
        reject (p = [] \<or> \<not> is_absolute p)
          (ErrConfig ''earlyBoot.logsPath must be an absolute path'')
      else Inr ())"

definition validate_probe :: "string \<Rightarrow> liveness_probe \<Rightarrow> unit res" where
  "validate_probe name probe =
     res_bind (reject (kind_count probe \<noteq> 1)
       (svc_err name ''livenessProbe needs exactly one of cmd, httpUrl, tcpAddr'')) (\<lambda>_.
     res_bind (reject (non_empty (lp_cmd probe) \<and> lp_success_exit_codes probe = [])
       (svc_err name ''livenessProbe.successExitCodes must not be empty'')) (\<lambda>_.
     res_bind (if non_empty (lp_http_url probe) then
         res_bind (reject (lp_http_accepted_codes probe = [])
           (svc_err name ''livenessProbe.httpAcceptedCodes must not be empty'')) (\<lambda>_.
         reject (trim (lp_http_method probe) = [])
           (svc_err name ''livenessProbe.httpMethod must not be empty''))
       else Inr ()) (\<lambda>_.
     res_bind (reject (lp_interval probe = 0)
       (svc_err name ''livenessProbe.interval must be >= 1'')) (\<lambda>_.
     res_bind (reject (lp_timeout probe = 0)
       (svc_err name ''livenessProbe.timeout must be >= 1'')) (\<lambda>_.
     reject (lp_failure_threshold probe < 1)
       (svc_err name ''livenessProbe.failureThreshold must be >= 1''))))))"

definition validate_security_context :: "string \<Rightarrow> security_context \<Rightarrow> unit res" where
  "validate_security_context name sec =
     res_bind (case run_as_user sec of
         Some u \<Rightarrow> reject (trim u = []) (svc_err name ''securityContext.runAsUser must not be empty'')
       | None \<Rightarrow> Inr ()) (\<lambda>_.
     res_bind (case run_as_group sec of
         Some g \<Rightarrow> reject (trim g = []) (svc_err name ''securityContext.runAsGroup must not be empty'')
       | None \<Rightarrow> Inr ()) (\<lambda>_.
     res_for (\<lambda>cap. map_err (\<lambda>e. svc_err name (''securityContext.'' @ error_to_string e))
                (validate_cap_name cap))
       (capabilities sec)))"

text \<open>The body of the loop over the services after the name has been checked.\<close>

definition validate_service :: "service_config \<Rightarrow> unit res" where
  "validate_service svc =
     res_bind (reject (sc_restart_policy svc = Always \<and> \<not> sc_daemon svc)
       (svc_err (sc_name svc) ''restartPolicy=always requires daemon=true'')) (\<lambda>_.
     res_bind (reject (sc_start_cmd svc = None \<and> sc_cmd svc = None)
       (svc_err (sc_name svc) ''need startCmd or cmd'')) (\<lambda>_.
     res_bind (case sc_liveness_probe svc of
         Some probe \<Rightarrow> validate_probe (sc_name svc) probe
       | None \<Rightarrow> Inr ()) (\<lambda>_.
     res_bind (validate_labels (sc_name svc) (sc_labels svc)) (\<lambda>_.
     (case sc_security_context svc of
         Some sec \<Rightarrow> validate_security_context (sc_name svc) sec
       | None \<Rightarrow> Inr ())))))"

text \<open>The first loop; \<open>names\<close> holds the names seen so far and is returned for the second loop.\<close>

fun validate_services :: "string list \<Rightarrow> service_config list \<Rightarrow> string list res" where
  "validate_services names [] = Inr names"
| "validate_services names (svc # svcs) =
     res_bind (reject (sc_name svc = []) (ErrConfig ''service with empty name'')) (\<lambda>_.
     res_bind (reject (sc_name svc \<in> set names)
       (ErrConfig (''duplicate service name '' @ quoted (sc_name svc)))) (\<lambda>_.
     res_bind (validate_service svc) (\<lambda>_.
     validate_services (sc_name svc # names) svcs)))"

definition validate_depends_on :: "string list \<Rightarrow> service_config \<Rightarrow> unit res" where
  "validate_depends_on names svc =
     res_for (\<lambda>dep. reject (dep \<notin> set names)
       (svc_err (sc_name svc) (''dependsOn unknown service '' @ quoted dep)))
       (sc_depends_on svc)"

section \<open>Users of the control socket\<close>

text \<open>\<open>ipc::IpcAllow\<close>.\<close>

record ipc_allow =
  al_daemon_uid :: nat
  al_allow_uids :: "nat list"
  al_socket_gid :: "nat option"

text \<open>The loop of \<open>resolved_ipc_allow\<close> with its accumulators \<open>allow_uids\<close> and \<open>socket_gid\<close>.\<close>

fun ipc_allow_loop :: "user_db \<Rightarrow> string list \<Rightarrow> nat list \<Rightarrow> nat option \<Rightarrow> (nat list \<times> nat option) res"
where
  "ipc_allow_loop db [] uids gid = Inr (uids, gid)"
| "ipc_allow_loop db (raw # raws) uids gid =
     (let name = trim raw in
      if name = [] then Inl (ErrConfig ''socketAllowUsers entry must not be empty'')
      else (case user_from_name db name of
              Inl e \<Rightarrow> Inl (ErrConfig (''socketAllowUsers lookup '' @ quoted name @ '': '' @ e))
            | Inr None \<Rightarrow> Inl (ErrConfig (''socketAllowUsers: unknown user '' @ quoted name))
            | Inr (Some u) \<Rightarrow>
                let gid' = (case gid of
                     Some g \<Rightarrow> Some g
                   | None \<Rightarrow> Some (case group_from_name db name of
                        Inr (Some g) \<Rightarrow> g
                      | _ \<Rightarrow> pw_gid u))
                in ipc_allow_loop db raws (uids @ [pw_uid u]) gid'))"

definition resolved_ipc_allow :: "user_db \<Rightarrow> nat \<Rightarrow> config \<Rightarrow> ipc_allow res" where
  "resolved_ipc_allow db uid cfg =
     res_bind (ipc_allow_loop db (cfg_socket_allow_users cfg) [] None) (\<lambda>(uids, gid).
       Inr \<lparr>al_daemon_uid = uid, al_allow_uids = uids, al_socket_gid = gid\<rparr>)"

text \<open>\<open>Config::validate\<close>; \<open>uid\<close> is the daemon's own uid.\<close>

definition validate :: "user_db \<Rightarrow> nat \<Rightarrow> config \<Rightarrow> unit res" where
  "validate db uid cfg =
     res_bind (validate_early_boot cfg) (\<lambda>_.
     res_bind (validate_services [] (cfg_services cfg)) (\<lambda>names.
     res_bind (res_for (validate_depends_on names) (cfg_services cfg)) (\<lambda>_.
     res_bind (resolved_ipc_allow db uid cfg) (\<lambda>_. Inr ()))))"

section \<open>Access and overrides\<close>

definition get :: "config \<Rightarrow> string \<Rightarrow> service_config option" where
  "get cfg name = find (\<lambda>s. sc_name s = name) (cfg_services cfg)"

text \<open>Updating through \<open>get_mut\<close>: the first service of that name changes.\<close>

fun update_first :: "('a \<Rightarrow> bool) \<Rightarrow> ('a \<Rightarrow> 'a) \<Rightarrow> 'a list \<Rightarrow> 'a list" where
  "update_first p f [] = []"
| "update_first p f (x # xs) = (if p x then f x # xs else x # update_first p f xs)"

definition update_service :: "string \<Rightarrow> (service_config \<Rightarrow> service_config) \<Rightarrow> config \<Rightarrow> config" where
  "update_service name f cfg =
     cfg\<lparr>cfg_services := update_first (\<lambda>s. sc_name s = name) f (cfg_services cfg)\<rparr>"

fun prepare_services :: "user_db \<Rightarrow> service_config list \<Rightarrow> service_config list res" where
  "prepare_services db [] = Inr []"
| "prepare_services db (svc # svcs) =
     res_bind (case sc_security_context svc of
         Some ctx \<Rightarrow> resolve db ctx
       | None \<Rightarrow> Inr None) (\<lambda>sec.
     res_bind (prepare_services db svcs) (\<lambda>svcs'.
       Inr (svc\<lparr>sc_resolved_security := sec\<rparr> # svcs')))"

definition prepare_security :: "user_db \<Rightarrow> config \<Rightarrow> config res" where
  "prepare_security db cfg =
     res_bind (prepare_services db (cfg_services cfg)) (\<lambda>svcs. Inr (cfg\<lparr>cfg_services := svcs\<rparr>))"

definition override_service :: "(string, bool) omap \<Rightarrow> service_config \<Rightarrow> service_config" where
  "override_service ov svc =
     (case om_get ov (sc_name svc) of Some e \<Rightarrow> svc\<lparr>sc_enabled := e\<rparr> | None \<Rightarrow> svc)"

definition apply_enabled_override :: "config \<Rightarrow> (string, bool) omap \<Rightarrow> config" where
  "apply_enabled_override cfg ov = cfg\<lparr>cfg_services := map (override_service ov) (cfg_services cfg)\<rparr>"

section \<open>What validation accepts\<close>

text \<open>The declarative reading of the checks, one predicate per structure.\<close>

definition valid_label :: "string \<times> string \<Rightarrow> bool" where
  "valid_label = (\<lambda>(k, v). is_valid_label_key k \<and> length k \<le> LABEL_KEY_MAX
     \<and> v \<noteq> [] \<and> length v \<le> LABEL_VALUE_MAX)"

definition valid_probe :: "liveness_probe \<Rightarrow> bool" where
  "valid_probe p =
     (kind_count p = 1
      \<and> (non_empty (lp_cmd p) \<longrightarrow> lp_success_exit_codes p \<noteq> [])
      \<and> (non_empty (lp_http_url p) \<longrightarrow> lp_http_accepted_codes p \<noteq> [] \<and> trim (lp_http_method p) \<noteq> [])
      \<and> 0 < lp_interval p \<and> 0 < lp_timeout p \<and> 0 < lp_failure_threshold p)"

definition valid_security_context :: "security_context \<Rightarrow> bool" where
  "valid_security_context c =
     ((run_as_user c \<noteq> None \<longrightarrow> set_nonblank (run_as_user c))
      \<and> (run_as_group c \<noteq> None \<longrightarrow> set_nonblank (run_as_group c))
      \<and> (\<forall>cap \<in> set (capabilities c). \<exists>n \<le> CAP_LAST. cap_number (normalize_cap_name cap) = Inr n))"

definition valid_service :: "service_config \<Rightarrow> bool" where
  "valid_service s =
     (sc_name s \<noteq> []
      \<and> (sc_restart_policy s = Always \<longrightarrow> sc_daemon s)
      \<and> (\<exists>c. resolve_start s = Inr c)
      \<and> (\<forall>p. sc_liveness_probe s = Some p \<longrightarrow> valid_probe p)
      \<and> (\<forall>l \<in> set (sc_labels s). valid_label l)
      \<and> (\<forall>c. sc_security_context s = Some c \<longrightarrow> valid_security_context c))"

definition valid_allow_user :: "user_db \<Rightarrow> string \<Rightarrow> bool" where
  "valid_allow_user db raw = (trim raw \<noteq> [] \<and> (\<exists>u. user_from_name db (trim raw) = Inr (Some u)))"

definition valid_config :: "user_db \<Rightarrow> config \<Rightarrow> bool" where
  "valid_config db cfg =
     ((eb_capture_logs (cfg_early_boot cfg) \<longrightarrow> is_absolute (trim (eb_logs_path (cfg_early_boot cfg))))
      \<and> distinct (map sc_name (cfg_services cfg))
      \<and> (\<forall>s \<in> set (cfg_services cfg). valid_service s
            \<and> set (sc_depends_on s) \<subseteq> set (map sc_name (cfg_services cfg)))
      \<and> (\<forall>raw \<in> set (cfg_socket_allow_users cfg). valid_allow_user db raw))"

lemma is_absolute_Nil [simp]: "\<not> is_absolute []"
  by (simp add: is_absolute_def starts_with_def)

lemma validate_label_iff: "validate_label s l = Inr () \<longleftrightarrow> valid_label l"
  by (cases l) (auto simp: validate_label_def valid_label_def res_bind_unit_iff is_valid_label_key_def)

lemma validate_probe_iff: "validate_probe name p = Inr () \<longleftrightarrow> valid_probe p"
  by (auto simp: validate_probe_def valid_probe_def res_bind_unit_iff word_gt_0 word_less_1
        linorder_not_less)

lemma validate_cap_name_bound:
  "validate_cap_name cap = Inr () \<longleftrightarrow> (\<exists>n \<le> CAP_LAST. cap_number (normalize_cap_name cap) = Inr n)"
  using cap_number_bound validate_cap_name_iff by metis

lemma validate_security_context_iff:
  "validate_security_context name c = Inr () \<longleftrightarrow> valid_security_context c"
  by (auto simp: validate_security_context_def valid_security_context_def set_nonblank_def
        res_bind_unit_iff validate_cap_name_bound split: option.splits)

lemma resolve_start_iff: "(\<exists>c. resolve_start s = Inr c) \<longleftrightarrow> sc_start_cmd s \<noteq> None \<or> sc_cmd s \<noteq> None"
  by (auto simp: resolve_start_def split: option.splits)

lemma validate_service_iff:
  "validate_service s = Inr () \<and> sc_name s \<noteq> [] \<longleftrightarrow> valid_service s"
  by (auto simp: validate_service_def valid_service_def res_bind_unit_iff validate_labels_def
        validate_label_iff validate_probe_iff validate_security_context_iff resolve_start_iff
        split: option.splits)

lemma validate_services_iff:
  "validate_services names svcs = Inr names' \<longleftrightarrow>
   names' = rev (map sc_name svcs) @ names \<and> distinct (map sc_name svcs)
   \<and> set (map sc_name svcs) \<inter> set names = {} \<and> (\<forall>s \<in> set svcs. valid_service s)"
proof (induction svcs arbitrary: names)
  case (Cons s svcs)
  have "validate_services names (s # svcs) = Inr names' \<longleftrightarrow>
    valid_service s \<and> sc_name s \<notin> set names
    \<and> validate_services (sc_name s # names) svcs = Inr names'"
    using validate_service_iff [of s] by (auto simp: res_bind_unit_iff)
  then show ?case by (auto simp: Cons.IH)
qed auto

lemma ipc_allow_loop_iff:
  "(\<exists>r. ipc_allow_loop db raws uids gid = Inr r) \<longleftrightarrow> (\<forall>raw \<in> set raws. valid_allow_user db raw)"
  by (induction db raws uids gid rule: ipc_allow_loop.induct)
    (auto simp: valid_allow_user_def Let_def split: sum.splits option.splits)

lemma validate_iff_valid: "validate db uid cfg = Inr () \<longleftrightarrow> valid_config db cfg"
proof -
  have allow: "(\<exists>a. resolved_ipc_allow db uid cfg = Inr a) \<longleftrightarrow>
      (\<forall>raw \<in> set (cfg_socket_allow_users cfg). valid_allow_user db raw)"
    unfolding ipc_allow_loop_iff [of db _ "[]" None, symmetric]
    by (auto simp: resolved_ipc_allow_def res_bind_Inr_iff)
  have "validate db uid cfg = Inr () \<longleftrightarrow>
      validate_early_boot cfg = Inr ()
      \<and> (\<exists>names. validate_services [] (cfg_services cfg) = Inr names
            \<and> (\<forall>s \<in> set (cfg_services cfg). validate_depends_on names s = Inr ()))
      \<and> (\<exists>a. resolved_ipc_allow db uid cfg = Inr a)"
    by (auto simp: validate_def res_bind_Inr_iff)
  also have "\<dots> \<longleftrightarrow> valid_config db cfg"
    unfolding allow validate_services_iff
    by (auto simp: valid_config_def validate_early_boot_def validate_depends_on_def Let_def)
  finally show ?thesis .
qed

section \<open>Users of the control socket, once resolved\<close>

lemma ipc_allow_loop_result:
  assumes "ipc_allow_loop db raws uids gid = Inr (uids', gid')"
  shows "\<exists>us. map (\<lambda>raw. user_from_name db (trim raw)) raws = map (\<lambda>u. Inr (Some u)) us
           \<and> uids' = uids @ map pw_uid us"
    and "gid' = (case gid of Some g \<Rightarrow> Some g | None \<Rightarrow>
           (case raws of [] \<Rightarrow> None | raw # _ \<Rightarrow>
              Some (case group_from_name db (trim raw) of
                 Inr (Some g) \<Rightarrow> g
               | _ \<Rightarrow> (case user_from_name db (trim raw) of Inr (Some u) \<Rightarrow> pw_gid u | _ \<Rightarrow> 0))))"
proof -
  show "\<exists>us. map (\<lambda>raw. user_from_name db (trim raw)) raws = map (\<lambda>u. Inr (Some u)) us
           \<and> uids' = uids @ map pw_uid us"
    using assms
  proof (induction db raws uids gid rule: ipc_allow_loop.induct)
    case (2 db raw raws uids gid)
    from 2(2) obtain u g where u: "user_from_name db (trim raw) = Inr (Some u)" "trim raw \<noteq> []"
        and step: "ipc_allow_loop db raws (uids @ [pw_uid u]) g = Inr (uids', gid')"
        and g: "g = (case gid of Some g \<Rightarrow> Some g | None \<Rightarrow> Some (case group_from_name db (trim raw) of
            Inr (Some g) \<Rightarrow> g | _ \<Rightarrow> pw_gid u))"
      by (auto simp: Let_def split: if_splits sum.splits option.splits)
    from 2(1) [OF refl u(2) u(1) refl] step g
    obtain us where "map (\<lambda>raw. user_from_name db (trim raw)) raws = map (\<lambda>u. Inr (Some u)) us"
        "uids' = (uids @ [pw_uid u]) @ map pw_uid us"
      by (auto split: option.splits)
    then show ?case using u by (intro exI [of _ "u # us"]) simp
  qed simp
  have keep: "snd r = Some g" if "ipc_allow_loop db raws uids (Some g) = Inr r" for raws uids r g
    using that by (induction raws arbitrary: uids)
      (auto simp: Let_def split: if_splits sum.splits option.splits)
  show "gid' = (case gid of Some g \<Rightarrow> Some g | None \<Rightarrow>
           (case raws of [] \<Rightarrow> None | raw # _ \<Rightarrow>
              Some (case group_from_name db (trim raw) of
                 Inr (Some g) \<Rightarrow> g
               | _ \<Rightarrow> (case user_from_name db (trim raw) of Inr (Some u) \<Rightarrow> pw_gid u | _ \<Rightarrow> 0))))"
    using assms by (cases gid; cases raws)
      (auto simp: Let_def dest!: keep split: if_splits sum.splits option.splits)
qed

section \<open>Overrides and security keep a configuration valid\<close>

lemma override_service_fields [frame_simps]:
  "sc_name (override_service ov s) = sc_name s"
  "sc_depends_on (override_service ov s) = sc_depends_on s"
  "sc_background (override_service ov s) = sc_background s"
  "sc_order_priority (override_service ov s) = sc_order_priority s"
  "resolve_start (override_service ov s) = resolve_start s"
  "valid_service (override_service ov s) = valid_service s"
  by (simp_all add: override_service_def valid_service_def resolve_start_def split: option.split)

lemma override_service_enabled:
  "sc_enabled (override_service ov s) = (case om_get ov (sc_name s) of Some e \<Rightarrow> e | None \<Rightarrow> sc_enabled s)"
  by (simp add: override_service_def split: option.split)

lemma apply_enabled_override_names [simp]:
  "map sc_name (cfg_services (apply_enabled_override cfg ov)) = map sc_name (cfg_services cfg)"
  by (simp add: apply_enabled_override_def frame_simps)

lemma apply_enabled_override_valid [inv_intros]:
  "valid_config db (apply_enabled_override cfg ov) = valid_config db cfg"
proof -
  have "sc_name ` override_service ov ` A = sc_name ` A" for A
    by (simp add: image_image frame_simps)
  then show ?thesis
    unfolding valid_config_def
    by (simp add: apply_enabled_override_def frame_simps comp_def)
qed

lemma find_map_keep:
  "(\<And>x. p (f x) = p x) \<Longrightarrow> find p (map f xs) = map_option f (find p xs)"
  by (induction xs) auto

lemma get_apply_enabled_override:
  "get (apply_enabled_override cfg ov) name = map_option (override_service ov) (get cfg name)"
  by (simp add: get_def apply_enabled_override_def find_map_keep frame_simps)

text \<open>\<open>s'\<close> is \<open>s\<close> with its \<open>securityContext\<close> resolved.\<close>

definition prepared :: "user_db \<Rightarrow> service_config \<Rightarrow> service_config \<Rightarrow> bool" where
  "prepared db s s' =
     (\<exists>sec. s' = s\<lparr>sc_resolved_security := sec\<rparr>
        \<and> (case sc_security_context s of None \<Rightarrow> sec = None | Some c \<Rightarrow> resolve db c = Inr sec))"

lemma prepare_services_result:
  "prepare_services db svcs = Inr svcs' \<Longrightarrow> list_all2 (prepared db) svcs svcs'"
proof (induction svcs arbitrary: svcs')
  case (Cons s svcs)
  obtain sec rest where sec: "(case sc_security_context s of Some ctx \<Rightarrow> resolve db ctx | None \<Rightarrow> Inr None) = Inr sec"
      and rest: "prepare_services db svcs = Inr rest"
      and svcs': "svcs' = s\<lparr>sc_resolved_security := sec\<rparr> # rest"
    using Cons.prems by (simp only: prepare_services.simps res_bind_Inr_iff sum.inject) blast
  have "prepared db s (s\<lparr>sc_resolved_security := sec\<rparr>)"
    unfolding prepared_def using sec by (intro exI [of _ sec]) (simp split: option.splits)
  then show ?case using Cons.IH [OF rest] svcs' by simp
qed simp

lemma prepared_fields [frame_simps]:
  assumes "prepared db s s'"
  shows "sc_name s' = sc_name s" "sc_depends_on s' = sc_depends_on s" "sc_enabled s' = sc_enabled s"
    "valid_service s' = valid_service s"
  using assms by (auto simp: prepared_def valid_service_def resolve_start_iff)

lemma prepared_names: "list_all2 (prepared db) xs ys \<Longrightarrow> map sc_name ys = map sc_name xs"
  by (induction rule: list_all2_induct) (simp_all add: frame_simps)

lemma prepared_identity_wf:
  "prepared db s s' \<Longrightarrow> sc_resolved_security s' = Some i \<Longrightarrow> wf_identity i"
  by (auto simp: prepared_def resolve_wf split: option.splits)

lemma get_None_iff: "get cfg name = None \<longleftrightarrow> name \<notin> set (map sc_name (cfg_services cfg))"
  by (auto simp: get_def find_None_iff)

lemma get_SomeD: "get cfg name = Some s \<Longrightarrow> s \<in> set (cfg_services cfg) \<and> sc_name s = name"
  by (auto simp: get_def find_Some_iff)

lemma get_distinct:
  "distinct (map sc_name (cfg_services cfg)) \<Longrightarrow>
   get cfg name = Some s \<longleftrightarrow> s \<in> set (cfg_services cfg) \<and> sc_name s = name"
proof
  assume d: "distinct (map sc_name (cfg_services cfg))"
    and s: "s \<in> set (cfg_services cfg) \<and> sc_name s = name"
  then obtain t where t: "get cfg name = Some t"
    using get_None_iff [of cfg name] by (cases "get cfg name") auto
  then have "t = s"
    using get_SomeD [OF t] s d by (metis distinct_map inj_onD)
  then show "get cfg name = Some s" using t by simp
qed (rule get_SomeD)

lemma update_first_other: "(\<And>x. p x \<Longrightarrow> \<not> q x) \<Longrightarrow> (\<And>x. p x \<Longrightarrow> \<not> q (f x)) \<Longrightarrow>
   find q (update_first p f xs) = find q xs"
  by (induction xs) auto

lemma update_first_same: "(\<And>x. p x \<Longrightarrow> p (f x)) \<Longrightarrow>
   find p (update_first p f xs) = map_option f (find p xs)"
  by (induction xs) auto

lemma map_update_first: "(\<And>x. p x \<Longrightarrow> g (f x) = g x) \<Longrightarrow> map g (update_first p f xs) = map g xs"
  by (induction xs) auto

lemma get_update_service:
  assumes "\<And>s. sc_name (f s) = sc_name s"
  shows "get (update_service name f cfg) n =
     (if n = name then map_option f (get cfg n) else get cfg n)"
  using assms by (auto simp: get_def update_service_def update_first_same update_first_other)

lemma update_service_names [simp]:
  "(\<And>s. sc_name (f s) = sc_name s) \<Longrightarrow>
   map sc_name (cfg_services (update_service name f cfg)) = map sc_name (cfg_services cfg)"
  by (simp add: update_service_def map_update_first)

lemma prepared_config_valid:
  assumes "valid_config db cfg" "prepare_security db cfg = Inr cfg'"
  shows "valid_config db cfg' \<and> map sc_name (cfg_services cfg') = map sc_name (cfg_services cfg)
    \<and> (\<forall>s \<in> set (cfg_services cfg'). \<forall>i. sc_resolved_security s = Some i \<longrightarrow> wf_identity i)"
proof -
  obtain svcs where svcs: "prepare_services db (cfg_services cfg) = Inr svcs"
      and cfg': "cfg' = cfg\<lparr>cfg_services := svcs\<rparr>"
    using assms(2) unfolding prepare_security_def res_bind_Inr_iff sum.inject by blast
  have p: "list_all2 (prepared db) (cfg_services cfg) svcs" using prepare_services_result [OF svcs] .
  have names: "map sc_name svcs = map sc_name (cfg_services cfg)" using prepared_names [OF p] .
  have orig: "\<exists>s \<in> set (cfg_services cfg). prepared db s s'" if "s' \<in> set svcs" for s'
    using p that by (metis in_set_conv_nth list_all2_conv_all_nth)
  have "\<forall>s' \<in> set svcs. valid_service s' \<and> set (sc_depends_on s') \<subseteq> set (map sc_name svcs)"
  proof
    fix s'
    assume "s' \<in> set svcs"
    then obtain s where "s \<in> set (cfg_services cfg)" "prepared db s s'" using orig by blast
    then show "valid_service s' \<and> set (sc_depends_on s') \<subseteq> set (map sc_name svcs)"
      using assms(1) prepared_fields [of db s s'] unfolding names valid_config_def by simp
  qed
  then have "valid_config db cfg'"
    using assms(1) unfolding valid_config_def cfg' by (simp add: names del: set_map)
  then show ?thesis using names orig prepared_identity_wf unfolding cfg' by fastforce
qed

section \<open>Properties\<close>

text \<open>
  C8: \<open>Config::validate\<close> accepts a configuration exactly when it is valid: an absolute early-boot log path
  if capture is on, distinct non-empty service names, dependencies that name configured services,
  a start command, a well-formed probe, labels and security context for every service, and known
  users in \<open>socketAllowUsers\<close>.
\<close>

theorem validate_accepts_exactly_valid: "validate db uid cfg = Inr () \<longleftrightarrow> valid_config db cfg"
  by (rule validate_iff_valid)

text \<open>
  Resolving the security contexts of a valid configuration keeps it valid, keeps every service in
  place, and every identity it caches is well formed.
\<close>

theorem prepare_security_keeps_valid:
  assumes "valid_config db cfg" "prepare_security db cfg = Inr cfg'"
  shows "valid_config db cfg' \<and> map sc_name (cfg_services cfg') = map sc_name (cfg_services cfg)
    \<and> (\<forall>s \<in> set (cfg_services cfg'). \<forall>i. sc_resolved_security s = Some i \<longrightarrow> wf_identity i)"
  using prepared_config_valid [OF assms] .

definition demo_config :: config where
  "demo_config = (default_config (\<lambda>_. ''/d''))\<lparr>cfg_services :=
     [(default_service_config ''ping'')\<lparr>sc_cmd := Some ''/etc/init.d/ping'', sc_security_context := Some demo_ctx\<rparr>]\<rparr>"

lemma demo_ctx_valid: "valid_security_context demo_ctx"
proof -
  have "trim ''nobody'' = ''nobody''" "list_all (\<lambda>c. validate_cap_name c = Inr ()) (capabilities demo_ctx)"
    by code_simp+
  then show ?thesis
    by (simp add: valid_security_context_def validate_cap_name_bound [symmetric] set_nonblank_def
        demo_ctx_def list_all_iff)
qed

lemma demo_config_valid: "valid_config demo_db demo_config"
  by (simp add: valid_config_def demo_config_def default_config_def default_early_boot_config_def
      default_service_config_def valid_service_def resolve_start_def demo_ctx_valid)

lemma demo_config_prepared: "\<exists>cfg'. prepare_security demo_db demo_config = Inr cfg'"
  by (simp add: prepare_security_def demo_config_def demo_resolve default_service_config_def)

theorem prepare_security_keeps_valid_witness:
  "\<exists>cfg'. prepare_security demo_db demo_config = Inr cfg' \<and> valid_config demo_db cfg'"
  using demo_config_prepared prepare_security_keeps_valid [OF demo_config_valid] by blast

text \<open>
  The users of the control socket are resolved in order, each to the uid of its passwd entry, and
  the socket group is that of the first entry: the group of the same name if there is one, else the
  user's primary group. Without entries there is no socket group.
\<close>

theorem ipc_allow_resolved:
  assumes "resolved_ipc_allow db uid cfg = Inr a"
  shows "al_daemon_uid a = uid
    \<and> (\<exists>us. map (\<lambda>raw. user_from_name db (trim raw)) (cfg_socket_allow_users cfg) = map (\<lambda>u. Inr (Some u)) us
        \<and> al_allow_uids a = map pw_uid us
        \<and> al_socket_gid a =
            (case zip (cfg_socket_allow_users cfg) us of
               [] \<Rightarrow> None
             | (raw, u) # _ \<Rightarrow> Some (case group_from_name db (trim raw) of Inr (Some g) \<Rightarrow> g | _ \<Rightarrow> pw_gid u)))"
proof -
  obtain uids gid where loop: "ipc_allow_loop db (cfg_socket_allow_users cfg) [] None = Inr (uids, gid)"
      and a: "a = \<lparr>al_daemon_uid = uid, al_allow_uids = uids, al_socket_gid = gid\<rparr>"
    using assms by (auto simp: resolved_ipc_allow_def res_bind_Inr_iff)
  obtain us where us: "map (\<lambda>raw. user_from_name db (trim raw)) (cfg_socket_allow_users cfg)
        = map (\<lambda>u. Inr (Some u)) us" "uids = map pw_uid us"
    using ipc_allow_loop_result(1) [OF loop] by auto
  have "gid = (case zip (cfg_socket_allow_users cfg) us of [] \<Rightarrow> None
      | (raw, u) # _ \<Rightarrow> Some (case group_from_name db (trim raw) of Inr (Some g) \<Rightarrow> g | _ \<Rightarrow> pw_gid u))"
    using ipc_allow_loop_result(2) [OF loop] us(1)
    by (cases "cfg_socket_allow_users cfg"; cases us) (auto split: sum.splits option.splits)
  then show ?thesis using us a by auto
qed

theorem ipc_allow_resolved_witness:
  "\<exists>a. resolved_ipc_allow demo_db 0 (demo_config\<lparr>cfg_socket_allow_users := ['' nobody'']\<rparr>) = Inr a
     \<and> al_daemon_uid a = 0"
proof -
  have "trim '' nobody'' = ''nobody''" by code_simp
  then have "\<exists>a. resolved_ipc_allow demo_db 0 (demo_config\<lparr>cfg_socket_allow_users := ['' nobody'']\<rparr>) = Inr a"
    by (simp add: resolved_ipc_allow_def demo_db_def Let_def)
  then show ?thesis using ipc_allow_resolved by blast
qed

end
