(* ===== verification/Dotenv.thy ===== *)
theory Dotenv
  imports Config
begin

text \<open>
  The dotenv files: those applied to every supervised process (\<open>src/src/envfile.rs\<close>) and the telemetry
  overlay (\<open>src/src/otelenv.rs\<close>). \<open>read\<close> is \<open>fs::read_to_string\<close>: an error text or the contents. The process
  environment is a finite map.
\<close>

type_synonym file_reader = "path \<Rightarrow> string + string"
type_synonym env_map = "(string, string) omap"

definition is_quote :: "char \<Rightarrow> bool" where
  "is_quote c = (c = CHR 0x22 \<or> c = CHR 0x27)"

section \<open>envfile.rs\<close>

text \<open>One line of \<open>parse\<close>; \<open>None\<close> where the loop continues.\<close>

definition env_line :: "string \<Rightarrow> (string \<times> string) option" where
  "env_line raw =
     (let line = trim raw in
      if line = [] \<or> starts_with ''#'' line then None
      else (case split_once CHR ''='' line of
              None \<Rightarrow> None
            | Some (k, v) \<Rightarrow>
                let key = trim k in
                if key = [] then None else Some (key, trim_matches is_quote (trim v))))"

definition env_parse :: "string \<Rightarrow> env_map" where
  "env_parse text =
     fold (\<lambda>line m. case env_line line of None \<Rightarrow> m | Some (k, v) \<Rightarrow> om_insert k v m) (str_lines text) []"

definition load_file :: "file_reader \<Rightarrow> path \<Rightarrow> env_map \<Rightarrow> env_map" where
  "load_file read p into = (case read p of Inl _ \<Rightarrow> into | Inr data \<Rightarrow> om_insert_all (env_parse data) into)"

definition load_paths :: "file_reader \<Rightarrow> path list \<Rightarrow> env_map" where
  "load_paths read paths = fold (load_file read) paths []"

text \<open>\<open>install\<close> replaces the cache; \<open>load_into_cache\<close> installs what the paths hold.\<close>

definition install :: "env_map \<Rightarrow> env_map \<Rightarrow> env_map" where
  "install m cache = m"

definition load_into_cache :: "file_reader \<Rightarrow> path list \<Rightarrow> env_map \<Rightarrow> env_map" where
  "load_into_cache read paths cache = install (load_paths read paths) cache"

section \<open>otelenv.rs\<close>

definition otel_line :: "string \<Rightarrow> (string \<times> string) option" where
  "otel_line raw =
     (let line = trim raw in
      if line = [] \<or> starts_with ''#'' line then None
      else (case split_once CHR ''='' line of
              None \<Rightarrow> None
            | Some (k, v) \<Rightarrow>
                let key = to_ascii_uppercase (trim k) in
                if key = [] then None else Some (key, trim_matches is_quote (trim v))))"

definition otel_parse :: "string \<Rightarrow> env_map" where
  "otel_parse text =
     fold (\<lambda>line m. case otel_line line of None \<Rightarrow> m | Some (k, v) \<Rightarrow> om_insert k v m) (str_lines text) []"

text \<open>
  \<open>load\<close> into the process environment; \<open>not_found\<close> tells a missing file from other errors. \<open>env::set_var\<close> panics
  when a name or a value holds a NUL byte.
\<close>

fun set_missing :: "(string \<times> string) list \<Rightarrow> env_map \<Rightarrow> env_map res" where
  "set_missing [] penv = Inr penv"
| "set_missing ((k, v) # kvs) penv =
     (if om_contains penv k then set_missing kvs penv
      else if CHR 0x00 \<in> set k \<or> CHR 0x00 \<in> set v then Inl (ErrPanic ''failed to set environment variable'')
      else set_missing kvs (om_insert k v penv))"

definition otel_load :: "(path \<Rightarrow> bool) \<Rightarrow> file_reader \<Rightarrow> path \<Rightarrow> env_map \<Rightarrow> env_map res" where
  "otel_load not_found read p penv =
     (case read p of
        Inl e \<Rightarrow> if not_found p then Inr penv else Inl (ErrOther (''read '' @ p @ '': '' @ e))
      | Inr data \<Rightarrow> set_missing (otel_parse data) penv)"

text \<open>The cache of the file by modification time, \<open>None\<close> when the file has none.\<close>

record file_cache =
  fc_mtime :: "nat option"
  fc_data :: env_map

definition read_file_map :: "(path \<Rightarrow> nat option) \<Rightarrow> file_reader \<Rightarrow> path \<Rightarrow> file_cache \<Rightarrow> file_cache \<times> env_map" where
  "read_file_map mtime_of read p cache =
     (let mtime = mtime_of p in
      if fc_mtime cache = mtime then (cache, fc_data cache)
      else let data = (case read p of Inr s \<Rightarrow> otel_parse s | Inl _ \<Rightarrow> []);
               cache' = \<lparr>fc_mtime = mtime, fc_data = data\<rparr>
           in (cache', data))"

definition lookup :: "env_map \<Rightarrow> env_map \<Rightarrow> string \<Rightarrow> string option" where
  "lookup penv file key = (case om_get penv key of Some v \<Rightarrow> Some v | None \<Rightarrow> om_get file key)"

definition is_truthy :: "string \<Rightarrow> bool" where
  "is_truthy v = (to_ascii_lowercase (trim v) \<in> {''1'', ''true'', ''yes'', ''on''})"

definition normalize_http_endpoint :: "string \<Rightarrow> string" where
  "normalize_http_endpoint raw =
     (let s = trim raw in
      if starts_with ''http://'' s \<or> starts_with ''https://'' s then s
      else (case rsplit_once CHR '':'' s of
              Some (host, port) \<Rightarrow>
                if port = ''4317'' then ''http://'' @ host @ '':4318'' else ''http://'' @ s
            | None \<Rightarrow> ''http://'' @ s))"

definition parse_header :: "string \<Rightarrow> (string \<times> string) option" where
  "parse_header raw =
     (let part = trim raw in
      if part = [] then None
      else (case split_once CHR ''='' part of
              None \<Rightarrow> None
            | Some (k, v) \<Rightarrow> let k' = trim k in if k' = [] then None else Some (k', trim v)))"

definition parse_headers :: "string \<Rightarrow> env_map" where
  "parse_headers raw =
     fold (\<lambda>part m. case parse_header part of None \<Rightarrow> m | Some (k, v) \<Rightarrow> om_insert k v m) (split_char CHR '','' raw) []"

text \<open>The overlay, one assignment of the source per definition.\<close>

definition overlay_enable :: "env_map \<Rightarrow> env_map \<Rightarrow> open_telemetry_config \<Rightarrow> open_telemetry_config" where
  "overlay_enable penv file cfg =
     (let cfg1 = (case lookup penv file ''ENABLE_TELEMETRY'' of
            Some v \<Rightarrow> cfg\<lparr>ot_enable := is_truthy v\<rparr> | None \<Rightarrow> cfg)
      in case lookup penv file ''OTEL_SDK_DISABLED'' of
           Some v \<Rightarrow> if is_truthy v then cfg1\<lparr>ot_enable := False\<rparr> else cfg1
         | None \<Rightarrow> cfg1)"

definition overlay_endpoint :: "env_map \<Rightarrow> env_map \<Rightarrow> open_telemetry_config \<Rightarrow> open_telemetry_config" where
  "overlay_endpoint penv file cfg =
     (case lookup penv file ''OTEL_EXPORTER_OTLP_ENDPOINT'' of
        Some ep \<Rightarrow> if trim ep \<noteq> [] then cfg\<lparr>ot_endpoint := normalize_http_endpoint (trim ep)\<rparr> else cfg
      | None \<Rightarrow> cfg)"

definition overlay_protocol :: "env_map \<Rightarrow> env_map \<Rightarrow> open_telemetry_config \<Rightarrow> open_telemetry_config" where
  "overlay_protocol penv file cfg =
     (case lookup penv file ''OTEL_EXPORTER_OTLP_PROTOCOL'' of
        Some p \<Rightarrow>
          if trim p \<noteq> [] then
            cfg\<lparr>ot_protocol := (if trim p \<in> {''http/protobuf'', ''http/json'', ''http''} then ''http'' else trim p)\<rparr>
          else cfg
      | None \<Rightarrow> cfg)"

definition overlay_service_name :: "env_map \<Rightarrow> env_map \<Rightarrow> open_telemetry_config \<Rightarrow> open_telemetry_config" where
  "overlay_service_name penv file cfg =
     (case lookup penv file ''OTEL_SERVICE_NAME'' of
        Some n \<Rightarrow> if trim n \<noteq> [] then cfg\<lparr>ot_service_name := trim n\<rparr> else cfg
      | None \<Rightarrow> cfg)"

definition overlay_interval :: "env_map \<Rightarrow> env_map \<Rightarrow> open_telemetry_config \<Rightarrow> open_telemetry_config" where
  "overlay_interval penv file cfg =
     (case lookup penv file ''OTEL_METRIC_EXPORT_INTERVAL'' of
        Some ms \<Rightarrow> (case parse_uint 64 (trim ms) of
            Some n \<Rightarrow> cfg\<lparr>ot_export_interval_secs := of_nat (max (n div 1000) 1)\<rparr>
          | None \<Rightarrow> cfg)
      | None \<Rightarrow> cfg)"

definition overlay_headers :: "env_map \<Rightarrow> env_map \<Rightarrow> open_telemetry_config \<Rightarrow> open_telemetry_config" where
  "overlay_headers penv file cfg =
     (case lookup penv file ''OTEL_EXPORTER_OTLP_HEADERS'' of
        Some h \<Rightarrow> let parsed = parse_headers h in if parsed \<noteq> [] then cfg\<lparr>ot_headers := parsed\<rparr> else cfg
      | None \<Rightarrow> cfg)"

definition overlay_config :: "env_map \<Rightarrow> env_map \<Rightarrow> open_telemetry_config \<Rightarrow> open_telemetry_config" where
  "overlay_config penv file base =
     overlay_headers penv file (overlay_interval penv file (overlay_service_name penv file
       (overlay_protocol penv file (overlay_endpoint penv file (overlay_enable penv file base)))))"

section \<open>Last line wins\<close>

text \<open>
  Both parsers read line by line and let a later line for the same key win. The locale states what
  they share: a reader of one line and a fold of its entries.
\<close>

definition entries :: "(string \<Rightarrow> (string \<times> string) option) \<Rightarrow> string \<Rightarrow> (string \<times> string) list" where
  "entries line_of text = List.map_filter line_of (str_lines text)"

locale dotenv =
  fixes line_of :: "string \<Rightarrow> (string \<times> string) option" and parse :: "string \<Rightarrow> env_map"
    and norm :: "string \<Rightarrow> string"
  assumes parse_entries: "parse text = om_of_list (entries line_of text)"
    and line_key: "line_of l = Some (k, v) \<Longrightarrow> k \<noteq> [] \<and> norm k = k \<and> CHR ''='' \<notin> set k"
begin

lemma parse_wf: "om_wf (parse text)"
  by (simp add: parse_entries)

lemma parse_get: "om_get (parse text) k = map_of (rev (entries line_of text)) k"
  by (simp add: parse_entries om_get_of_list)

lemma parse_key: "om_get (parse text) k = Some v \<Longrightarrow> k \<noteq> [] \<and> norm k = k \<and> CHR ''='' \<notin> set k"
proof -
  assume "om_get (parse text) k = Some v"
  then have "(k, v) \<in> set (rev (entries line_of text))" using map_of_SomeD by (metis parse_get)
  then obtain l where "line_of l = Some (k, v)"
    by (auto simp: entries_def List.map_filter_def)
  then show ?thesis by (rule line_key)
qed

text \<open>A key gets the value of the last line that names it.\<close>

lemma parse_last:
  assumes "str_lines text = pre @ l # post" "line_of l = Some (k, v)"
    and "\<forall>m \<in> set post. \<forall>w. line_of m \<noteq> Some (k, w)"
  shows "om_get (parse text) k = Some v"
proof -
  have e: "entries line_of text = List.map_filter line_of pre @ (k, v) # List.map_filter line_of post"
    using assms(1,2) by (simp add: entries_def List.map_filter_def)
  have "map_of (rev (List.map_filter line_of post)) k = None"
    using assms(3) by (auto simp: map_of_eq_None_iff List.map_filter_def)
  then show ?thesis by (simp add: parse_get e map_add_def)
qed

end

lemma fold_entries:
  "fold (\<lambda>line m. case f line of None \<Rightarrow> m | Some (k, v) \<Rightarrow> om_insert k v m) ls m =
   om_insert_all (List.map_filter f ls) m"
  by (induction ls arbitrary: m) (auto simp: List.map_filter_simps split: option.splits)

lemma split_key_no_sep: "split_once c s = Some (k, v) \<Longrightarrow> c \<notin> set (trim k)"
  using set_trim by (auto simp: split_once_Some)

lemma upper_eq_sign: "CHR ''='' \<in> set (to_ascii_uppercase s) \<Longrightarrow> CHR ''='' \<in> set s"
proof -
  assume "CHR ''='' \<in> set (to_ascii_uppercase s)"
  then obtain c where c: "c \<in> set s" "ascii_upper_char c = CHR ''=''"
    by (auto simp: to_ascii_uppercase_def)
  have "\<not> is_ascii_lower c"
  proof
    assume l: "is_ascii_lower c"
    then have "97 \<le> (of_char c :: nat)" "(of_char c :: nat) \<le> 122"
      by (simp_all add: is_ascii_lower_def less_eq_char_def)
    moreover have "(of_char (ascii_upper_char c) :: nat) = of_char c - 32"
      using l calculation by (simp add: ascii_upper_char_def)
    ultimately show False using c(2) by simp
  qed
  then show ?thesis using c by (simp add: ascii_upper_char_def)
qed

interpretation env: dotenv env_line env_parse id
proof unfold_locales
  show "env_parse t = om_of_list (entries env_line t)" for t
    by (simp add: env_parse_def fold_entries om_of_list_def entries_def)
  show "env_line l = Some (k, v) \<Longrightarrow> k \<noteq> [] \<and> id k = k \<and> CHR ''='' \<notin> set k" for l k v
    by (auto simp: env_line_def Let_def dest: split_key_no_sep split: if_splits option.splits)
qed

interpretation otel: dotenv otel_line otel_parse to_ascii_uppercase
proof unfold_locales
  show "otel_parse t = om_of_list (entries otel_line t)" for t
    by (simp add: otel_parse_def fold_entries om_of_list_def entries_def)
  show "otel_line l = Some (k, v) \<Longrightarrow> k \<noteq> [] \<and> to_ascii_uppercase k = k \<and> CHR ''='' \<notin> set k" for l k v
    by (auto simp: otel_line_def Let_def dest!: upper_eq_sign split_key_no_sep split: if_splits option.splits)
qed

section \<open>Layers of files\<close>

lemma load_file_get:
  "om_get (load_file read p m) k =
     (case read p of
        Inl _ \<Rightarrow> om_get m k
      | Inr d \<Rightarrow> (case om_get (env_parse d) k of Some v \<Rightarrow> Some v | None \<Rightarrow> om_get m k))"
proof (cases "read p")
  case (Inr d)
  have "distinct (map fst (env_parse d))" using env.parse_wf om_wf_distinct by blast
  then have "map_of (rev (env_parse d)) k = om_get (env_parse d) k"
    by (metis map_of_eq_Some_iff map_of_eq_None_iff distinct_rev rev_map set_rev option.exhaust)
  then show ?thesis using Inr by (simp add: load_file_def om_get_insert_all split: option.split)
qed (simp add: load_file_def)

lemma load_file_wf [inv_intros]: "om_wf m \<Longrightarrow> om_wf (load_file read p m)"
  by (simp add: load_file_def split: sum.split)

lemma load_paths_snoc: "load_paths read (ps @ [p]) = load_file read p (load_paths read ps)"
  by (simp add: load_paths_def)

lemma load_paths_wf [inv_intros]: "om_wf (load_paths read ps)"
  by (induction ps rule: rev_induct) (simp_all add: load_paths_snoc inv_intros, simp add: load_paths_def)

text \<open>The value a key has in the layered files: that of the last readable file that names it.\<close>

definition layered :: "file_reader \<Rightarrow> path list \<Rightarrow> string \<Rightarrow> string option" where
  "layered read ps k =
     (case List.map_filter (\<lambda>p. case read p of Inl _ \<Rightarrow> None | Inr d \<Rightarrow> om_get (env_parse d) k) (rev ps) of
        v # _ \<Rightarrow> Some v
      | [] \<Rightarrow> None)"

lemma load_paths_layered: "om_get (load_paths read ps) k = layered read ps k"
proof (induction ps rule: rev_induct)
  case Nil
  then show ?case by (simp add: load_paths_def layered_def List.map_filter_simps)
next
  case (snoc p ps)
  then show ?case
    by (simp add: load_paths_snoc load_file_get layered_def List.map_filter_simps split: sum.split option.split)
qed

section \<open>Overlay\<close>

lemma overlay_frames [frame_simps]:
  "ot_enable (overlay_headers penv file c) = ot_enable c"
  "ot_enable (overlay_interval penv file c) = ot_enable c"
  "ot_enable (overlay_service_name penv file c) = ot_enable c"
  "ot_enable (overlay_protocol penv file c) = ot_enable c"
  "ot_enable (overlay_endpoint penv file c) = ot_enable c"
  "ot_endpoint (overlay_headers penv file c) = ot_endpoint c"
  "ot_endpoint (overlay_interval penv file c) = ot_endpoint c"
  "ot_endpoint (overlay_service_name penv file c) = ot_endpoint c"
  "ot_endpoint (overlay_protocol penv file c) = ot_endpoint c"
  "ot_endpoint (overlay_enable penv file c) = ot_endpoint c"
  "ot_export_interval_secs (overlay_headers penv file c) = ot_export_interval_secs c"
  "ot_export_interval_secs (overlay_service_name penv file c) = ot_export_interval_secs c"
  "ot_export_interval_secs (overlay_protocol penv file c) = ot_export_interval_secs c"
  "ot_export_interval_secs (overlay_endpoint penv file c) = ot_export_interval_secs c"
  "ot_export_interval_secs (overlay_enable penv file c) = ot_export_interval_secs c"
  by (simp_all add: overlay_headers_def overlay_interval_def overlay_service_name_def overlay_protocol_def
      overlay_endpoint_def overlay_enable_def Let_def split: option.split)

lemma starts_with_http [simp]: "starts_with ''http://'' (''http://'' @ s)"
  by (rule starts_with_append)

lemma normalize_http_endpoint_scheme:
  "starts_with ''http://'' (normalize_http_endpoint raw) \<or> starts_with ''https://'' (normalize_http_endpoint raw)"
  unfolding normalize_http_endpoint_def Let_def
  using starts_with_http by (auto split: option.splits)

section \<open>Properties\<close>

text \<open>
  The environment every supervised process gets from the env files is layered: a key has the value of the
  last listed file that can be read and names it, and within a file that of the last line that names
  it; files that cannot be read change nothing.
\<close>

theorem env_files_layered:
  "om_get (load_into_cache read paths cache) k = layered read paths k"
  by (simp add: load_into_cache_def install_def load_paths_layered)

text \<open>
  Within one env file the last line naming a key wins, and keys keep their case.
\<close>

theorem env_file_last_line_wins:
  assumes "str_lines content = pre @ l # post" "env_line l = Some (k, v)"
    and "\<forall>m \<in> set post. \<forall>w. env_line m \<noteq> Some (k, w)"
  shows "om_get (env_parse content) k = Some v"
  using assms by (rule env.parse_last)

theorem env_file_last_line_wins_witness:
  "om_get (env_parse ''A=1\<newline>A=2\<newline>b=3'') ''A'' = Some ''2''"
proof (rule env_file_last_line_wins)
  show "str_lines ''A=1\<newline>A=2\<newline>b=3'' = [''A=1''] @ ''A=2'' # [''b=3'']" by code_simp
  show "env_line ''A=2'' = Some (''A'', ''2'')" by code_simp
  have "env_line ''b=3'' = Some (''b'', ''3'')" by code_simp
  then show "\<forall>m \<in> set [''b=3'']. \<forall>w. env_line m \<noteq> Some (''A'', w)" by simp
qed

text \<open>
  The telemetry overlay. A truthy \<open>OTEL_SDK_DISABLED\<close>, from the process environment or else from the file,
  always switches telemetry off; otherwise \<open>ENABLE_TELEMETRY\<close> decides, and without it the configuration
  stands.
\<close>

theorem telemetry_switch:
  "ot_enable (overlay_config penv file base) =
     ((case lookup penv file ''ENABLE_TELEMETRY'' of Some v \<Rightarrow> is_truthy v | None \<Rightarrow> ot_enable base)
      \<and> (case lookup penv file ''OTEL_SDK_DISABLED'' of Some v \<Rightarrow> \<not> is_truthy v | None \<Rightarrow> True))"
  by (simp add: overlay_config_def frame_simps overlay_enable_def Let_def split: option.split)

text \<open>
  An endpoint taken from the environment always ends up with a scheme, and an export interval taken from
  it is at least one second and equals the given milliseconds in whole seconds.
\<close>

theorem overlay_endpoint_and_interval:
  assumes "lookup penv file ''OTEL_EXPORTER_OTLP_ENDPOINT'' = Some ep" "trim ep \<noteq> []"
    and "lookup penv file ''OTEL_METRIC_EXPORT_INTERVAL'' = Some ms" "parse_uint 64 (trim ms) = Some n"
  shows "(starts_with ''http://'' (ot_endpoint (overlay_config penv file base))
          \<or> starts_with ''https://'' (ot_endpoint (overlay_config penv file base)))
    \<and> unat (ot_export_interval_secs (overlay_config penv file base)) = max (n div 1000) 1"
proof -
  have "n < 2 ^ 64" using parse_uint_bound [OF assms(4)] .
  then have "max (n div 1000) 1 < 2 ^ LENGTH(64)" by simp
  then have "unat (of_nat (max (n div 1000) 1) :: u64) = max (n div 1000) 1"
    by (simp add: unat_of_nat)
  then show ?thesis
    using assms normalize_http_endpoint_scheme [of "trim ep"]
    by (simp add: overlay_config_def frame_simps overlay_endpoint_def overlay_interval_def)
qed

theorem overlay_endpoint_and_interval_witness:
  "unat (ot_export_interval_secs (overlay_config [(''OTEL_EXPORTER_OTLP_ENDPOINT'', ''h:4317''), (''OTEL_METRIC_EXPORT_INTERVAL'', ''5000'')] []
      default_open_telemetry_config)) = max (5000 div 1000) 1"
proof -
  let ?penv = "[(''OTEL_EXPORTER_OTLP_ENDPOINT'', ''h:4317''), (''OTEL_METRIC_EXPORT_INTERVAL'', ''5000'')]"
  have t: "trim ''h:4317'' = ''h:4317''" "trim ''5000'' = ''5000''" by code_simp+
  have "parse_uint 64 (trim ''5000'') = Some 5000"
    unfolding t by (simp add: parse_uint_def is_ascii_digit_def digits_value_def less_eq_char_def)
  then show ?thesis
    using overlay_endpoint_and_interval [of ?penv "[]" "''h:4317''" "''5000''" 5000 default_open_telemetry_config] t
    by (simp add: lookup_def)
qed

end
