(* ===== verification/Config_Load.thy ===== *)
theory Config_Load
  imports Dotenv
begin

text \<open>
  Loading and saving the configuration (\<open>src/src/config.rs\<close>): drop-ins, the enabled override, the atomic JSON
  writer, \<open>load_or_create\<close> and the early-boot peek. Files are a finite map from paths to contents;
  directories are not represented except for the drop-in tree, which is an argument of its own. The
  system may refuse an operation on a path, which \<open>fault\<close> decides. \<open>json\<close> holds the \<open>serde_json\<close> encoders and
  decoders for the three file formats; a decoder gives an error text or a value.
\<close>

section \<open>Files\<close>

type_synonym files = "(path, string) omap"

datatype file_op = OpRead | OpWrite | OpRename | OpMkdir

type_synonym faults = "file_op \<Rightarrow> path \<Rightarrow> string option"

definition fs_read :: "faults \<Rightarrow> files \<Rightarrow> path \<Rightarrow> string + string" where
  "fs_read fault fs p =
     (case fault OpRead p of
        Some e \<Rightarrow> Inl e
      | None \<Rightarrow> (case om_get fs p of Some c \<Rightarrow> Inr c | None \<Rightarrow> Inl ''No such file or directory (os error 2)''))"

definition fs_write :: "faults \<Rightarrow> path \<Rightarrow> string \<Rightarrow> files \<Rightarrow> files \<times> (string + unit)" where
  "fs_write fault p c fs =
     (case fault OpWrite p of Some e \<Rightarrow> (fs, Inl e) | None \<Rightarrow> (om_insert p c fs, Inr ()))"

definition fs_rename :: "faults \<Rightarrow> path \<Rightarrow> path \<Rightarrow> files \<Rightarrow> files \<times> (string + unit)" where
  "fs_rename fault a b fs =
     (case fault OpRename b of
        Some e \<Rightarrow> (fs, Inl e)
      | None \<Rightarrow> (case om_get fs a of
          None \<Rightarrow> (fs, Inl ''No such file or directory (os error 2)'')
        | Some c \<Rightarrow> (om_insert b c (om_remove a fs), Inr ())))"

text \<open>\<open>Path::parent\<close> and \<open>Path::with_extension\<close> on a path without trailing slash.\<close>

definition path_parent :: "path \<Rightarrow> path option" where
  "path_parent p =
     (if p = [] \<or> p = ''/'' then None
      else Some (case rsplit_once CHR ''/'' p of
             None \<Rightarrow> []
           | Some (d, _) \<Rightarrow> if d = [] then ''/'' else d))"

definition file_stem :: "string \<Rightarrow> string" where
  "file_stem name =
     (case rsplit_once CHR ''.'' name of
        Some (stem, _) \<Rightarrow> if stem = [] then name else stem
      | None \<Rightarrow> name)"

definition file_extension :: "string \<Rightarrow> string option" where
  "file_extension name =
     (case rsplit_once CHR ''.'' name of
        Some (stem, ext) \<Rightarrow> if stem = [] then None else Some ext
      | None \<Rightarrow> None)"

definition with_extension :: "path \<Rightarrow> string \<Rightarrow> path" where
  "with_extension p ext =
     (case rsplit_once CHR ''/'' p of
        None \<Rightarrow> file_stem p @ ''.'' @ ext
      | Some (d, f) \<Rightarrow> d @ ''/'' @ file_stem f @ ''.'' @ ext)"

text \<open>Sequencing of file operations: stop at the first failure, keep what was done.\<close>

definition fs_then :: "files \<times> unit res \<Rightarrow> (files \<Rightarrow> files \<times> 'a res) \<Rightarrow> files \<times> 'a res" where
  "fs_then r f = (case snd r of Inl e \<Rightarrow> (fst r, Inl e) | Inr _ \<Rightarrow> f (fst r))"

definition at_path :: "path \<Rightarrow> files \<times> (string + unit) \<Rightarrow> files \<times> unit res" where
  "at_path p r = (fst r, case snd r of Inl e \<Rightarrow> Inl (ErrIoPath p e) | Inr _ \<Rightarrow> Inr ())"

definition fs_mkdir :: "faults \<Rightarrow> path \<Rightarrow> files \<Rightarrow> files \<times> (string + unit)" where
  "fs_mkdir fault p fs = (fs, case fault OpMkdir p of Some e \<Rightarrow> Inl e | None \<Rightarrow> Inr ())"

definition write_json_atomic :: "faults \<Rightarrow> path \<Rightarrow> string \<Rightarrow> files \<Rightarrow> files \<times> unit res" where
  "write_json_atomic fault p data fs =
     fs_then (case path_parent p of
         Some parent \<Rightarrow> if parent \<noteq> [] then at_path parent (fs_mkdir fault parent fs) else (fs, Inr ())
       | None \<Rightarrow> (fs, Inr ())) (\<lambda>fs0.
     let tmp = with_extension p ''json.tmp'' in
     fs_then (at_path tmp (fs_write fault tmp (data @ [NL]) fs0)) (\<lambda>fs1.
     at_path p (fs_rename fault tmp p fs1)))"

section \<open>Codecs\<close>

record json =
  enc_config :: "config \<Rightarrow> string"
  dec_config :: "string \<Rightarrow> string + config"
  enc_override :: "(string, bool) omap \<Rightarrow> string"
  dec_override :: "string \<Rightarrow> string + (string, bool) omap"
  dec_dropin :: "string \<Rightarrow> string + service_config list"
  dec_peek :: "string \<Rightarrow> string + early_boot_config"

section \<open>Early-boot peek\<close>

datatype early_boot_capture_peek = Absent | PeekDisabled | PeekEnabled path

definition peek_early_boot_capture :: "json \<Rightarrow> faults \<Rightarrow> files \<Rightarrow> path \<Rightarrow> early_boot_capture_peek" where
  "peek_early_boot_capture j fault fs p =
     (if \<not> om_contains fs p then Absent
      else (case fs_read fault fs p of
              Inl _ \<Rightarrow> Absent
            | Inr data \<Rightarrow> (case dec_peek j data of
                Inl _ \<Rightarrow> Absent
              | Inr eb \<Rightarrow>
                  if \<not> eb_capture_logs eb then PeekDisabled
                  else let lp = trim (eb_logs_path eb) in
                       if lp = [] then PeekDisabled else PeekEnabled lp)))"

section \<open>Enabled override\<close>

definition load_override :: "json \<Rightarrow> faults \<Rightarrow> files \<Rightarrow> path \<Rightarrow> (string, bool) omap res" where
  "load_override j fault fs p =
     (if \<not> om_contains fs p then Inr []
      else (case fs_read fault fs p of
              Inl e \<Rightarrow> Inl (ErrIo e)
            | Inr data \<Rightarrow> (case dec_override j data of Inl e \<Rightarrow> Inl (ErrJson e) | Inr m \<Rightarrow> Inr m)))"

definition save_override :: "json \<Rightarrow> faults \<Rightarrow> path \<Rightarrow> (string, bool) omap \<Rightarrow> files \<Rightarrow> files \<times> unit res" where
  "save_override j fault p m fs = write_json_atomic fault p (enc_override j m) fs"

section \<open>Drop-ins\<close>

text \<open>
  A directory entry: a regular file, a directory whose listing may fail, an entry of another type, or
  one whose type cannot be read. \<open>fs::read_dir\<close> gives the entries in an arbitrary order.
\<close>

datatype dirent =
    DFile
  | DDir "string + (string \<times> dirent) list"
  | DOther
  | DError string

type_synonym rel_path = "string list"

text \<open>\<open>walk\<close>; \<open>prefix\<close> is the path below the root, the entries are visited in name order.\<close>

lemma sum_list_insort_key: "sum_list (map f (insort_key k x xs)) = f x + (sum_list (map f xs) :: nat)"
  by (induction xs) auto

lemma sum_list_sort_key: "sum_list (map f (sort_key k xs)) = (sum_list (map f xs) :: nat)"
  by (induction xs) (simp_all add: sum_list_insort_key)

lemma dirents_size: "(\<Sum>(n, d)\<leftarrow>es. Suc (size d)) \<le> size_list (size_prod (\<lambda>_. 0) size) es"
  by (induction es) auto

function walk :: "rel_path \<Rightarrow> (string \<times> dirent) list \<Rightarrow> rel_path list res" where
  "walk pre [] = Inr []"
| "walk pre ((n, d) # es) =
     (case d of
        DError e \<Rightarrow> Inl (ErrIo e)
      | DDir (Inl e) \<Rightarrow> Inl (ErrIo e)
      | DDir (Inr sub) \<Rightarrow>
          res_bind (walk (pre @ [n]) (sort_key fst sub)) (\<lambda>xs.
          res_bind (walk pre es) (\<lambda>ys. Inr (xs @ ys)))
      | DFile \<Rightarrow>
          res_bind (walk pre es) (\<lambda>ys.
            Inr (if file_extension n = Some ''json'' then (pre @ [n]) # ys else ys))
      | DOther \<Rightarrow> walk pre es)"
  by pat_completeness auto
termination
  by (relation "measure (\<lambda>(pre, es). \<Sum>(n, d)\<leftarrow>es. Suc (size d))")
    (simp_all add: sum_list_sort_key trans_le_add1 dirents_size less_Suc_eq_le le_SucI)

definition collect_dropin_rel_paths :: "dirent option \<Rightarrow> rel_path list res" where
  "collect_dropin_rel_paths root =
     (case root of
        Some (DDir (Inl e)) \<Rightarrow> Inl (ErrIo e)
      | Some (DDir (Inr es)) \<Rightarrow> res_bind (walk [] (sort_key fst es)) (\<lambda>out. Inr (sort out))
      | _ \<Rightarrow> Inr [])"

definition join_path :: "path \<Rightarrow> rel_path \<Rightarrow> path" where
  "join_path root rel = root @ ''/'' @ join ''/'' rel"

text \<open>One service of a drop-in: it replaces the service of its name or comes last.\<close>

definition merge_service :: "service_config \<Rightarrow> service_config list \<Rightarrow> service_config list" where
  "merge_service svc svcs =
     (if list_ex (\<lambda>s. sc_name s = sc_name svc) svcs
      then update_first (\<lambda>s. sc_name s = sc_name svc) (\<lambda>_. svc) svcs
      else svcs @ [svc])"

fun merge_files :: "json \<Rightarrow> faults \<Rightarrow> files \<Rightarrow> path \<Rightarrow> rel_path list \<Rightarrow> service_config list \<Rightarrow> service_config list res" where
  "merge_files j fault fs root [] svcs = Inr svcs"
| "merge_files j fault fs root (rel # rels) svcs =
     (let p = join_path root rel in
      case fs_read fault fs p of
        Inl e \<Rightarrow> Inl (ErrIo e)
      | Inr data \<Rightarrow> (case dec_dropin j data of
          Inl e \<Rightarrow> Inl (ErrConfig (''drop-in '' @ p @ '': '' @ e))
        | Inr new \<Rightarrow> merge_files j fault fs root rels (fold merge_service new svcs)))"

definition merge_service_dropins :: "json \<Rightarrow> faults \<Rightarrow> files \<Rightarrow> path \<Rightarrow> dirent option \<Rightarrow> config \<Rightarrow> config res" where
  "merge_service_dropins j fault fs root tree cfg =
     res_bind (collect_dropin_rel_paths tree) (\<lambda>rels.
     res_bind (merge_files j fault fs root rels (cfg_services cfg)) (\<lambda>svcs.
       Inr (cfg\<lparr>cfg_services := svcs\<rparr>)))"

section \<open>Example configuration\<close>

definition example_config :: "data_dir \<Rightarrow> path \<Rightarrow> config" where
  "example_config dd root =
     (default_config dd)\<lparr>cfg_socket := DEFAULT_SOCKET, cfg_services :=
       [(default_service_config ''network'')\<lparr>sc_daemon := False, sc_restart_policy := NeverRestart,
           sc_order_priority := 30, sc_cmd := Some ''/etc/init.d/network'',
           sc_liveness_probe := Some
             \<lparr>lp_cmd = Some ''/usr/sbin/configure-ethernet check'', lp_http_url = None, lp_tcp_addr = None,
              lp_success_exit_codes = [0], lp_http_accepted_codes = [200], lp_http_method = ''GET'',
              lp_interval = 30, lp_timeout = 5, lp_failure_threshold = 1\<rparr>\<rparr>,
        (default_service_config ''redis'')\<lparr>sc_depends_on := [''network''], sc_cmd := Some ''/etc/init.d/redis''\<rparr>,
        (default_service_config ''remote-icmp'')\<lparr>sc_restart_backoff := 5, sc_background := True,
           sc_order_priority := 210, sc_depends_on := [''network''],
           sc_start_cmd := Some (''/usr/bin/bigfred-remote-icmp --config '' @ root @ ''/etc/loco-server.conf''),
           sc_stop_cmd := Some ''killall bigfred-remote-icmp'',
           sc_security_context := Some \<lparr>run_as_user = Some ''nobody'', run_as_group = None,
             capabilities = [''CAP_NET_RAW'']\<rparr>\<rparr>]\<rparr>"

section \<open>Load\<close>

definition save_config :: "json \<Rightarrow> faults \<Rightarrow> path \<Rightarrow> config \<Rightarrow> files \<Rightarrow> files \<times> unit res" where
  "save_config j fault p cfg fs = write_json_atomic fault p (enc_config j cfg) fs"

text \<open>The steps shared by the two loaders once the configuration is merged: check it, refresh the env-file
  cache, resolve the identities.\<close>

definition finish_load :: "user_db \<Rightarrow> nat \<Rightarrow> file_reader \<Rightarrow> config \<Rightarrow> env_map \<Rightarrow> env_map \<times> config res" where
  "finish_load db uid read cfg cache =
     (case validate db uid cfg of
        Inl e \<Rightarrow> (cache, Inl e)
      | Inr _ \<Rightarrow> (load_into_cache read (cfg_env_file cfg) cache, prepare_security db cfg))"

definition load_config :: "json \<Rightarrow> faults \<Rightarrow> user_db \<Rightarrow> nat \<Rightarrow> files \<Rightarrow> path \<Rightarrow> env_map \<Rightarrow> env_map \<times> config res" where
  "load_config j fault db uid fs p cache =
     (case fs_read fault fs p of
        Inl e \<Rightarrow> (cache, Inl (ErrIoPath p e))
      | Inr data \<Rightarrow> (case dec_config j data of
          Inl e \<Rightarrow> (cache, Inl (ErrJson e))
        | Inr cfg \<Rightarrow> finish_load db uid (fs_read fault fs) cfg cache))"

text \<open>Create a missing file with default contents.\<close>

definition ensure_file :: "json \<Rightarrow> faults \<Rightarrow> path \<Rightarrow> config \<Rightarrow> files \<Rightarrow> files \<times> unit res" where
  "ensure_file j fault p cfg fs = (if om_contains fs p then (fs, Inr ()) else save_config j fault p cfg fs)"

definition read_merged :: "json \<Rightarrow> faults \<Rightarrow> files \<Rightarrow> path \<Rightarrow> path \<Rightarrow> path \<Rightarrow> dirent option \<Rightarrow> config res" where
  "read_merged j fault fs config_path override_path root tree =
     (case fs_read fault fs config_path of
        Inl e \<Rightarrow> Inl (ErrIo e)
      | Inr data \<Rightarrow> (case dec_config j data of
          Inl e \<Rightarrow> Inl (ErrJson e)
        | Inr cfg \<Rightarrow>
            res_bind (merge_service_dropins j fault fs root tree cfg) (\<lambda>cfg1.
            res_bind (load_override j fault fs override_path) (\<lambda>ov.
              Inr (apply_enabled_override cfg1 ov)))))"

text \<open>The part of \<open>load_or_create\<close> that touches files: directory, example, default configuration.\<close>

definition create_files :: "json \<Rightarrow> faults \<Rightarrow> data_dir \<Rightarrow> path \<Rightarrow> path \<Rightarrow> path \<Rightarrow> files \<Rightarrow> files \<times> unit res" where
  "create_files j fault dd dd_root config_path example_path fs =
     fs_then (case path_parent config_path of
         Some parent \<Rightarrow> (fs, case fault OpMkdir parent of Some e \<Rightarrow> Inl (ErrIo e) | None \<Rightarrow> Inr ())
       | None \<Rightarrow> (fs, Inr ())) (\<lambda>fs0.
     fs_then (ensure_file j fault example_path (example_config dd dd_root) fs0)
       (ensure_file j fault config_path (default_config dd)))"

definition load_or_create_with_dropins :: "json \<Rightarrow> faults \<Rightarrow> user_db \<Rightarrow> nat \<Rightarrow> data_dir \<Rightarrow> path
    \<Rightarrow> path \<Rightarrow> path \<Rightarrow> path \<Rightarrow> path \<Rightarrow> dirent option \<Rightarrow> files \<Rightarrow> env_map \<Rightarrow> files \<times> env_map \<times> config res" where
  "load_or_create_with_dropins j fault db uid dd dd_root config_path example_path override_path root tree fs cache =
     (let r = create_files j fault dd dd_root config_path example_path fs; fs' = fst r in
      (fs', case snd r of
         Inl e \<Rightarrow> (cache, Inl e)
       | Inr _ \<Rightarrow> (case read_merged j fault fs' config_path override_path root tree of
           Inl e \<Rightarrow> (cache, Inl e)
         | Inr cfg \<Rightarrow> finish_load db uid (fs_read fault fs') cfg cache)))"

definition load_or_create :: "json \<Rightarrow> faults \<Rightarrow> user_db \<Rightarrow> nat \<Rightarrow> data_dir \<Rightarrow> path \<Rightarrow> path \<Rightarrow> path \<Rightarrow> path
    \<Rightarrow> dirent option \<Rightarrow> files \<Rightarrow> env_map \<Rightarrow> files \<times> env_map \<times> config res" where
  "load_or_create j fault db uid dd dd_root config_path example_path override_path tree fs cache =
     load_or_create_with_dropins j fault db uid dd dd_root config_path example_path override_path (default_dropins_dir dd) tree fs cache"

record paths =
  ps_config :: path
  ps_example :: path
  ps_override_file :: path
  ps_dropins_dir :: path
  ps_early_boot :: path
  ps_early_boot_override :: path
  ps_unmount :: path
  ps_unmount_override :: path

definition default_paths :: "data_dir \<Rightarrow> paths" where
  "default_paths dd =
     \<lparr>ps_config = default_config_path dd, ps_example = default_example_path dd,
      ps_override_file = default_override_path dd, ps_dropins_dir = default_dropins_dir dd,
      ps_early_boot = DEFAULT_EARLY_BOOT, ps_early_boot_override = default_early_boot_override_path dd,
      ps_unmount = DEFAULT_UNMOUNT, ps_unmount_override = default_unmount_override_path dd\<rparr>"

section \<open>Later drop-ins win\<close>

definition named :: "string \<Rightarrow> service_config list \<Rightarrow> service_config option" where
  "named n svcs = find (\<lambda>s. sc_name s = n) svcs"

lemma find_append: "find p (xs @ ys) = (case find p xs of Some x \<Rightarrow> Some x | None \<Rightarrow> find p ys)"
  by (induction xs) auto

lemma named_merge_service:
  "named n (merge_service svc svcs) = (if n = sc_name svc then Some svc else named n svcs)"
proof -
  have "named n (update_first (\<lambda>s. sc_name s = sc_name svc) (\<lambda>_. svc) svcs) = (if n = sc_name svc then Some svc else named n svcs)"
    if "list_ex (\<lambda>s. sc_name s = sc_name svc) svcs"
    using that by (induction svcs) (auto simp: named_def)
  moreover have "named n (svcs @ [svc]) = (if n = sc_name svc then Some svc else named n svcs)"
    if "\<not> list_ex (\<lambda>s. sc_name s = sc_name svc) svcs"
  proof -
    have "find (\<lambda>s. sc_name s = sc_name svc) svcs = None"
      using that by (simp add: find_None_iff list_ex_iff)
    then show ?thesis by (auto simp: named_def find_append split: option.split)
  qed
  ultimately show ?thesis
    unfolding merge_service_def by (cases "list_ex (\<lambda>s. sc_name s = sc_name svc) svcs") simp_all
qed

lemma named_merge_services:
  "named n (fold merge_service new svcs) = (case named n (rev new) of Some s \<Rightarrow> Some s | None \<Rightarrow> named n svcs)"
proof (induction new arbitrary: svcs)
  case (Cons s new)
  have "named n (rev (s # new)) =
      (case named n (rev new) of Some t \<Rightarrow> Some t | None \<Rightarrow> if n = sc_name s then Some s else None)"
    by (auto simp: named_def find_append split: option.split)
  moreover have "named n (fold merge_service (s # new) svcs) =
      (case named n (rev new) of Some t \<Rightarrow> Some t | None \<Rightarrow> if n = sc_name s then Some s else named n svcs)"
    using Cons.IH [of "merge_service s svcs"] named_merge_service [of n s svcs]
    by (simp only: fold_Cons comp_apply)
  ultimately show ?case by (simp split: option.split)
qed (simp add: named_def)

lemma merge_service_distinct [inv_intros]:
  "distinct (map sc_name svcs) \<Longrightarrow> distinct (map sc_name (merge_service svc svcs))"
  by (auto simp: merge_service_def map_update_first list_ex_iff)

lemma merge_services_distinct [inv_intros]:
  "distinct (map sc_name svcs) \<Longrightarrow> distinct (map sc_name (fold merge_service new svcs))"
  by (induction new arbitrary: svcs) (simp_all add: inv_intros)

text \<open>The services of a drop-in file that was read and decoded.\<close>

definition dropin_services :: "json \<Rightarrow> faults \<Rightarrow> files \<Rightarrow> path \<Rightarrow> rel_path \<Rightarrow> service_config list" where
  "dropin_services j fault fs root rel =
     (case fs_read fault fs (join_path root rel) of
        Inl _ \<Rightarrow> [] | Inr d \<Rightarrow> (case dec_dropin j d of Inl _ \<Rightarrow> [] | Inr svcs \<Rightarrow> svcs))"

lemma merge_files_result:
  "merge_files j fault fs root rels svcs = Inr svcs' \<Longrightarrow>
   svcs' = fold merge_service (concat (map (dropin_services j fault fs root) rels)) svcs"
  by (induction j fault fs root rels svcs rule: merge_files.induct)
    (auto simp: Let_def dropin_services_def split: sum.splits)

lemma walk_json:
  "walk pre es = Inr rels \<Longrightarrow> rel \<in> set rels \<Longrightarrow> rel \<noteq> [] \<and> file_extension (last rel) = Some ''json''"
proof (induction pre es arbitrary: rels rule: walk.induct)
  case (2 pre n d es)
  show ?case
  proof (cases d)
    case DFile
    then show ?thesis using 2 by (auto simp: res_bind_Inr_iff split: if_splits)
  next
    case (DDir r)
    show ?thesis
    proof (cases r)
      case (Inr sub)
      have "\<And>rs. walk (pre @ [n]) (sort_key fst sub) = Inr rs \<Longrightarrow> rel \<in> set rs \<Longrightarrow>
          rel \<noteq> [] \<and> file_extension (last rel) = Some ''json''"
        "\<And>rs. walk pre es = Inr rs \<Longrightarrow> rel \<in> set rs \<Longrightarrow>
          rel \<noteq> [] \<and> file_extension (last rel) = Some ''json''"
        using 2(2,3) [OF DDir Inr] by blast+
      then show ?thesis using 2(5,6) DDir Inr by (auto simp: res_bind_Inr_iff)
    qed (use 2 DDir in simp)
  qed (use 2 in simp_all)
qed simp

lemma collect_sorted: "collect_dropin_rel_paths t = Inr rels \<Longrightarrow> sorted rels"
  by (auto simp: collect_dropin_rel_paths_def res_bind_Inr_iff split: option.splits dirent.splits sum.splits)

section \<open>Files that are written\<close>

lemma write_json_atomic_cases:
  fixes p d
  defines "tmp \<equiv> with_extension p ''json.tmp''"
  shows "(\<exists>e. write_json_atomic fault p d fs = (fs, Inl e))
    \<or> (\<exists>e. write_json_atomic fault p d fs = (om_insert tmp (d @ [NL]) fs, Inl e))
    \<or> write_json_atomic fault p d fs =
        (om_insert p (d @ [NL]) (om_remove tmp (om_insert tmp (d @ [NL]) fs)), Inr ())"
  by (simp add: write_json_atomic_def fs_then_def at_path_def fs_mkdir_def fs_write_def fs_rename_def
      Let_def tmp_def split: option.split)

lemma write_json_atomic_other:
  assumes "om_wf fs" "q \<noteq> p" "q \<noteq> with_extension p ''json.tmp''"
  shows "om_get (fst (write_json_atomic fault p d fs)) q = om_get fs q"
  using write_json_atomic_cases [of fault p d fs] assms
  by (elim disjE exE) (simp_all add: om_get_remove)

lemma write_json_atomic_target:
  assumes "om_wf fs" "p \<noteq> with_extension p ''json.tmp''"
  shows "om_get (fst (write_json_atomic fault p d fs)) p =
    (case snd (write_json_atomic fault p d fs) of Inr _ \<Rightarrow> Some (d @ [NL]) | Inl _ \<Rightarrow> om_get fs p)"
  using write_json_atomic_cases [of fault p d fs] assms
  by (elim disjE exE) simp_all

lemma write_json_atomic_wf [inv_intros]: "om_wf fs \<Longrightarrow> om_wf (fst (write_json_atomic fault p d fs))"
  using write_json_atomic_cases [of fault p d fs] by (elim disjE exE) simp_all

lemma finish_load_valid:
  assumes "finish_load db uid read cfg cache = (cache', Inr cfg')"
  shows "valid_config db cfg \<and> prepare_security db cfg = Inr cfg' \<and> cache' = load_paths read (cfg_env_file cfg)"
proof (cases "validate db uid cfg")
  case (Inr u)
  have f: "finish_load db uid read cfg cache = (load_paths read (cfg_env_file cfg), prepare_security db cfg)"
    by (simp add: finish_load_def Inr load_into_cache_def install_def)
  have "valid_config db cfg" using Inr validate_iff_valid [of db uid cfg] by simp
  then show ?thesis using assms f by simp
qed (use assms in \<open>simp add: finish_load_def\<close>)

section \<open>Properties\<close>


definition demo_json :: json where
  "demo_json = \<lparr>enc_config = (\<lambda>_. []), dec_config = (\<lambda>_. Inr demo_config), enc_override = (\<lambda>_. []),
     dec_override = (\<lambda>_. Inr [(''ping'', False)]),
     dec_dropin = (\<lambda>d. Inr [(default_service_config ''ping'')\<lparr>sc_cmd := Some d\<rparr>]),
     dec_peek = (\<lambda>_. Inr default_early_boot_config)\<rparr>"

definition demo_tree :: dirent where
  "demo_tree = DDir (Inr [(''b.json'', DFile), (''a.json'', DFile), (''notes.txt'', DFile)])"

lemma demo_tree_paths: "collect_dropin_rel_paths (Some demo_tree) = Inr [[''a.json''], [''b.json'']]"
  by code_simp

lemma demo_merge:
  "\<exists>cfg'. merge_service_dropins demo_json (\<lambda>_ _. None) [(''d/a.json'', ''x''), (''d/b.json'', ''y'')] ''d''
     (Some demo_tree) demo_config = Inr cfg'"
  by (simp add: merge_service_dropins_def demo_tree_paths fs_read_def join_path_def demo_json_def Let_def)


text \<open>
  C27: when \<open>load_or_create\<close> succeeds, the configuration it returns is valid, its security contexts are resolved
  to well-formed identities, and the env-file snapshot is the layered contents of its env files.
\<close>

theorem load_or_create_gives_valid:
  assumes "load_or_create_with_dropins j fault db uid dd dr cp ep op root tree fs cache = (fs', cache', Inr cfg)"
  shows "valid_config db cfg
    \<and> (\<forall>s \<in> set (cfg_services cfg). \<forall>i. sc_resolved_security s = Some i \<longrightarrow> wf_identity i)
    \<and> (\<forall>k. om_get cache' k = layered (fs_read fault fs') (cfg_env_file cfg) k)"
proof -
  obtain cfg0 where f: "finish_load db uid (fs_read fault fs') cfg0 cache = (cache', Inr cfg)"
    using assms by (simp add: load_or_create_with_dropins_def Let_def split: sum.splits) blast
  note v = finish_load_valid [OF f]
  have "valid_config db cfg \<and> (\<forall>s \<in> set (cfg_services cfg). \<forall>i. sc_resolved_security s = Some i \<longrightarrow> wf_identity i)"
    using v prepared_config_valid by blast
  moreover have "cfg_env_file cfg = cfg_env_file cfg0"
    using v by (auto simp: prepare_security_def res_bind_Inr_iff)
  ultimately show ?thesis using v load_paths_layered by simp
qed

lemma demo_load:
  "\<exists>fs' cache' cfg. load_or_create_with_dropins demo_json (\<lambda>_ _. None) demo_db 0 (\<lambda>_. ''/d'') ''/d'' ''/c'' ''/e'' ''/o'' ''/r'' None
     [(''/c'', ''x''), (''/e'', ''y'')] [] = (fs', cache', Inr cfg)"
proof -
  let ?fs = "[(''/c'', ''x''), (''/e'', ''y'')]"
  have "override_service [] = id" by (simp add: override_service_def fun_eq_iff)
  then have ov: "apply_enabled_override demo_config [] = demo_config"
    by (simp add: apply_enabled_override_def)
  have r: "read_merged demo_json (\<lambda>_ _. None) ?fs ''/c'' ''/o'' ''/r'' None = Inr demo_config"
    by (simp add: read_merged_def fs_read_def demo_json_def merge_service_dropins_def
        collect_dropin_rel_paths_def load_override_def om_contains_def ov)
  obtain cfg' where p: "prepare_security demo_db demo_config = Inr cfg'" using demo_config_prepared by blast
  have v: "validate demo_db 0 demo_config = Inr ()" using demo_config_valid validate_iff_valid by blast
  have "create_files demo_json (\<lambda>_ _. None) (\<lambda>_. ''/d'') ''/d'' ''/c'' ''/e'' ?fs = (?fs, Inr ())"
    by (simp add: create_files_def fs_then_def ensure_file_def om_contains_def split: option.split)
  then show ?thesis by (simp add: load_or_create_with_dropins_def Let_def r finish_load_def p v)
qed

theorem load_or_create_gives_valid_witness:
  "\<exists>fs' cache' cfg. load_or_create_with_dropins demo_json (\<lambda>_ _. None) demo_db 0 (\<lambda>_. ''/d'') ''/d'' ''/c'' ''/e'' ''/o'' ''/r'' None
     [(''/c'', ''x''), (''/e'', ''y'')] [] = (fs', cache', Inr cfg) \<and> valid_config demo_db cfg"
  using demo_load load_or_create_gives_valid by metis



text \<open>
  If the decoder reads back what the encoder wrote, an override that was saved successfully is what a
  later load returns.
\<close>

theorem override_roundtrip:
  assumes "om_wf fs" "p \<noteq> with_extension p ''json.tmp''"
    and "dec_override j (enc_override j m @ [NL]) = Inr m" "fault OpRead p = None"
    and "snd (save_override j fault p m fs) = Inr ()"
  shows "load_override j fault (fst (save_override j fault p m fs)) p = Inr m"
proof -
  have "om_get (fst (save_override j fault p m fs)) p = Some (enc_override j m @ [NL])"
    using write_json_atomic_target [OF assms(1,2), of fault "enc_override j m"] assms(5)
    by (simp add: save_override_def)
  then show ?thesis using assms(3,4) by (simp add: load_override_def fs_read_def om_contains_def)
qed

theorem override_roundtrip_witness:
  "load_override demo_json (\<lambda>_ _. None)
     (fst (save_override demo_json (\<lambda>_ _. None) ''/d/o.json'' [(''ping'', False)] [])) ''/d/o.json'' = Inr [(''ping'', False)]"
proof (rule override_roundtrip)
  show "''/d/o.json'' \<noteq> with_extension ''/d/o.json'' ''json.tmp''" by code_simp
  show "snd (save_override demo_json (\<lambda>_ _. None) ''/d/o.json'' [(''ping'', False)] []) = Inr ()"
    by (simp add: save_override_def write_json_atomic_def fs_then_def at_path_def fs_mkdir_def fs_write_def
        fs_rename_def Let_def split: option.split)
qed (simp_all add: demo_json_def)

end
