(* ===== verification/Ring_Spec.thy ===== *)
theory Ring_Spec
  imports Prelude
begin

text \<open>
  The contract of a bounded ring that drops its oldest entries, as a locale. The log buffers of
  \<open>logs.rs\<close> and the event rings of \<open>supervisor.rs\<close> interpret it.
\<close>

definition last_n :: "nat \<Rightarrow> 'a list \<Rightarrow> 'a list" where
  "last_n n xs = drop (length xs - n) xs"

lemma length_last_n [simp]: "length (last_n n xs) = min n (length xs)"
  by (simp add: last_n_def)

lemma last_n_all: "length xs \<le> n \<Longrightarrow> last_n n xs = xs"
  by (simp add: last_n_def)

lemma last_n_last_n_append: "last_n n (last_n n xs @ ys) = last_n n (xs @ ys)"
  by (cases "n \<le> length xs") (simp_all add: last_n_def add.commute)

lemma set_last_n: "set (last_n n xs) \<subseteq> set xs"
  by (simp add: last_n_def set_drop_subset)

text \<open>\<open>while len >= cap { pop_front }\<close>, for a positive capacity.\<close>

fun pop_to :: "nat \<Rightarrow> 'a list \<Rightarrow> 'a list" where
  "pop_to cap [] = []"
| "pop_to cap (x # xs) = (if length (x # xs) \<ge> cap then pop_to cap xs else x # xs)"

lemma pop_to_snoc:
  assumes "0 < cap"
  shows "pop_to cap xs @ [x] = last_n cap (xs @ [x])"
proof (induction xs)
  case Nil
  then show ?case using assms by (simp add: last_n_def)
next
  case (Cons y xs)
  then show ?case by (auto simp: last_n_def Suc_diff_le not_le)
qed

locale bounded_ring =
  fixes push :: "'r \<Rightarrow> 'a \<Rightarrow> 'r" and items :: "'r \<Rightarrow> 'a list" and cap :: "'r \<Rightarrow> nat" and ok :: "'r \<Rightarrow> bool"
  assumes items_push: "ok r \<Longrightarrow> items (push r x) = last_n (cap r) (items r @ [x])"
    and cap_push: "cap (push r x) = cap r"
    and ok_push: "ok r \<Longrightarrow> ok (push r x)"
    and ok_bound: "ok r \<Longrightarrow> 0 < cap r \<and> length (items r) \<le> cap r"
begin

lemma cap_pushes: "cap (foldl push r xs) = cap r"
  by (induction xs arbitrary: r) (simp_all add: cap_push)

lemma ok_pushes: "ok r \<Longrightarrow> ok (foldl push r xs)"
  by (induction xs arbitrary: r) (simp_all add: ok_push)

text \<open>After any sequence of pushes the ring holds the newest entries in order.\<close>

lemma items_pushes: "ok r \<Longrightarrow> items (foldl push r xs) = last_n (cap r) (items r @ xs)"
proof (induction xs rule: rev_induct)
  case Nil
  then show ?case using ok_bound [of r] by (simp add: last_n_all)
next
  case (snoc x xs)
  have "items (foldl push r (xs @ [x])) = last_n (cap r) (items (foldl push r xs) @ [x])"
    using items_push [of "foldl push r xs" x] ok_pushes [OF snoc.prems] by (simp add: cap_pushes)
  also have "\<dots> = last_n (cap r) (items r @ xs @ [x])"
    using snoc by (simp add: last_n_last_n_append)
  finally show ?case .
qed

lemma newest_kept: "ok r \<Longrightarrow> items (push r x) \<noteq> [] \<and> last (items (push r x)) = x"
  using items_push [of r x] ok_bound [of r] by (auto simp: last_n_def last_drop)

lemma bound_pushes: "ok r \<Longrightarrow> length (items (foldl push r xs)) \<le> cap r"
  using ok_pushes [of r xs] ok_bound cap_pushes by metis

end

end
