(* ===== verification/Logs.thy ===== *)
theory Logs
  imports Protocol Ring_Spec
begin

text \<open>
  Log capture (\<open>src/src/logs.rs\<close>) and the boot console (\<open>src/src/console.rs\<close>). A terminal is the list of the lines
  written to it, or \<open>None\<close> when it could not be opened; a log file the list of its lines. A follower is the
  sending half of a channel; \<open>lh_channels\<close> holds, for each receiver still alive, what it has not read yet.
  \<open>ts\<close> is the formatted time of the line. Which terminals open and which log files can be appended to is the
  system's choice and an argument.
\<close>

definition INIT_SERVICE :: string where "INIT_SERVICE = ''microinit''"

section \<open>Ring buffer\<close>

record ring_buffer =
  rb_capacity :: nat
  rb_lines :: "log_line list"

definition ring_new :: "nat \<Rightarrow> ring_buffer" where
  "ring_new capacity = \<lparr>rb_capacity = max capacity 1, rb_lines = []\<rparr>"

definition ring_push :: "ring_buffer \<Rightarrow> log_line \<Rightarrow> ring_buffer" where
  "ring_push r line = r\<lparr>rb_lines := pop_to (rb_capacity r) (rb_lines r) @ [line]\<rparr>"

definition ring_last_n :: "ring_buffer \<Rightarrow> nat \<Rightarrow> log_line list" where
  "ring_last_n r n = drop (length (rb_lines r) - n) (rb_lines r)"

definition ring_all :: "ring_buffer \<Rightarrow> log_line list" where
  "ring_all r = rb_lines r"

definition ring_ok :: "ring_buffer \<Rightarrow> bool" where
  "ring_ok r = (0 < rb_capacity r \<and> length (rb_lines r) \<le> rb_capacity r)"

lemma ring_new_ok [simp, inv_intros]: "ring_ok (ring_new capacity)"
  by (simp add: ring_ok_def ring_new_def)

lemma length_pop_to: "0 < cap \<Longrightarrow> length (pop_to cap xs) < cap"
  by (induction xs) auto

lemma ring_push_ok [simp, inv_intros]: "ring_ok r \<Longrightarrow> ring_ok (ring_push r line)"
  using length_pop_to [of "rb_capacity r" "rb_lines r"] by (simp add: ring_ok_def ring_push_def)

interpretation log_ring: bounded_ring ring_push rb_lines rb_capacity ring_ok
proof unfold_locales
  fix r line
  assume "ring_ok r"
  then show "rb_lines (ring_push r line) = last_n (rb_capacity r) (rb_lines r @ [line])"
    using pop_to_snoc [of "rb_capacity r" "rb_lines r" line] by (simp add: ring_push_def ring_ok_def)
qed (simp_all add: ring_push_def ring_ok_def length_pop_to Suc_le_eq)

section \<open>The hub\<close>

record log_hub =
  lh_capacity :: nat
  lh_per_service :: "(string, ring_buffer) omap"
  lh_mixed :: ring_buffer
  lh_service_tty :: "string list option"
  lh_init_tty :: "string list option"
  lh_log_dir :: "string option"
  lh_files :: "(string, string list) omap"
  lh_followers :: "nat list"
  lh_channels :: "(nat, log_line list) omap"
  lh_next :: nat
  lh_boot_tee :: bool
  lh_stderr :: "string list"

definition hub_new :: "nat \<Rightarrow> bool \<Rightarrow> bool \<Rightarrow> string option \<Rightarrow> log_hub" where
  "hub_new capacity service_tty_opens init_tty_opens log_dir =
     \<lparr>lh_capacity = capacity, lh_per_service = [], lh_mixed = ring_new capacity,
      lh_service_tty = (if service_tty_opens then Some [] else None),
      lh_init_tty = (if init_tty_opens then Some [] else None),
      lh_log_dir = log_dir, lh_files = [], lh_followers = [], lh_channels = [], lh_next = 0,
      lh_boot_tee = True, lh_stderr = []\<rparr>"

definition end_boot_tee :: "log_hub \<Rightarrow> log_hub" where
  "end_boot_tee h = h\<lparr>lh_boot_tee := False\<rparr>"

text \<open>A new channel: its sender joins the followers, its receiver is alive and empty.\<close>

definition open_follower :: "log_hub \<Rightarrow> log_hub \<times> nat" where
  "open_follower h =
     (h\<lparr>lh_followers := lh_followers h @ [lh_next h],
        lh_channels := om_insert (lh_next h) [] (lh_channels h), lh_next := lh_next h + 1\<rparr>,
      lh_next h)"

definition log_try_subscribe :: "log_hub \<Rightarrow> log_hub \<times> nat option" where
  "log_try_subscribe h =
     (if length (lh_followers h) \<ge> MAX_LOG_FOLLOWERS then (h, None)
      else let (h', rx) = open_follower h in (h', Some rx))"

text \<open>\<open>while followers.len() >= MAX { followers.remove(0) }\<close>, then a new follower.\<close>

definition log_subscribe :: "log_hub \<Rightarrow> log_hub \<times> nat" where
  "log_subscribe h = open_follower (h\<lparr>lh_followers := pop_to MAX_LOG_FOLLOWERS (lh_followers h)\<rparr>)"

text \<open>Dropping the receiver, and reading one line from it.\<close>

definition drop_receiver :: "nat \<Rightarrow> log_hub \<Rightarrow> log_hub" where
  "drop_receiver rx h = h\<lparr>lh_channels := om_remove rx (lh_channels h)\<rparr>"

definition format_line :: "log_line \<Rightarrow> string" where
  "format_line l = ''['' @ ll_ts l @ ''] '' @ ll_service l @ '': '' @ ll_msg l"

definition format_file_line :: "log_line \<Rightarrow> string" where
  "format_file_line l = ''['' @ ll_ts l @ ''] '' @ log_level_str (ll_level l) @ '': '' @ ll_msg l"

definition tty_write :: "string list option \<Rightarrow> string \<Rightarrow> string list option" where
  "tty_write t line = map_option (\<lambda>ls. ls @ [line]) t"

definition publish_rings :: "log_line \<Rightarrow> log_hub \<Rightarrow> log_hub" where
  "publish_rings line h =
     (let buf = (case om_get (lh_per_service h) (ll_service line) of
            Some b \<Rightarrow> b
          | None \<Rightarrow> ring_new (lh_capacity h))
      in h\<lparr>lh_per_service := om_insert (ll_service line) (ring_push buf line) (lh_per_service h),
           lh_mixed := ring_push (lh_mixed h) line\<rparr>)"

definition publish_ttys :: "log_line \<Rightarrow> bool \<Rightarrow> log_hub \<Rightarrow> log_hub" where
  "publish_ttys line tee h =
     (if ll_service line = INIT_SERVICE
      then h\<lparr>lh_init_tty := tty_write (lh_init_tty h) (format_line line),
             lh_stderr := (if tee then lh_stderr h @ [format_line line] else lh_stderr h)\<rparr>
      else h\<lparr>lh_service_tty := tty_write (lh_service_tty h) (format_line line)\<rparr>)"

text \<open>\<open>opens\<close> tells whether a log file can be opened for appending.\<close>

definition publish_file :: "(string \<Rightarrow> bool) \<Rightarrow> log_line \<Rightarrow> log_hub \<Rightarrow> log_hub" where
  "publish_file opens line h =
     (case lh_log_dir h of
        None \<Rightarrow> h
      | Some dir \<Rightarrow>
          let path = dir @ ''/'' @ ll_service line @ ''.log'' in
          if opens path then
            h\<lparr>lh_files := om_insert path
                 ((case om_get (lh_files h) path of Some ls \<Rightarrow> ls | None \<Rightarrow> []) @ [format_file_line line])
                 (lh_files h)\<rparr>
          else h)"

text \<open>\<open>followers.retain(|tx| tx.send(line).is_ok())\<close>\<close>

fun send_followers :: "log_line \<Rightarrow> nat list \<Rightarrow> (nat, log_line list) omap \<Rightarrow> nat list \<times> (nat, log_line list) omap"
where
  "send_followers line [] chans = ([], chans)"
| "send_followers line (f # fs) chans =
     (case om_get chans f of
        Some q \<Rightarrow> (let (fs', chans') = send_followers line fs (om_insert f (q @ [line]) chans) in (f # fs', chans'))
      | None \<Rightarrow> send_followers line fs chans)"

definition publish_followers :: "log_line \<Rightarrow> log_hub \<Rightarrow> log_hub" where
  "publish_followers line h =
     (let (fs, chans) = send_followers line (lh_followers h) (lh_channels h)
      in h\<lparr>lh_followers := fs, lh_channels := chans\<rparr>)"

definition publish_inner :: "(string \<Rightarrow> bool) \<Rightarrow> log_line \<Rightarrow> bool \<Rightarrow> log_hub \<Rightarrow> log_hub" where
  "publish_inner opens line tee h =
     publish_followers line (publish_file opens line (publish_ttys line tee (publish_rings line h)))"

definition log_publish :: "(string \<Rightarrow> bool) \<Rightarrow> log_line \<Rightarrow> log_hub \<Rightarrow> log_hub" where
  "log_publish opens line h =
     publish_inner opens line (ll_service line = INIT_SERVICE \<and> lh_boot_tee h) h"

definition emit :: "(string \<Rightarrow> bool) \<Rightarrow> string \<Rightarrow> string \<Rightarrow> log_level \<Rightarrow> string \<Rightarrow> log_hub \<Rightarrow> log_hub" where
  "emit opens ts service level msg h =
     log_publish opens \<lparr>ll_ts = ts, ll_service = service, ll_level = level, ll_msg = msg\<rparr> h"

definition emit_init_console_mirror :: "(string \<Rightarrow> bool) \<Rightarrow> string \<Rightarrow> log_level \<Rightarrow> string \<Rightarrow> log_hub \<Rightarrow> log_hub" where
  "emit_init_console_mirror opens ts level msg h =
     publish_inner opens \<lparr>ll_ts = ts, ll_service = INIT_SERVICE, ll_level = level, ll_msg = msg\<rparr> False h"

definition snapshot_service :: "log_hub \<Rightarrow> string \<Rightarrow> nat \<Rightarrow> log_line list" where
  "snapshot_service h name lines =
     (case om_get (lh_per_service h) name of Some b \<Rightarrow> ring_last_n b lines | None \<Rightarrow> [])"

definition snapshot_mixed :: "log_hub \<Rightarrow> nat \<Rightarrow> log_line list" where
  "snapshot_mixed h lines = ring_last_n (lh_mixed h) lines"

section \<open>The boot console\<close>

definition CONSOLE_WIDTH :: nat where "CONSOLE_WIDTH = 48"
definition GREEN :: string where "GREEN = CHR 0x1B # ''[0;32m''"
definition RED :: string where "RED = CHR 0x1B # ''[0;31m''"
definition RESET :: string where "RESET = CHR 0x1B # ''[0m''"

text \<open>The console with its output so far and, when it has one, the hub it mirrors to.\<close>

record console =
  con_out :: string
  con_hub :: "log_hub option"

definition con_mirror :: "(string \<Rightarrow> bool) \<Rightarrow> string \<Rightarrow> log_level \<Rightarrow> string \<Rightarrow> console \<Rightarrow> console" where
  "con_mirror opens ts level msg c =
     c\<lparr>con_hub := map_option (emit_init_console_mirror opens ts level msg) (con_hub c)\<rparr>"

definition console_info :: "(string \<Rightarrow> bool) \<Rightarrow> string \<Rightarrow> string \<Rightarrow> console \<Rightarrow> console" where
  "console_info opens ts msg c =
     con_mirror opens ts LvInfo msg (c\<lparr>con_out := con_out c @ ''microinit: '' @ msg @ [NL]\<rparr>)"

definition console_starting :: "(string \<Rightarrow> bool) \<Rightarrow> string \<Rightarrow> string \<Rightarrow> console \<Rightarrow> console" where
  "console_starting opens ts name c =
     con_mirror opens ts LvInfo (''Starting '' @ name @ ''...'')
       (c\<lparr>con_out := con_out c @ ''  Starting '' @ name @ ''...''\<rparr>)"

definition console_status :: "(string \<Rightarrow> bool) \<Rightarrow> string \<Rightarrow> string \<Rightarrow> bool \<Rightarrow> console \<Rightarrow> console" where
  "console_status opens ts name ok c =
     (let pad = (if length name < CONSOLE_WIDTH then replicate (CONSOLE_WIDTH - length name) CHR ''.'' else []);
          tag = (if ok then ''[  OK  ]'' else ''[ FAIL ]'');
          color = (if ok then GREEN else RED)
      in con_mirror opens ts (if ok then LvInfo else LvError) (name @ (if ok then '': OK'' else '': FAIL''))
           (c\<lparr>con_out := con_out c @ [CR] @ ''  '' @ name @ pad @ '' '' @ color @ tag @ RESET @ [NL]\<rparr>))"

section \<open>Invariant\<close>

definition buffers_ok :: "nat \<Rightarrow> (string, ring_buffer) omap \<Rightarrow> bool" where
  "buffers_ok capacity m =
     (\<forall>n b. om_get m n = Some b \<longrightarrow>
        ring_ok b \<and> rb_capacity b = max capacity 1 \<and> (\<forall>l \<in> set (rb_lines b). ll_service l = n))"

definition hub_ok :: "log_hub \<Rightarrow> bool" where
  "hub_ok h =
     (ring_ok (lh_mixed h) \<and> rb_capacity (lh_mixed h) = max (lh_capacity h) 1
      \<and> om_wf (lh_per_service h) \<and> buffers_ok (lh_capacity h) (lh_per_service h)
      \<and> om_wf (lh_channels h)
      \<and> length (lh_followers h) \<le> MAX_LOG_FOLLOWERS \<and> distinct (lh_followers h)
      \<and> (\<forall>f \<in> set (lh_followers h). f < lh_next h)
      \<and> (\<forall>f \<in> set (om_keys (lh_channels h)). f < lh_next h))"

lemma hub_new_ok [inv_intros]: "hub_ok (hub_new capacity s i d)"
  by (simp add: hub_ok_def hub_new_def buffers_ok_def) (simp add: ring_new_def)

lemma rb_capacity_push [simp]: "rb_capacity (ring_push r line) = rb_capacity r"
  by (simp add: ring_push_def)

lemma set_ring_push: "ring_ok r \<Longrightarrow> set (rb_lines (ring_push r line)) \<subseteq> insert line (set (rb_lines r))"
  using set_last_n [of "rb_capacity r" "rb_lines r @ [line]"] log_ring.items_push [of r line] by auto

lemma publish_rings_ok [inv_intros]:
  assumes h: "hub_ok h"
  shows "hub_ok (publish_rings line h)"
proof -
  define buf where "buf = (case om_get (lh_per_service h) (ll_service line) of
      Some b \<Rightarrow> b | None \<Rightarrow> ring_new (lh_capacity h))"
  have buf: "ring_ok buf" "rb_capacity buf = max (lh_capacity h) 1"
      "\<forall>l \<in> set (rb_lines buf). ll_service l = ll_service line"
  proof (atomize (full), cases "om_get (lh_per_service h) (ll_service line)")
    case None
    then show "ring_ok buf \<and> rb_capacity buf = max (lh_capacity h) 1
        \<and> (\<forall>l \<in> set (rb_lines buf). ll_service l = ll_service line)"
      using ring_new_ok [of "lh_capacity h"] by (simp add: buf_def) (simp add: ring_new_def)
  next
    case (Some b)
    then show "ring_ok buf \<and> rb_capacity buf = max (lh_capacity h) 1
        \<and> (\<forall>l \<in> set (rb_lines buf). ll_service l = ll_service line)"
      using h unfolding hub_ok_def buffers_ok_def buf_def by simp
  qed
  have rings: "publish_rings line h = h\<lparr>lh_per_service := om_insert (ll_service line) (ring_push buf line) (lh_per_service h),
      lh_mixed := ring_push (lh_mixed h) line\<rparr>"
    by (simp add: publish_rings_def buf_def)
  have lines: "\<forall>l \<in> set (rb_lines (ring_push buf line)). ll_service l = ll_service line"
    using set_ring_push [OF buf(1), of line] buf(3) by blast
  have "ring_ok b \<and> rb_capacity b = max (lh_capacity h) 1 \<and> (\<forall>l \<in> set (rb_lines b). ll_service l = n)"
    if "om_get (om_insert (ll_service line) (ring_push buf line) (lh_per_service h)) n = Some b" for n b
    using that h buf lines by (cases "n = ll_service line") (auto simp: hub_ok_def buffers_ok_def)
  then have "buffers_ok (lh_capacity h) (om_insert (ll_service line) (ring_push buf line) (lh_per_service h))"
    unfolding buffers_ok_def by blast
  then show ?thesis using h unfolding hub_ok_def rings by simp
qed

lemma publish_ttys_ok [inv_intros]: "hub_ok h \<Longrightarrow> hub_ok (publish_ttys line tee h)"
  by (simp add: hub_ok_def publish_ttys_def)

lemma publish_file_ok [inv_intros]: "hub_ok h \<Longrightarrow> hub_ok (publish_file opens line h)"
  by (simp add: hub_ok_def publish_file_def Let_def split: option.split)

lemma send_followers_filter:
  "fst (send_followers line fs chans) = filter (om_contains chans) fs"
proof (induction line fs chans rule: send_followers.induct)
  case (2 line f fs chans)
  show ?case
  proof (cases "om_get chans f")
    case (Some q)
    then have "om_contains (om_insert f (q @ [line]) chans) = om_contains chans"
      by (auto simp: om_contains_def fun_eq_iff)
    then show ?thesis using 2(2) [OF Some] Some by (simp add: om_contains_def split_beta)
  qed (use 2 in \<open>simp add: om_contains_def\<close>)
qed simp

lemma send_followers_wf: "om_wf chans \<Longrightarrow> om_wf (snd (send_followers line fs chans))"
  by (induction line fs chans rule: send_followers.induct) (auto simp: split_beta split: option.split)

lemma send_followers_keys:
  "set (om_keys (snd (send_followers line fs chans))) = set (om_keys chans)"
proof (induction line fs chans rule: send_followers.induct)
  case (2 line f fs chans)
  show ?case
  proof (cases "om_get chans f")
    case (Some q)
    then have "f \<in> set (om_keys chans)"
      by (metis map_of_eq_None_iff option.distinct(1) set_map)
    then show ?thesis using 2(2) [OF Some] Some by (auto simp: split_beta insert_absorb)
  qed (use 2 in simp)
qed simp

text \<open>Each live follower gets the line exactly once, at the end of its queue.\<close>

lemma send_followers_get:
  "distinct fs \<Longrightarrow> om_get (snd (send_followers line fs chans)) f =
     (if f \<in> set fs then map_option (\<lambda>q. q @ [line]) (om_get chans f) else om_get chans f)"
proof (induction line fs chans rule: send_followers.induct)
  case (2 line g fs chans)
  then show ?case
    by (cases "om_get chans g") (auto simp: split_beta)
qed simp

lemma publish_followers_ok [inv_intros]: "hub_ok h \<Longrightarrow> hub_ok (publish_followers line h)"
  using send_followers_filter [of line "lh_followers h" "lh_channels h"]
    send_followers_wf [of "lh_channels h" line "lh_followers h"]
    send_followers_keys [of line "lh_followers h" "lh_channels h"]
    length_filter_le [of "om_contains (lh_channels h)" "lh_followers h"]
  by (auto simp: hub_ok_def publish_followers_def split_beta simp del: set_map length_filter_le
      intro: order_trans [OF length_filter_le])

lemma publish_inner_ok [inv_intros]: "hub_ok h \<Longrightarrow> hub_ok (publish_inner opens line tee h)"
  by (simp add: publish_inner_def inv_intros)

lemma emit_ok [inv_intros]: "hub_ok h \<Longrightarrow> hub_ok (emit opens ts s l m h)"
  by (simp add: emit_def log_publish_def inv_intros)

lemma open_follower_ok:
  assumes "hub_ok h" "length (lh_followers h) < MAX_LOG_FOLLOWERS"
  shows "hub_ok (fst (open_follower h))"
proof -
  have "lh_next h \<notin> set (lh_followers h)" using assms(1) by (auto simp: hub_ok_def)
  then show ?thesis
    using assms by (auto simp: hub_ok_def open_follower_def less_Suc_eq simp del: set_map)
qed

lemma log_try_subscribe_ok [inv_intros]: "hub_ok h \<Longrightarrow> hub_ok (fst (log_try_subscribe h))"
  using open_follower_ok [of h] by (simp add: log_try_subscribe_def split_beta Let_def not_le)

lemma set_pop_to: "set (pop_to cap xs) \<subseteq> set xs"
  by (induction xs) auto

lemma distinct_pop_to: "distinct xs \<Longrightarrow> distinct (pop_to cap xs)"
  by (induction xs) auto

lemma log_subscribe_ok [inv_intros]: "hub_ok h \<Longrightarrow> hub_ok (fst (log_subscribe h))"
  unfolding log_subscribe_def
  by (rule open_follower_ok)
    (use length_pop_to [of MAX_LOG_FOLLOWERS "lh_followers h"] set_pop_to [of MAX_LOG_FOLLOWERS "lh_followers h"]
      in \<open>auto simp: hub_ok_def MAX_LOG_FOLLOWERS_def distinct_pop_to\<close>)

lemma publish_frames [frame_simps]:
  "lh_mixed (publish_followers line h) = lh_mixed h"
  "lh_mixed (publish_file opens line h) = lh_mixed h"
  "lh_mixed (publish_ttys line tee h) = lh_mixed h"
  "lh_per_service (publish_followers line h) = lh_per_service h"
  "lh_per_service (publish_file opens line h) = lh_per_service h"
  "lh_per_service (publish_ttys line tee h) = lh_per_service h"
  "lh_capacity (publish_inner opens line tee h) = lh_capacity h"
  "lh_boot_tee (publish_inner opens line tee h) = lh_boot_tee h"
  by (simp_all add: publish_followers_def publish_file_def publish_ttys_def publish_inner_def
      publish_rings_def Let_def split_beta split: option.split)

lemma publish_inner_mixed: "lh_mixed (publish_inner opens line tee h) = ring_push (lh_mixed h) line"
  by (simp add: publish_inner_def frame_simps publish_rings_def Let_def)

lemma log_publish_all_mixed:
  "lh_mixed (fold (log_publish opens) lines h) = foldl ring_push (lh_mixed h) lines"
  by (induction lines arbitrary: h) (simp_all add: log_publish_def publish_inner_mixed)

section \<open>Properties\<close>

text \<open>
  After any sequence of published lines the mixed snapshot of \<open>n\<close> lines is the newest \<open>n\<close> of what the hub
  held before followed by the new lines, but never more than the configured capacity (at least one).
\<close>

theorem mixed_log_is_newest:
  assumes "hub_ok h"
  shows "snapshot_mixed (fold (log_publish opens) lines h) n =
    last_n n (last_n (max (lh_capacity h) 1) (rb_lines (lh_mixed h) @ lines))"
proof -
  have "ring_ok (lh_mixed h)" "rb_capacity (lh_mixed h) = max (lh_capacity h) 1"
    using assms by (simp_all add: hub_ok_def)
  then show ?thesis
    using log_ring.items_pushes [of "lh_mixed h" lines]
    by (simp add: snapshot_mixed_def ring_last_n_def log_publish_all_mixed last_n_def)
qed

definition demo_line :: "string \<Rightarrow> log_line" where
  "demo_line m = \<lparr>ll_ts = ''t'', ll_service = ''web'', ll_level = LvStdout, ll_msg = m\<rparr>"

theorem mixed_log_is_newest_witness:
  "snapshot_mixed (fold (log_publish (\<lambda>_. False)) [demo_line ''a'', demo_line ''b'', demo_line ''c'']
      (hub_new 2 True True None)) 5 = [demo_line ''b'', demo_line ''c'']"
  using mixed_log_is_newest [OF hub_new_ok, of "\<lambda>_. False" "[demo_line ''a'', demo_line ''b'', demo_line ''c'']" 2 True True None 5]
  by (simp add: hub_new_def ring_new_def last_n_def)

text \<open>
  Publishing a line reaches every live follower exactly once, drops exactly the followers whose
  receiver is gone, and keeps the hub's invariant: bounded buffers that hold lines of their own
  service only, and at most sixteen distinct followers.
\<close>

theorem publish_reaches_followers:
  assumes "hub_ok h"
  shows "hub_ok (log_publish opens line h)
    \<and> lh_followers (log_publish opens line h) = filter (om_contains (lh_channels h)) (lh_followers h)
    \<and> (\<forall>f. om_get (lh_channels (log_publish opens line h)) f =
         (if f \<in> set (lh_followers h) then map_option (\<lambda>q. q @ [line]) (om_get (lh_channels h) f)
          else om_get (lh_channels h) f))"
proof -
  let ?h = "publish_file opens line (publish_ttys line (ll_service line = INIT_SERVICE \<and> lh_boot_tee h) (publish_rings line h))"
  have f: "lh_followers ?h = lh_followers h" "lh_channels ?h = lh_channels h"
    by (simp_all add: publish_file_def publish_ttys_def publish_rings_def Let_def split: option.split)
  have "distinct (lh_followers h)" using assms by (simp add: hub_ok_def)
  then have "lh_followers (publish_followers line ?h) = filter (om_contains (lh_channels h)) (lh_followers h)"
      "\<forall>i. om_get (lh_channels (publish_followers line ?h)) i =
         (if i \<in> set (lh_followers h) then map_option (\<lambda>q. q @ [line]) (om_get (lh_channels h) i)
          else om_get (lh_channels h) i)"
    using send_followers_filter send_followers_get by (simp_all add: publish_followers_def split_beta f)
  moreover have "log_publish opens line h = publish_followers line ?h"
    by (simp add: log_publish_def publish_inner_def)
  moreover have "hub_ok (log_publish opens line h)"
    using publish_inner_ok [OF assms] by (simp add: log_publish_def)
  ultimately show ?thesis by simp
qed

theorem publish_reaches_followers_witness:
  "hub_ok (log_publish (\<lambda>_. False) (demo_line ''a'') (fst (log_subscribe (hub_new 2 True True None))))"
  using publish_reaches_followers [OF log_subscribe_ok [OF hub_new_ok]] by blast

end
