(* ===== verification/Watch.thy ===== *)
theory Watch
  imports Labels
begin

text \<open>
  The watch hub (\<open>src/src/watch.rs\<close>): every follower has a slot for one snapshot and a generation, a \<open>u64\<close> that
  wraps. Followers are told apart by an identity, as \<open>Arc::ptr_eq\<close> does. \<open>count\<close> is the atomic mirror of the number
  of followers. Waiting on a slot takes the later states of the slot, one for each wake-up before the deadline.
\<close>

type_synonym snapshot = "service_status list"

record slot =
  sl_gen :: u64
  sl_snapshot :: "snapshot option"

record follower =
  fo_id :: nat
  fo_keys :: "string list"
  fo_slot :: slot

record watch_hub =
  wh_followers :: "follower list"
  wh_count :: nat
  wh_next :: nat

definition watch_new :: watch_hub where
  "watch_new = \<lparr>wh_followers = [], wh_count = 0, wh_next = 0\<rparr>"

definition follower_count :: "watch_hub \<Rightarrow> nat" where
  "follower_count h = wh_count h"

definition watch_try_subscribe :: "string list \<Rightarrow> watch_hub \<Rightarrow> watch_hub \<times> nat option" where
  "watch_try_subscribe label_keys h =
     (if length (wh_followers h) \<ge> MAX_WATCH_FOLLOWERS then (h, None)
      else
        let f = \<lparr>fo_id = wh_next h, fo_keys = label_keys, fo_slot = \<lparr>sl_gen = 0, sl_snapshot = None\<rparr>\<rparr>;
            fs = wh_followers h @ [f]
        in (h\<lparr>wh_followers := fs, wh_count := length fs, wh_next := wh_next h + 1\<rparr>, Some (wh_next h)))"

definition filter_snapshot :: "snapshot \<Rightarrow> string list \<Rightarrow> snapshot" where
  "filter_snapshot services keys =
     (if keys = [] then services else filter (\<lambda>s. has_keys (st_labels s) keys) services)"

definition views_eq :: "snapshot \<Rightarrow> snapshot \<Rightarrow> bool" where
  "views_eq a b =
     (if length a \<noteq> length b then False
      else list_all (\<lambda>(x, y). st_name x = st_name y \<and> st_state x = st_state y \<and> st_labels x = st_labels y) (zip a b))"

definition publish_slot :: "snapshot \<Rightarrow> follower \<Rightarrow> follower" where
  "publish_slot services f =
     (let filtered = filter_snapshot services (fo_keys f); s = fo_slot f in
      if (case sl_snapshot s of Some old \<Rightarrow> views_eq old filtered | None \<Rightarrow> False) then f
      else f\<lparr>fo_slot := \<lparr>sl_gen = sl_gen s + 1, sl_snapshot = Some filtered\<rparr>\<rparr>)"

definition watch_publish :: "snapshot \<Rightarrow> watch_hub \<Rightarrow> watch_hub" where
  "watch_publish services h =
     (if wh_count h = 0 then h else h\<lparr>wh_followers := map (publish_slot services) (wh_followers h)\<rparr>)"

definition watch_drop :: "nat \<Rightarrow> watch_hub \<Rightarrow> watch_hub" where
  "watch_drop i h =
     (let fs = filter (\<lambda>f. fo_id f \<noteq> i) (wh_followers h) in h\<lparr>wh_followers := fs, wh_count := length fs\<rparr>)"

datatype wait_outcome = Snapshot u64 snapshot | Timeout

text \<open>
  \<open>WatchSub::wait_timeout\<close>: \<open>s\<close> is the slot when the wait begins, \<open>wakes\<close> its state at each wake-up before the
  deadline (spurious ones included), \<open>final\<close> its state when the wait times out.
\<close>

definition slot_ready :: "u64 \<Rightarrow> slot \<Rightarrow> wait_outcome option" where
  "slot_ready seen s =
     (if sl_gen s \<noteq> seen then map_option (Snapshot (sl_gen s)) (sl_snapshot s) else None)"

fun wait_timeout :: "u64 \<Rightarrow> slot \<Rightarrow> slot list \<Rightarrow> slot \<Rightarrow> wait_outcome" where
  "wait_timeout seen s [] final =
     (case slot_ready seen s of
        Some r \<Rightarrow> r
      | None \<Rightarrow> (case slot_ready seen final of Some r \<Rightarrow> r | None \<Rightarrow> Timeout))"
| "wait_timeout seen s (w # wakes) final =
     (case slot_ready seen s of Some r \<Rightarrow> r | None \<Rightarrow> wait_timeout seen w wakes final)"

section \<open>Invariant\<close>

definition follower_ok :: "follower \<Rightarrow> bool" where
  "follower_ok f = (sl_snapshot (fo_slot f) = None \<longrightarrow> sl_gen (fo_slot f) = 0)"

definition watch_ok :: "watch_hub \<Rightarrow> bool" where
  "watch_ok h =
     (wh_count h = length (wh_followers h) \<and> length (wh_followers h) \<le> MAX_WATCH_FOLLOWERS
      \<and> distinct (map fo_id (wh_followers h)) \<and> (\<forall>f \<in> set (wh_followers h). fo_id f < wh_next h \<and> follower_ok f))"

lemma watch_new_ok [inv_intros]: "watch_ok watch_new"
  by (simp add: watch_ok_def watch_new_def)

lemma publish_slot_fields [frame_simps]:
  "fo_id (publish_slot services f) = fo_id f" "fo_keys (publish_slot services f) = fo_keys f"
  by (simp_all add: publish_slot_def Let_def)

lemma publish_slot_ok: "follower_ok f \<Longrightarrow> follower_ok (publish_slot services f)"
  by (simp add: publish_slot_def follower_ok_def Let_def)

lemma watch_publish_ok [inv_intros]: "watch_ok h \<Longrightarrow> watch_ok (watch_publish services h)"
  by (auto simp: watch_ok_def watch_publish_def frame_simps comp_def publish_slot_ok)

lemma watch_try_subscribe_ok [inv_intros]: "watch_ok h \<Longrightarrow> watch_ok (fst (watch_try_subscribe keys h))"
  by (auto simp: watch_ok_def watch_try_subscribe_def Let_def follower_ok_def less_Suc_eq)

lemma watch_drop_ok [inv_intros]:
  assumes "watch_ok h"
  shows "watch_ok (watch_drop i h)"
proof -
  have "length (filter (\<lambda>f. fo_id f \<noteq> i) (wh_followers h)) \<le> MAX_WATCH_FOLLOWERS"
    using assms by (auto simp: watch_ok_def intro: order_trans [OF length_filter_le])
  then show ?thesis
    using assms by (auto simp: watch_ok_def watch_drop_def Let_def distinct_map_filter)
qed

text \<open>What a follower sees of two lists: the rows with its keys, and of those name, state and labels.\<close>

definition view :: "string list \<Rightarrow> snapshot \<Rightarrow> (string \<times> service_state \<times> labels) list" where
  "view keys services =
     map (\<lambda>s. (st_name s, st_state s, st_labels s)) (filter (\<lambda>s. set keys \<subseteq> set (om_keys (st_labels s))) services)"

lemma views_eq_iff:
  "views_eq a b \<longleftrightarrow> map (\<lambda>s. (st_name s, st_state s, st_labels s)) a = map (\<lambda>s. (st_name s, st_state s, st_labels s)) b"
proof (cases "length a = length b")
  case True
  then show ?thesis
    by (induction a b rule: list_induct2) (simp_all add: views_eq_def)
next
  case False
  then show ?thesis by (auto simp: views_eq_def dest: map_eq_imp_length_eq)
qed

lemma filter_snapshot_view:
  "map (\<lambda>s. (st_name s, st_state s, st_labels s)) (filter_snapshot services keys) = view keys services"
  by (simp add: filter_snapshot_def view_def has_keys_iff)

lemma publish_slot_snapshot:
  "\<exists>snap. sl_snapshot (fo_slot (publish_slot services f)) = Some snap
     \<and> map (\<lambda>s. (st_name s, st_state s, st_labels s)) snap = view (fo_keys f) services"
  by (auto simp: publish_slot_def Let_def filter_snapshot_view views_eq_iff split: option.splits)

lemma publish_slot_gen:
  "sl_gen (fo_slot (publish_slot services f)) =
     (if (case sl_snapshot (fo_slot f) of
            Some old \<Rightarrow> map (\<lambda>s. (st_name s, st_state s, st_labels s)) old = view (fo_keys f) services
          | None \<Rightarrow> False)
      then sl_gen (fo_slot f) else sl_gen (fo_slot f) + 1)"
  by (simp add: publish_slot_def Let_def views_eq_iff filter_snapshot_view split: option.split)

section \<open>Properties\<close>



text \<open>
  Waiting on a follower's slot with the generation last seen returns a snapshot whenever the slot, at the
  start, at a wake-up or at the deadline, has another generation and a snapshot, and what it returns
  is the first such state; it reports a time-out only when there was none.
\<close>

theorem wait_returns_first_news:
  "wait_timeout seen s wakes final =
     (case List.map_filter (slot_ready seen) (s # wakes @ [final]) of r # _ \<Rightarrow> r | [] \<Rightarrow> Timeout)"
  by (induction seen s wakes final rule: wait_timeout.induct)
    (simp_all add: List.map_filter_simps split: option.split)

end
