(* ===== verification/Graph.thy ===== *)
theory Graph
  imports Config
begin

text \<open>
  The dependency graph (\<open>src/src/graph.rs\<close>): Kahn's algorithm with the ready set ordered by
  \<open>(orderPriority, name)\<close>, and the boot and shutdown orders built on it. \<open>indegree\<close> and \<open>adj\<close> are finite
  maps, the \<open>BTreeSet\<close> of ready services a strictly sorted list. \<open>ho\<close> is the order in which a \<open>HashMap\<close>
  gives its keys; only the service named by a cycle error depends on it. The subtraction
  \<open>*d -= 1\<close> panics at zero, which the model keeps and the proofs exclude.
\<close>

section \<open>The algorithm\<close>

type_synonym hash_order = "string list \<Rightarrow> string list"
type_synonym indegrees = "(string, nat) omap"
type_synonym adjacency = "(string, string list) omap"
type_synonym ready_set = "(u64 \<times> string) list"

definition priorities :: "service_config list \<Rightarrow> (string, u64) omap" where
  "priorities services = om_of_list (map (\<lambda>s. (sc_name s, sc_order_priority s)) services)"

definition prio_of :: "(string, u64) omap \<Rightarrow> string \<Rightarrow> u64" where
  "prio_of prio n = (case om_get prio n of Some p \<Rightarrow> p | None \<Rightarrow> 100)"

text \<open>\<open>entry(k).or_insert(v)\<close>\<close>

definition or_insert :: "'k::linorder \<Rightarrow> 'v \<Rightarrow> ('k, 'v) omap \<Rightarrow> ('k, 'v) omap" where
  "or_insert k v m = (if om_contains m k then m else om_insert k v m)"

fun init_nodes :: "service_config list \<Rightarrow> indegrees \<times> adjacency \<Rightarrow> indegrees \<times> adjacency" where
  "init_nodes [] g = g"
| "init_nodes (s # ss) (ind, adj) =
     init_nodes ss (or_insert (sc_name s) 0 ind, or_insert (sc_name s) [] adj)"

fun add_deps :: "string list \<Rightarrow> string \<Rightarrow> string list \<Rightarrow> indegrees \<times> adjacency
    \<Rightarrow> (indegrees \<times> adjacency) res" where
  "add_deps names svc [] g = Inr g"
| "add_deps names svc (dep # deps) (ind, adj) =
     (if dep \<notin> set names
      then Inl (svc_err svc (''unknown dependency '' @ quoted dep))
      else
        let children = (case om_get adj dep of Some cs \<Rightarrow> cs | None \<Rightarrow> []);
            d = (case om_get ind svc of Some d \<Rightarrow> d | None \<Rightarrow> 0)
        in add_deps names svc deps (om_insert svc (d + 1) ind, om_insert dep (children @ [svc]) adj))"

fun add_edges :: "string list \<Rightarrow> service_config list \<Rightarrow> indegrees \<times> adjacency
    \<Rightarrow> (indegrees \<times> adjacency) res" where
  "add_edges names [] g = Inr g"
| "add_edges names (s # ss) g =
     res_bind (add_deps names (sc_name s) (sc_depends_on s) g) (add_edges names ss)"

text \<open>\<open>BTreeSet::insert\<close>, and the set collected from the services without unmet dependency.\<close>

definition initial_ready :: "(string, u64) omap \<Rightarrow> indegrees \<Rightarrow> ready_set" where
  "initial_ready prio ind =
     fold insort_insert (map (\<lambda>(n, _). (prio_of prio n, n)) (filter (\<lambda>(_, d). d = 0) ind)) []"

text \<open>The inner loop over the dependants of a service that was just ordered.\<close>

fun relax :: "(string, u64) omap \<Rightarrow> string list \<Rightarrow> indegrees \<Rightarrow> ready_set \<Rightarrow> (indegrees \<times> ready_set) res"
where
  "relax prio [] ind ready = Inr (ind, ready)"
| "relax prio (c # cs) ind ready =
     (case om_get ind c of
        None \<Rightarrow> relax prio cs ind ready
      | Some d \<Rightarrow>
          if d = 0 then Inl (ErrPanic ''attempt to subtract with overflow'')
          else relax prio cs (om_insert c (d - 1) ind)
                 (if d - 1 = 0 then insort_insert (prio_of prio c, c) ready else ready))"

definition pending_work :: "indegrees \<Rightarrow> nat" where
  "pending_work ind = (\<Sum>k \<in> set (om_keys ind). the (om_get ind k))"

lemma pending_work_dec:
  assumes "om_get ind c = Some (Suc d)"
  shows "pending_work ind = Suc (pending_work (om_insert c d ind))"
proof -
  have c: "c \<in> set (om_keys ind)"
    using assms by (metis map_of_eq_None_iff option.distinct(1) set_map)
  have "pending_work ind = Suc d + (\<Sum>k \<in> set (om_keys ind) - {c}. the (om_get ind k))"
    unfolding pending_work_def using sum.remove [OF _ c, of "\<lambda>k. the (om_get ind k)"] assms by simp
  moreover have "pending_work (om_insert c d ind) =
      d + (\<Sum>k \<in> set (om_keys ind) - {c}. the (om_get ind k))"
  proof -
    have ks: "set (om_keys (om_insert c d ind)) = set (om_keys ind)"
      using c by (simp only: set_keys_insert insert_absorb)
    have "pending_work (om_insert c d ind) =
        (\<Sum>k \<in> set (om_keys ind). the (om_get (om_insert c d ind) k))"
      unfolding pending_work_def ks ..
    also have "\<dots> = d + (\<Sum>k \<in> set (om_keys ind) - {c}. the (om_get (om_insert c d ind) k))"
      using sum.remove [OF _ c, of "\<lambda>k. the (om_get (om_insert c d ind) k)"] by simp
    also have "(\<Sum>k \<in> set (om_keys ind) - {c}. the (om_get (om_insert c d ind) k)) =
        (\<Sum>k \<in> set (om_keys ind) - {c}. the (om_get ind k))"
      by (rule sum.cong) auto
    finally show ?thesis .
  qed
  ultimately show ?thesis by simp
qed

lemma length_insort_insert: "length (insort_insert x xs) \<le> Suc (length xs)"
  by (simp add: insort_insert_key_def)

lemma relax_measure:
  "relax prio cs ind ready = Inr (ind', ready') \<Longrightarrow>
   pending_work ind' + length ready' \<le> pending_work ind + length ready"
proof (induction prio cs ind ready rule: relax.induct)
  case (2 prio c cs ind ready)
  show ?case
  proof (cases "om_get ind c")
    case None
    then show ?thesis using 2 by simp
  next
    case (Some d)
    then obtain e where d: "d = Suc e" using 2(3) by (cases d) auto
    have "pending_work ind' + length ready' \<le> pending_work (om_insert c e ind)
        + length (if e = 0 then insort_insert (prio_of prio c, c) ready else ready)"
      using 2(2) [OF Some] 2(3) Some d by simp
    then show ?thesis
      using pending_work_dec [of ind c e] Some d length_insort_insert [of "(prio_of prio c, c)" ready]
      by (auto split: if_splits)
  qed
qed simp

function topo_loop :: "(string, u64) omap \<Rightarrow> adjacency \<Rightarrow> indegrees \<Rightarrow> ready_set \<Rightarrow> string list
    \<Rightarrow> (string list \<times> indegrees) res" where
  "topo_loop prio adj ind [] order = Inr (order, ind)"
| "topo_loop prio adj ind ((p, n) # ready) order =
     (case relax prio (case om_get adj n of Some cs \<Rightarrow> cs | None \<Rightarrow> []) ind ready of
        Inl e \<Rightarrow> Inl e
      | Inr (ind', ready') \<Rightarrow> topo_loop prio adj ind' ready' (order @ [n]))"
  by pat_completeness auto
termination
proof (relation "measure (\<lambda>(prio, adj, ind, ready, order). pending_work ind + length ready)", goal_cases)
  case (2 prio adj ind p n ready order r ind' ready')
  then show ?case using relax_measure [of prio _ ind ready ind' ready'] by fastforce
qed simp

definition topological_sort :: "hash_order \<Rightarrow> service_config list \<Rightarrow> string list res" where
  "topological_sort ho services =
     (let names = map sc_name services;
          prio = priorities services
      in res_bind (add_edges names services (init_nodes services ([], []))) (\<lambda>(ind, adj).
         res_bind (topo_loop prio adj ind (initial_ready prio ind) []) (\<lambda>(order, ind').
           if length order \<noteq> length services then
             let leftover = ho (om_keys (filter (\<lambda>(_, d). d > 0) ind'))
             in Inl (ErrCycle (case leftover of n # _ \<Rightarrow> n | [] \<Rightarrow> ''unknown''))
           else Inr order)))"

text \<open>\<open>by_name\<close> is collected into a \<open>HashMap\<close>: the last service of a name counts.\<close>

definition by_name :: "service_config list \<Rightarrow> (string, service_config) omap" where
  "by_name services = om_of_list (map (\<lambda>s. (sc_name s, s)) services)"

fun partition_names :: "(string, service_config) omap \<Rightarrow> string list \<Rightarrow> string list \<times> string list" where
  "partition_names m [] = ([], [])"
| "partition_names m (n # ns) =
     (let (fg, bg) = partition_names m ns in
      case om_get m n of
        None \<Rightarrow> (fg, bg)
      | Some s \<Rightarrow> if \<not> sc_enabled s then (fg, bg)
                  else if sc_background s then (fg, n # bg) else (n # fg, bg))"

definition partition_boot :: "hash_order \<Rightarrow> service_config list \<Rightarrow> (string list \<times> string list) res" where
  "partition_boot ho services =
     res_bind (topological_sort ho services) (\<lambda>order. Inr (partition_names (by_name services) order))"

definition shutdown_order :: "hash_order \<Rightarrow> service_config list \<Rightarrow> string list res" where
  "shutdown_order ho services =
     res_bind (topological_sort ho services) (\<lambda>order. Inr (rev order))"

section \<open>Edges and what the maps hold\<close>

abbreviation names_of :: "service_config list \<Rightarrow> string set" where
  "names_of ss \<equiv> set (map sc_name ss)"

text \<open>The edges in the order the code adds them: dependency, then dependant.\<close>

definition edge_list :: "service_config list \<Rightarrow> (string \<times> string) list" where
  "edge_list ss = concat (map (\<lambda>s. map (\<lambda>d. (d, sc_name s)) (sc_depends_on s)) ss)"

definition edge :: "service_config list \<Rightarrow> string \<Rightarrow> string \<Rightarrow> bool" where
  "edge ss d n \<longleftrightarrow> (\<exists>s \<in> set ss. sc_name s = n \<and> d \<in> set (sc_depends_on s))"

definition closed :: "service_config list \<Rightarrow> bool" where
  "closed ss \<longleftrightarrow> (\<forall>d n. edge ss d n \<longrightarrow> d \<in> names_of ss)"

lemma edge_list_edge: "(d, n) \<in> set (edge_list ss) \<longleftrightarrow> edge ss d n"
  by (auto simp: edge_list_def edge_def)

definition children_of :: "(string \<times> string) list \<Rightarrow> string \<Rightarrow> string list" where
  "children_of E n = map snd (filter (\<lambda>e. fst e = n) E)"

text \<open>Edges into \<open>c\<close> from services that have not been ordered yet.\<close>

definition unmet :: "(string \<times> string) list \<Rightarrow> string set \<Rightarrow> string \<Rightarrow> nat" where
  "unmet E X c = length (filter (\<lambda>e. snd e = c \<and> fst e \<notin> X) E)"

definition graph_ok :: "string set \<Rightarrow> (string \<times> string) list \<Rightarrow> indegrees \<times> adjacency \<Rightarrow> bool" where
  "graph_ok N E = (\<lambda>(ind, adj). om_wf ind
     \<and> (\<forall>n. om_get ind n = (if n \<in> N then Some (unmet E {} n) else None))
     \<and> (\<forall>n. om_get adj n = (if n \<in> N then Some (children_of E n) else None)))"

lemma get_or_insert: "om_get (or_insert k v m) = (case om_get m k of None \<Rightarrow> (om_get m)(k \<mapsto> v) | Some _ \<Rightarrow> om_get m)"
  by (auto simp: or_insert_def om_contains_def)

lemma init_nodes_ok: "graph_ok N [] g \<Longrightarrow> graph_ok (N \<union> names_of ss) [] (init_nodes ss g)"
proof (induction ss g arbitrary: N rule: init_nodes.induct)
  case (2 s ss ind adj)
  have "graph_ok (insert (sc_name s) N) [] (or_insert (sc_name s) 0 ind, or_insert (sc_name s) [] adj)"
    using 2(2) by (auto simp: graph_ok_def get_or_insert unmet_def children_of_def or_insert_def
        om_contains_def)
  from 2(1) [OF this] show ?case by (simp add: insert_commute Un_commute)
qed simp

lemma children_of_snoc: "children_of (E @ [(d, c)]) n = (if d = n then children_of E n @ [c] else children_of E n)"
  by (simp add: children_of_def)

lemma unmet_snoc: "unmet (E @ [(d, c)]) X n = (if c = n \<and> d \<notin> X then Suc (unmet E X n) else unmet E X n)"
  by (simp add: unmet_def)

lemma add_deps_ok:
  assumes "graph_ok (set names) E g" "svc \<in> set names" "set deps \<subseteq> set names"
  shows "\<exists>g'. add_deps names svc deps g = Inr g' \<and> graph_ok (set names) (E @ map (\<lambda>d. (d, svc)) deps) g'"
  using assms
proof (induction names svc deps g arbitrary: E rule: add_deps.induct)
  case (2 names svc dep deps ind adj)
  let ?ind = "om_insert svc (unmet E {} svc + 1) ind"
    and ?adj = "om_insert dep (children_of E dep @ [svc]) adj"
  have g: "om_get ind svc = Some (unmet E {} svc)" "om_get adj dep = Some (children_of E dep)"
    using 2(2-4) by (auto simp: graph_ok_def)
  have "graph_ok (set names) (E @ [(dep, svc)]) (?ind, ?adj)"
    using 2(2-4) by (auto simp: graph_ok_def unmet_snoc children_of_snoc)
  then have "\<exists>g'. add_deps names svc deps (?ind, ?adj) = Inr g'
      \<and> graph_ok (set names) ((E @ [(dep, svc)]) @ map (\<lambda>d. (d, svc)) deps) g'"
    using 2(1) [OF _ refl refl, of "E @ [(dep, svc)]"] 2(3,4) g by simp
  then show ?case using 2(4) g by simp
qed simp

lemma add_edges_ok:
  assumes "graph_ok (set names) E g" "names_of ss \<subseteq> set names"
    "\<forall>s \<in> set ss. set (sc_depends_on s) \<subseteq> set names"
  shows "\<exists>g'. add_edges names ss g = Inr g' \<and> graph_ok (set names) (E @ edge_list ss) g'"
  using assms
proof (induction names ss g arbitrary: E rule: add_edges.induct)
  case (2 names s ss g)
  obtain g1 where g1: "add_deps names (sc_name s) (sc_depends_on s) g = Inr g1"
      "graph_ok (set names) (E @ map (\<lambda>d. (d, sc_name s)) (sc_depends_on s)) g1"
    using add_deps_ok [of names E g "sc_name s" "sc_depends_on s"] 2(2-4) by auto
  then show ?case using 2(1) [OF g1(2)] 2(3,4) by (simp add: edge_list_def)
qed (simp add: edge_list_def)

lemma add_deps_unknown:
  "add_deps names svc deps g = Inl e \<Longrightarrow>
   \<exists>d \<in> set deps. d \<notin> set names \<and> e = svc_err svc (''unknown dependency '' @ quoted d)"
  by (induction names svc deps g rule: add_deps.induct) (auto simp: Let_def split: if_splits)

lemma add_deps_Inr: "add_deps names svc deps g = Inr g' \<Longrightarrow> set deps \<subseteq> set names"
  by (induction names svc deps g rule: add_deps.induct) (auto simp: Let_def split: if_splits)

lemma add_edges_unknown:
  "add_edges names ss g = Inl e \<Longrightarrow>
   \<exists>s \<in> set ss. \<exists>d \<in> set (sc_depends_on s).
     d \<notin> set names \<and> e = svc_err (sc_name s) (''unknown dependency '' @ quoted d)"
  by (induction names ss g rule: add_edges.induct)
    (auto simp: res_bind_Inl_iff dest!: add_deps_unknown)

lemma add_edges_Inr: "add_edges names ss g = Inr g' \<Longrightarrow> \<forall>s \<in> set ss. set (sc_depends_on s) \<subseteq> set names"
  by (induction names ss g rule: add_edges.induct) (auto simp: res_bind_Inr_iff dest!: add_deps_Inr)

section \<open>The loop\<close>

definition ready_ok :: "ready_set \<Rightarrow> bool" where
  "ready_ok r = (sorted r \<and> distinct r)"

lemma ready_ok_insert [intro]: "ready_ok r \<Longrightarrow> ready_ok (insort_insert x r)"
  by (simp add: ready_ok_def sorted_insort_insert distinct_insort_insert)

lemma relax_ok:
  assumes "\<forall>c. case om_get ind c of None \<Rightarrow> True | Some d \<Rightarrow> count_list cs c \<le> d" "ready_ok r" "om_wf ind"
  shows "\<exists>ind' r'. relax prio cs ind r = Inr (ind', r') \<and> ready_ok r' \<and> om_wf ind'
    \<and> (\<forall>c. om_get ind' c = map_option (\<lambda>d. d - count_list cs c) (om_get ind c))
    \<and> set r' = set r \<union> {(prio_of prio c, c) |c. c \<in> set cs \<and> om_get ind' c = Some 0}"
  using assms
proof (induction prio cs ind r rule: relax.induct)
  case (2 prio c cs ind r)
  show ?case
  proof (cases "om_get ind c")
    case None
    have "\<forall>x. case om_get ind x of None \<Rightarrow> True | Some d \<Rightarrow> count_list cs x \<le> d"
      using 2(3) by (auto split: option.splits if_splits) (meson Suc_leD)
    from 2(1) [OF None this 2(4,5)] obtain ind' r' where *: "relax prio cs ind r = Inr (ind', r')"
        "ready_ok r'" "om_wf ind'"
        "\<forall>c. om_get ind' c = map_option (\<lambda>d. d - count_list cs c) (om_get ind c)"
        "set r' = set r \<union> {(prio_of prio c, c) |c. c \<in> set cs \<and> om_get ind' c = Some 0}"
      by blast
    have "om_get ind' x = map_option (\<lambda>d. d - count_list (c # cs) x) (om_get ind x)" for x
      using *(4) None by (cases "x = c") auto
    moreover have "set r' = set r \<union> {(prio_of prio x, x) |x. x \<in> set (c # cs) \<and> om_get ind' x = Some 0}"
      using *(4,5) None by auto
    ultimately show ?thesis using *(1-3) None by auto
  next
    case (Some d)
    have "count_list (c # cs) c \<le> d" using spec [OF 2(3), of c] Some by simp
    then obtain e where d: "d = Suc e" "count_list cs c \<le> e" by (cases d) auto
    let ?ind = "om_insert c e ind" and ?r = "if e = 0 then insort_insert (prio_of prio c, c) r else r"
    have pre: "\<forall>x. case om_get ?ind x of None \<Rightarrow> True | Some d \<Rightarrow> count_list cs x \<le> d"
    proof
      fix x
      show "case om_get ?ind x of None \<Rightarrow> True | Some d \<Rightarrow> count_list cs x \<le> d"
        using spec [OF 2(3), of x] d by (cases "x = c") (auto split: option.splits)
    qed
    have ok: "ready_ok ?r" "om_wf ?ind" using 2(4,5) by auto
    from 2(2) [OF Some] pre ok d obtain ind' r' where *: "relax prio cs ?ind ?r = Inr (ind', r')"
        "ready_ok r'" "om_wf ind'"
        "\<forall>x. om_get ind' x = map_option (\<lambda>d. d - count_list cs x) (om_get ?ind x)"
        "set r' = set ?r \<union> {(prio_of prio x, x) |x. x \<in> set cs \<and> om_get ind' x = Some 0}"
      by auto
    have get: "om_get ind' x = map_option (\<lambda>d. d - count_list (c # cs) x) (om_get ind x)" for x
      using *(4) Some d by (cases "x = c") auto
    have "set r' = set r \<union> {(prio_of prio x, x) |x. x \<in> set (c # cs) \<and> om_get ind' x = Some 0}"
    proof (cases "c \<in> set cs")
      case True
      then have "0 < count_list cs c" by (metis count_list_0_iff neq0_conv)
      then have "e \<noteq> 0" using d(2) by simp
      then show ?thesis using *(5) True by auto
    next
      case False
      then have "om_get ind' c = Some e" using *(4) by (simp add: count_list_0_iff)
      then show ?thesis using *(5) by (auto simp: set_insort_insert)
    qed
    then show ?thesis using *(1-3) get Some d by auto
  qed
qed (auto simp: option.map_ident)

lemma unmet_insert:
  "n \<notin> X \<Longrightarrow> unmet E X c = unmet E (insert n X) c + count_list (children_of E n) c"
  by (induction E) (auto simp: unmet_def children_of_def)

lemma unmet_antimono: "X \<subseteq> Y \<Longrightarrow> unmet E Y c \<le> unmet E X c"
  by (induction E) (auto simp: unmet_def)

lemma unmet_0_iff: "unmet E X c = 0 \<longleftrightarrow> (\<forall>d. (d, c) \<in> set E \<longrightarrow> d \<in> X)"
  by (auto simp: unmet_def filter_empty_conv)

lemma set_children_of: "c \<in> set (children_of E n) \<longleftrightarrow> (n, c) \<in> set E"
  by (force simp: children_of_def)

text \<open>The services that could come next once those of \<open>X\<close> are ordered.\<close>

definition ready_after :: "string set \<Rightarrow> (string \<times> string) list \<Rightarrow> string set \<Rightarrow> string set" where
  "ready_after N E X = {n \<in> N. n \<notin> X \<and> (\<forall>d. (d, n) \<in> set E \<longrightarrow> d \<in> X)}"

definition greedy :: "string set \<Rightarrow> (string \<times> string) list \<Rightarrow> (string, u64) omap \<Rightarrow> string list \<Rightarrow> bool" where
  "greedy N E prio order =
     (\<forall>i < length order. order ! i \<in> ready_after N E (set (take i order))
        \<and> (\<forall>m \<in> ready_after N E (set (take i order)).
              (prio_of prio (order ! i), order ! i) \<le> (prio_of prio m, m)))"

definition loop_inv :: "string set \<Rightarrow> (string \<times> string) list \<Rightarrow> (string, u64) omap
    \<Rightarrow> indegrees \<Rightarrow> ready_set \<Rightarrow> string list \<Rightarrow> bool" where
  "loop_inv N E prio ind r order =
     (om_wf ind \<and> (\<forall>n. om_get ind n = (if n \<in> N then Some (unmet E (set order) n) else None))
      \<and> ready_ok r \<and> set r = (\<lambda>n. (prio_of prio n, n)) ` ready_after N E (set order)
      \<and> (\<forall>n \<in> set order. unmet E (set order) n = 0)
      \<and> distinct order \<and> set order \<subseteq> N \<and> greedy N E prio order)"

lemma greedy_snoc:
  "greedy N E prio (order @ [n]) \<longleftrightarrow> greedy N E prio order \<and> n \<in> ready_after N E (set order)
     \<and> (\<forall>m \<in> ready_after N E (set order). (prio_of prio n, n) \<le> (prio_of prio m, m))"
  by (auto simp: greedy_def nth_append less_Suc_eq)

lemma ready_after_step:
  assumes n: "n \<in> ready_after N E X" and X: "\<forall>c \<in> X. unmet E X c = 0"
  shows "ready_after N E (insert n X) =
    (ready_after N E X - {n}) \<union> {c \<in> N. c \<in> set (children_of E n) \<and> unmet E (insert n X) c = 0}"
proof (intro set_eqI iffI)
  fix m
  assume "m \<in> ready_after N E (insert n X)"
  then show "m \<in> (ready_after N E X - {n}) \<union> {c \<in> N. c \<in> set (children_of E n) \<and> unmet E (insert n X) c = 0}"
    by (auto simp: ready_after_def set_children_of unmet_0_iff)
next
  fix m
  assume m: "m \<in> (ready_after N E X - {n}) \<union> {c \<in> N. c \<in> set (children_of E n) \<and> unmet E (insert n X) c = 0}"
  show "m \<in> ready_after N E (insert n X)"
    using m n X by (auto simp: ready_after_def set_children_of unmet_0_iff)
qed

lemma loop_inv_step:
  assumes inv: "loop_inv N E prio ind ((p, n) # r) order"
  shows "\<exists>ind' r'. relax prio (children_of E n) ind r = Inr (ind', r')
    \<and> loop_inv N E prio ind' r' (order @ [n])"
proof -
  let ?X = "set order"
  have set_r: "insert (p, n) (set r) = (\<lambda>n. (prio_of prio n, n)) ` ready_after N E ?X"
    and ok: "ready_ok ((p, n) # r)" and X0: "\<forall>c \<in> ?X. unmet E ?X c = 0"
    and ind: "\<forall>m. om_get ind m = (if m \<in> N then Some (unmet E ?X m) else None)"
    and rest: "distinct order" "?X \<subseteq> N" "greedy N E prio order" "om_wf ind"
    using inv by (auto simp: loop_inv_def)
  have n: "n \<in> ready_after N E ?X" "p = prio_of prio n" using set_r by auto
  then have nX: "n \<notin> ?X" "n \<in> N" by (auto simp: ready_after_def)
  have okr: "ready_ok r" and min: "\<forall>x \<in> set r. (p, n) < x"
    using ok by (auto simp: ready_ok_def order_less_le simp del: less_prod_simp)
  have cnt: "\<forall>c. case om_get ind c of None \<Rightarrow> True | Some d \<Rightarrow> count_list (children_of E n) c \<le> d"
    using ind unmet_insert [OF nX(1), of E] by simp
  obtain ind' r' where relax: "relax prio (children_of E n) ind r = Inr (ind', r')"
      "ready_ok r'" "om_wf ind'"
      "\<forall>c. om_get ind' c = map_option (\<lambda>d. d - count_list (children_of E n) c) (om_get ind c)"
      "set r' = set r \<union> {(prio_of prio c, c) |c. c \<in> set (children_of E n) \<and> om_get ind' c = Some 0}"
    using relax_ok [OF cnt okr rest(4)] by blast
  have ind': "om_get ind' m = (if m \<in> N then Some (unmet E (insert n ?X) m) else None)" for m
    using relax(4) ind unmet_insert [OF nX(1), of E m] by simp
  have "(prio_of prio n, n) \<notin> set r" using min n(2) by auto
  then have "set r = (\<lambda>n. (prio_of prio n, n)) ` (ready_after N E ?X - {n})"
    using set_r n(2) by auto
  then have "set r' = (\<lambda>n. (prio_of prio n, n)) ` ready_after N E (insert n ?X)"
    unfolding relax(5) ready_after_step [OF n(1) X0] by (auto simp: ind')
  moreover have "\<forall>c \<in> insert n ?X. unmet E (insert n ?X) c = 0"
    using X0 n(1) by (auto simp: ready_after_def unmet_0_iff)
  moreover have "\<forall>m \<in> ready_after N E ?X. (prio_of prio n, n) \<le> (prio_of prio m, m)"
  proof
    fix m
    assume "m \<in> ready_after N E ?X"
    then have "(prio_of prio m, m) \<in> insert (p, n) (set r)" unfolding set_r by auto
    then show "(prio_of prio n, n) \<le> (prio_of prio m, m)"
      using min n(2) by (metis insert_iff order.refl order_less_imp_le)
  qed
  ultimately have "loop_inv N E prio ind' r' (order @ [n])"
    using relax(2,3) ind' nX rest n by (simp add: loop_inv_def greedy_snoc)
  then show ?thesis using relax(1) by blast
qed

lemma topo_loop_ok:
  assumes "loop_inv N E prio ind r order" "\<forall>n \<in> N. om_get adj n = Some (children_of E n)"
  shows "\<exists>order' ind'. topo_loop prio adj ind r order = Inr (order', ind')
    \<and> loop_inv N E prio ind' [] order'"
  using assms
proof (induction prio adj ind r order rule: topo_loop.induct)
  case (2 prio adj ind p n ready order)
  have n: "n \<in> N"
    using 2(2) by (auto simp: loop_inv_def ready_after_def set_eq_iff image_iff)
  obtain ind' r' where "relax prio (children_of E n) ind ready = Inr (ind', r')"
      "loop_inv N E prio ind' r' (order @ [n])"
    using loop_inv_step [OF 2(2)] by blast
  then show ?case using 2 n by simp
qed auto

lemma set_fold_insort: "set (fold insort_insert xs ys) = set xs \<union> set ys"
  by (induction xs arbitrary: ys) (auto simp: set_insort_insert)

lemma ready_ok_fold: "ready_ok ys \<Longrightarrow> ready_ok (fold insort_insert xs ys)"
  by (induction xs arbitrary: ys) auto

lemma loop_inv_init:
  assumes "graph_ok N E (ind, adj)"
  shows "loop_inv N E prio ind (initial_ready prio ind) []"
proof -
  have wf: "om_wf ind" and get: "\<And>n. om_get ind n = (if n \<in> N then Some (unmet E {} n) else None)"
    using assms by (auto simp: graph_ok_def)
  have mem: "(n, d) \<in> set ind \<longleftrightarrow> om_get ind n = Some d" for n d
    using om_wf_distinct [OF wf] by simp
  have "set (initial_ready prio ind) =
      {(prio_of prio n, n) |n. n \<in> N \<and> unmet E {} n = 0}"
    by (auto simp: initial_ready_def set_fold_insort mem get image_iff split: if_splits)
  also have "\<dots> = (\<lambda>n. (prio_of prio n, n)) ` ready_after N E {}"
    by (auto simp: ready_after_def unmet_0_iff)
  finally show ?thesis
    using wf get
    by (auto simp: loop_inv_def greedy_def initial_ready_def ready_ok_def intro!: ready_ok_fold [unfolded ready_ok_def])
qed

section \<open>Cycles\<close>

abbreviation edge_rel :: "service_config list \<Rightarrow> (string \<times> string) set" where
  "edge_rel ss \<equiv> {(d, n). edge ss d n}"

lemma finite_no_source_cycle:
  assumes "finite A" "A \<noteq> {}" "\<forall>n \<in> A. \<exists>d \<in> A. (d, n) \<in> r"
  shows "\<exists>y \<in> A. (y, y) \<in> (r \<inter> A \<times> A)\<^sup>+"
proof (rule ccontr)
  assume no: "\<not> ?thesis"
  have "acyclic (r \<inter> A \<times> A)"
  proof (rule acyclicI, intro allI notI)
    fix y
    assume y: "(y, y) \<in> (r \<inter> A \<times> A)\<^sup>+"
    then have "y \<in> A" by (auto dest: tranclD)
    then show False using no y by blast
  qed
  then have "wf (r \<inter> A \<times> A)" using assms(1) by (simp add: finite_acyclic_wf)
  then obtain m where "m \<in> A" "\<forall>d. (d, m) \<in> r \<inter> A \<times> A \<longrightarrow> d \<notin> A"
    using assms(2) by (metis all_not_in_conv wf_eq_minimal)
  then show False using assms(3) by blast
qed

text \<open>What the algorithm left over descends from a cycle.\<close>

lemma leftover_below_cycle:
  assumes inv: "loop_inv N E prio ind [] order" and fin: "finite N"
    and closed: "\<forall>(d, n) \<in> set E. d \<in> N" and x: "x \<in> N" "x \<notin> set order"
  shows "\<exists>y. (y, y) \<in> (set E)\<^sup>+ \<and> (y, x) \<in> (set E)\<^sup>*"
proof -
  let ?L = "N - set order"
  have pred: "\<exists>d \<in> ?L. (d, n) \<in> set E" if "n \<in> ?L" for n
  proof -
    have "ready_after N E (set order) = {}" using inv by (simp add: loop_inv_def)
    then have "\<not> (\<forall>d. (d, n) \<in> set E \<longrightarrow> d \<in> set order)" using that by (auto simp: ready_after_def)
    then show ?thesis using closed by blast
  qed
  let ?A = "{d \<in> ?L. (d, x) \<in> (set E)\<^sup>*}"
  have "\<forall>n \<in> ?A. \<exists>d \<in> ?A. (d, n) \<in> set E"
    using pred by (auto intro: converse_rtrancl_into_rtrancl)
  then obtain y where "y \<in> ?A" "(y, y) \<in> (set E \<inter> ?A \<times> ?A)\<^sup>+"
    using finite_no_source_cycle [of ?A "set E"] fin x by auto
  then show ?thesis by (auto intro: trancl_mono)
qed

lemma greedy_pred:
  assumes "greedy N E prio order" "i < length order" "(d, order ! i) \<in> set E"
  shows "\<exists>j < i. order ! j = d"
proof -
  have "d \<in> set (take i order)" using assms by (auto simp: greedy_def ready_after_def)
  then show ?thesis using assms(2) by (auto simp: in_set_conv_nth)
qed

lemma greedy_complete_acyclic:
  assumes g: "greedy N E prio order" and all: "set order = N" and d: "distinct order"
    and E: "\<forall>(d, n) \<in> set E. n \<in> N"
  shows "acyclic (set E)"
proof -
  let ?pos = "\<lambda>n. THE i. i < length order \<and> order ! i = n"
  have pos: "?pos (order ! i) = i" if "i < length order" for i
    using that d by (auto simp: nth_eq_iff_index_eq intro!: the_equality)
  have "set E \<subseteq> measure ?pos"
  proof (clarsimp)
    fix d n
    assume dn: "(d, n) \<in> set E"
    then have "n \<in> set order" using E all by blast
    then obtain i where i: "i < length order" "order ! i = n" by (auto simp: in_set_conv_nth)
    then obtain j where "j < i" "order ! j = d" using greedy_pred [OF g] dn by blast
    then show "?pos d < ?pos n" using pos [of i] pos [of j] i by auto
  qed
  then show ?thesis using wf_measure wf_subset wf_acyclic by metis
qed

section \<open>The sort as a whole\<close>

text \<open>After the edges are in, the algorithm ends in a state that satisfies the invariant.\<close>

lemma topological_sort_run:
  assumes "closed ss"
  shows "\<exists>order ind. loop_inv (names_of ss) (edge_list ss) (priorities ss) ind [] order
    \<and> topological_sort ho ss =
        (if length order = length ss then Inr order
         else Inl (ErrCycle (case ho (om_keys (filter (\<lambda>(_, d). d > 0) ind)) of n # _ \<Rightarrow> n | [] \<Rightarrow> ''unknown'')))"
proof -
  let ?names = "map sc_name ss" and ?prio = "priorities ss"
  have "graph_ok (set ?names) [] (init_nodes ss ([], []))"
    using init_nodes_ok [of "{}" "([], [])" ss] by (simp add: graph_ok_def)
  moreover have "\<forall>s \<in> set ss. set (sc_depends_on s) \<subseteq> set ?names"
    using assms by (auto simp: closed_def edge_def)
  ultimately obtain ind adj where edges: "add_edges ?names ss (init_nodes ss ([], [])) = Inr (ind, adj)"
      and ok: "graph_ok (set ?names) (edge_list ss) (ind, adj)"
    using add_edges_ok [of ?names "[]" "init_nodes ss ([], [])" ss] by auto
  obtain order ind' where "topo_loop ?prio adj ind (initial_ready ?prio ind) [] = Inr (order, ind')"
      "loop_inv (set ?names) (edge_list ss) ?prio ind' [] order"
    using topo_loop_ok [OF loop_inv_init [OF ok, of ?prio], of adj] ok by (auto simp: graph_ok_def)
  then show ?thesis
    by (intro exI [of _ order] exI [of _ ind']) (simp add: topological_sort_def edges Let_def)
qed

lemma topological_sort_closed: "topological_sort ho ss = Inr order \<Longrightarrow> closed ss"
proof -
  assume "topological_sort ho ss = Inr order"
  then obtain g where "add_edges (map sc_name ss) ss (init_nodes ss ([], [])) = Inr g"
    by (auto simp: topological_sort_def Let_def res_bind_Inr_iff)
  from add_edges_Inr [OF this] show ?thesis unfolding closed_def edge_def by blast
qed

lemma edge_names: "edge ss d n \<Longrightarrow> n \<in> names_of ss"
  by (auto simp: edge_def)

lemma topological_sort_Inr:
  assumes "topological_sort ho ss = Inr order"
  shows "distinct order" "set order = names_of ss" "length order = length ss"
    "greedy (names_of ss) (edge_list ss) (priorities ss) order"
proof -
  obtain order' ind where inv: "loop_inv (names_of ss) (edge_list ss) (priorities ss) ind [] order'"
      and run: "topological_sort ho ss = (if length order' = length ss then Inr order'
         else Inl (ErrCycle (case ho (om_keys (filter (\<lambda>(_, d). d > 0) ind)) of n # _ \<Rightarrow> n | [] \<Rightarrow> ''unknown'')))"
    using topological_sort_run [OF topological_sort_closed [OF assms], of ho] by blast
  then have order: "order' = order" and len: "length order = length ss"
    using assms by (auto split: if_splits)
  show "distinct order" "length order = length ss"
    "greedy (names_of ss) (edge_list ss) (priorities ss) order"
    using inv order len by (auto simp: loop_inv_def)
  have "set order \<subseteq> names_of ss" "distinct order" using inv order by (auto simp: loop_inv_def)
  moreover have "card (names_of ss) \<le> card (set order)"
    using len distinct_card [OF \<open>distinct order\<close>] card_length [of "map sc_name ss"] by simp
  ultimately show "set order = names_of ss" by (simp add: card_seteq)
qed

definition before :: "'a list \<Rightarrow> 'a \<Rightarrow> 'a \<Rightarrow> bool" where
  "before xs a b = (\<exists>us vs ws. xs = us @ a # vs @ b # ws)"

lemma before_nth: "i < j \<Longrightarrow> j < length xs \<Longrightarrow> before xs (xs ! i) (xs ! j)"
proof -
  assume ij: "i < j" "j < length xs"
  have "xs = take i xs @ xs ! i # take (j - Suc i) (drop (Suc i) xs) @ xs ! j # drop (Suc j) xs"
    using ij by (metis Cons_nth_drop_Suc Suc_leI add.commute append_take_drop_id drop_drop
        le_add_diff_inverse2 less_trans)
  then show ?thesis unfolding before_def by blast
qed

lemma before_rev: "before (rev xs) a b \<longleftrightarrow> before xs b a"
proof -
  have "before ys b a" if "before (rev ys) a b" for ys :: "'a list" and a b
  proof -
    obtain us vs ws where "rev ys = us @ a # vs @ b # ws" using \<open>before (rev ys) a b\<close> unfolding before_def by blast
    then have "ys = rev ws @ b # rev vs @ a # rev us" by (simp add: rev_swap)
    then show ?thesis unfolding before_def by blast
  qed
  from this [of "xs" a b] this [of "rev xs" b a] show ?thesis by auto
qed

lemma before_filter: "before xs a b \<Longrightarrow> p a \<Longrightarrow> p b \<Longrightarrow> before (filter p xs) a b"
  unfolding before_def by auto blast

lemma topological_sort_deps_first:
  assumes "topological_sort ho ss = Inr order" "edge ss d n"
  shows "before order d n"
proof -
  note o = topological_sort_Inr [OF assms(1)]
  obtain i where i: "i < length order" "order ! i = n"
    using o(2) edge_names [OF assms(2)] by (metis in_set_conv_nth)
  moreover obtain j where "j < i" "order ! j = d"
    using greedy_pred [OF o(4) i(1)] i(2) assms(2) by (auto simp: edge_list_edge)
  ultimately show ?thesis using before_nth [of j i order] by simp
qed

lemma topological_sort_ok_iff:
  assumes "closed ss"
  shows "(\<exists>order. topological_sort ho ss = Inr order) \<longleftrightarrow>
    distinct (map sc_name ss) \<and> acyclic (edge_rel ss)"
proof
  have E: "edge_rel ss = set (edge_list ss)" by (auto simp: edge_list_edge)
  {
    assume "\<exists>order. topological_sort ho ss = Inr order"
    then obtain order where order: "topological_sort ho ss = Inr order" by blast
    note o = topological_sort_Inr [OF order]
    have "acyclic (set (edge_list ss))"
      by (rule greedy_complete_acyclic [OF o(4) o(2) o(1)])
        (use edge_names in \<open>auto simp: edge_list_edge simp del: set_map\<close>)
    moreover have "distinct (map sc_name ss)"
      using o(1-3) by (metis card_distinct distinct_card length_map)
    ultimately show "distinct (map sc_name ss) \<and> acyclic (edge_rel ss)" using E by simp
  }
  assume a: "distinct (map sc_name ss) \<and> acyclic (edge_rel ss)"
  obtain order ind where inv: "loop_inv (names_of ss) (edge_list ss) (priorities ss) ind [] order"
      and run: "topological_sort ho ss = (if length order = length ss then Inr order
         else Inl (ErrCycle (case ho (om_keys (filter (\<lambda>(_, d). d > 0) ind)) of n # _ \<Rightarrow> n | [] \<Rightarrow> ''unknown'')))"
    using topological_sort_run [OF assms, of ho] by blast
  have "names_of ss \<subseteq> set order"
  proof
    fix x
    assume x: "x \<in> names_of ss"
    have "\<forall>(d, n) \<in> set (edge_list ss). d \<in> names_of ss"
      using assms unfolding closed_def edge_list_edge [symmetric] by blast
    then show "x \<in> set order"
      using leftover_below_cycle [OF inv, of x] x a E by (auto simp: acyclic_def)
  qed
  then have "set order = names_of ss" "distinct order" using inv by (auto simp: loop_inv_def)
  then have "length order = length ss"
    using a by (metis distinct_card length_map)
  then show "\<exists>order. topological_sort ho ss = Inr order" using run by simp
qed

text \<open>The two error results, and no other error: in particular no panic.\<close>

lemma topological_sort_Inl:
  assumes err: "topological_sort ho ss = Inl e" and ho: "\<And>xs. set (ho xs) = set xs"
    and d: "distinct (map sc_name ss)"
  shows "(\<exists>s \<in> set ss. \<exists>d \<in> set (sc_depends_on s). d \<notin> names_of ss
            \<and> e = svc_err (sc_name s) (''unknown dependency '' @ quoted d))
       \<or> (\<exists>x y. e = ErrCycle x \<and> x \<in> names_of ss
            \<and> (y, y) \<in> (edge_rel ss)\<^sup>+ \<and> (y, x) \<in> (edge_rel ss)\<^sup>*)"
proof (cases "closed ss")
  case False
  then obtain s dep where "s \<in> set ss" "dep \<in> set (sc_depends_on s)" "dep \<notin> names_of ss"
    by (auto simp: closed_def edge_def)
  then have "\<not> (\<exists>g. add_edges (map sc_name ss) ss (init_nodes ss ([], [])) = Inr g)"
    using add_edges_Inr by blast
  then obtain e' where e': "add_edges (map sc_name ss) ss (init_nodes ss ([], [])) = Inl e'"
    by (meson sum.exhaust)
  then have "e' = e" using err by (simp add: topological_sort_def)
  then show ?thesis using add_edges_unknown [OF e'] by blast
next
  case True
  obtain order ind where inv: "loop_inv (names_of ss) (edge_list ss) (priorities ss) ind [] order"
      and run: "topological_sort ho ss = (if length order = length ss then Inr order
         else Inl (ErrCycle (case ho (om_keys (filter (\<lambda>(_, d). d > 0) ind)) of n # _ \<Rightarrow> n | [] \<Rightarrow> ''unknown'')))"
    using topological_sort_run [OF True, of ho] by blast
  let ?left = "om_keys (filter (\<lambda>(_, d). d > 0) ind)"
  have wf: "om_wf ind" and get: "\<And>n. om_get ind n = (if n \<in> names_of ss
      then Some (unmet (edge_list ss) (set order) n) else None)"
    and X0: "\<forall>n \<in> set order. unmet (edge_list ss) (set order) n = 0"
    and ord: "set order \<subseteq> names_of ss" "distinct order"
    using inv by (auto simp: loop_inv_def)
  have mem: "(n, k) \<in> set ind \<longleftrightarrow> om_get ind n = Some k" for n k
    using om_wf_distinct [OF wf] by simp
  have left: "set ?left = {n \<in> names_of ss. 0 < unmet (edge_list ss) (set order) n}"
    by (force simp: mem get split: if_splits)
  have ne: "length order \<noteq> length ss" using err run by (auto split: if_splits)
  then have "set order \<noteq> names_of ss"
    using d ord by (metis distinct_card length_map)
  then obtain m where m: "m \<in> names_of ss" "m \<notin> set order" using ord by auto
  have "ready_after (names_of ss) (edge_list ss) (set order) = {}" using inv by (simp add: loop_inv_def)
  then have "m \<in> set ?left" unfolding left using m by (auto simp: ready_after_def unmet_0_iff neq0_conv [symmetric] simp del: neq0_conv)
  then obtain x xs where hx: "ho ?left = x # xs" using ho [of ?left] by (cases "ho ?left") auto
  then have "x \<in> set ?left" using ho [of ?left] by auto
  then have x: "x \<in> names_of ss" "x \<notin> set order" using left X0 by auto
  have cl: "\<forall>(d, n) \<in> set (edge_list ss). d \<in> names_of ss"
    using True unfolding closed_def edge_list_edge [symmetric] by blast
  have E: "edge_rel ss = set (edge_list ss)" by (auto simp: edge_list_edge)
  have "e = ErrCycle x" using err run ne hx by simp
  then show ?thesis
    using leftover_below_cycle [OF inv _ cl x] x E by auto
qed

section \<open>Boot and shutdown orders\<close>

text \<open>
  What the clients of the sort rely on: each service once, dependencies first. Boot takes a
  sublist of the order, shutdown its reverse.
\<close>

locale dependency_sort =
  fixes sort_services :: "service_config list \<Rightarrow> string list res"
  assumes once: "sort_services ss = Inr order \<Longrightarrow> distinct order \<and> set order = names_of ss"
    and deps_first: "sort_services ss = Inr order \<Longrightarrow> edge ss d n \<Longrightarrow> before order d n"
begin

lemma selected_deps_first:
  "sort_services ss = Inr order \<Longrightarrow> edge ss d n \<Longrightarrow> p d \<Longrightarrow> p n \<Longrightarrow> before (filter p order) d n"
  using deps_first before_filter by metis

lemma selected_once:
  "sort_services ss = Inr order \<Longrightarrow> distinct (filter p order) \<and> set (filter p order) = {n \<in> names_of ss. p n}"
  using once by auto

lemma reverse_dependants_first:
  "sort_services ss = Inr order \<Longrightarrow> edge ss d n \<Longrightarrow> before (rev order) n d"
  using deps_first before_rev by metis

lemma reverse_once:
  "sort_services ss = Inr order \<Longrightarrow> distinct (rev order) \<and> set (rev order) = names_of ss"
  using once by simp

end

interpretation topo: dependency_sort "topological_sort ho"
  by unfold_locales (simp_all add: topological_sort_Inr topological_sort_deps_first)

definition boots_foreground :: "service_config list \<Rightarrow> string \<Rightarrow> bool" where
  "boots_foreground ss n =
     (case om_get (by_name ss) n of None \<Rightarrow> False | Some s \<Rightarrow> sc_enabled s \<and> \<not> sc_background s)"

definition boots_background :: "service_config list \<Rightarrow> string \<Rightarrow> bool" where
  "boots_background ss n =
     (case om_get (by_name ss) n of None \<Rightarrow> False | Some s \<Rightarrow> sc_enabled s \<and> sc_background s)"

lemma partition_names_filter:
  "partition_names (by_name ss) ns = (filter (boots_foreground ss) ns, filter (boots_background ss) ns)"
  by (induction ns)
    (auto simp: boots_foreground_def boots_background_def Let_def split: option.splits prod.splits)

lemma by_name_distinct:
  assumes "distinct (map sc_name ss)"
  shows "om_get (by_name ss) n = Some s \<longleftrightarrow> s \<in> set ss \<and> sc_name s = n"
proof -
  have "om_get (by_name ss) n = map_of (rev (map (\<lambda>s. (sc_name s, s)) ss)) n"
    by (simp add: by_name_def om_get_of_list)
  also have "\<dots> = Some s \<longleftrightarrow> (n, s) \<in> set (rev (map (\<lambda>s. (sc_name s, s)) ss))"
    using assms by (intro map_of_eq_Some_iff) (simp add: comp_def rev_map [symmetric])
  finally show ?thesis by auto
qed

lemma boots_iff:
  assumes "distinct (map sc_name ss)"
  shows "boots_foreground ss n \<longleftrightarrow> (\<exists>s \<in> set ss. sc_name s = n \<and> sc_enabled s \<and> \<not> sc_background s)"
    and "boots_background ss n \<longleftrightarrow> (\<exists>s \<in> set ss. sc_name s = n \<and> sc_enabled s \<and> sc_background s)"
proof (atomize (full), cases "om_get (by_name ss) n")
  case None
  then have "\<not> (\<exists>s \<in> set ss. sc_name s = n)" using by_name_distinct [OF assms, of n] by auto
  then show "(boots_foreground ss n \<longleftrightarrow> (\<exists>s \<in> set ss. sc_name s = n \<and> sc_enabled s \<and> \<not> sc_background s))
      \<and> (boots_background ss n \<longleftrightarrow> (\<exists>s \<in> set ss. sc_name s = n \<and> sc_enabled s \<and> sc_background s))"
    using None by (auto simp: boots_foreground_def boots_background_def)
next
  case (Some t)
  then have "t \<in> set ss \<and> sc_name t = n" "\<forall>s \<in> set ss. sc_name s = n \<longrightarrow> s = t"
    using by_name_distinct [OF assms, of n] by (blast, metis option.inject)
  then show "(boots_foreground ss n \<longleftrightarrow> (\<exists>s \<in> set ss. sc_name s = n \<and> sc_enabled s \<and> \<not> sc_background s))
      \<and> (boots_background ss n \<longleftrightarrow> (\<exists>s \<in> set ss. sc_name s = n \<and> sc_enabled s \<and> sc_background s))"
    unfolding boots_foreground_def boots_background_def Some option.case by blast
qed

lemma partition_boot_Inr:
  "partition_boot ho ss = Inr (fg, bg) \<longleftrightarrow>
   (\<exists>order. topological_sort ho ss = Inr order
      \<and> fg = filter (boots_foreground ss) order \<and> bg = filter (boots_background ss) order)"
  by (auto simp: partition_boot_def res_bind_Inr_iff partition_names_filter)

section \<open>Properties\<close>

text \<open>
  C3: a successful sort lists every configured service exactly once, and every service comes after
  all services it depends on.
\<close>

theorem sort_sound:
  assumes "topological_sort ho ss = Inr order"
  shows "distinct order \<and> set order = set (map sc_name ss)
    \<and> (\<forall>s \<in> set ss. \<forall>d \<in> set (sc_depends_on s). before order d (sc_name s))"
  using topo.once [OF assms] topo.deps_first [OF assms] by (auto simp: edge_def)

definition demo_services :: "service_config list" where
  "demo_services =
     [(default_service_config ''web'')\<lparr>sc_depends_on := [''db'', ''net''], sc_background := True\<rparr>,
      (default_service_config ''db'')\<lparr>sc_depends_on := [''net'']\<rparr>,
      (default_service_config ''log'')\<lparr>sc_order_priority := 200\<rparr>,
      (default_service_config ''net'')\<lparr>sc_enabled := True\<rparr>]"

lemma demo_order: "topological_sort id demo_services = Inr [''net'', ''db'', ''web'', ''log'']"
  by code_simp

theorem sort_sound_witness:
  "distinct [''net'', ''db'', ''web'', ''log''] \<and> before [''net'', ''db'', ''web'', ''log''] ''db'' ''web''"
  using sort_sound [OF demo_order] by (simp add: demo_services_def default_service_config_def)

text \<open>
  C16: when every dependency names a configured service, the sort succeeds exactly if the names are
  distinct and the dependency relation has no cycle. The sort is a total function, so it always
  returns.
\<close>

theorem sort_succeeds_iff_acyclic:
  assumes "\<forall>s \<in> set ss. set (sc_depends_on s) \<subseteq> set (map sc_name ss)"
  shows "(\<exists>order. topological_sort ho ss = Inr order) \<longleftrightarrow>
    distinct (map sc_name ss) \<and> acyclic {(d, n). edge ss d n}"
proof (rule topological_sort_ok_iff)
  show "closed ss" using assms unfolding closed_def edge_def by blast
qed

theorem sort_succeeds_iff_acyclic_witness:
  "distinct (map sc_name demo_services) \<and> acyclic {(d, n). edge demo_services d n}"
proof -
  have "\<forall>s \<in> set demo_services. set (sc_depends_on s) \<subseteq> set (map sc_name demo_services)"
    by (simp add: demo_services_def default_service_config_def)
  from sort_succeeds_iff_acyclic [OF this, of id] show ?thesis using demo_order by blast
qed

text \<open>
  The order is the greedy one. At every position stands the smallest \<open>(orderPriority, name)\<close>
  among the services that are not ordered yet and whose dependencies all are, so the result does
  not depend on the order of the services in the file or on the hash order.
\<close>

theorem sort_is_greedy:
  assumes "topological_sort ho ss = Inr order" "i < length order"
  defines "ready \<equiv> {n \<in> set (map sc_name ss). n \<notin> set (take i order)
                     \<and> (\<forall>d. edge ss d n \<longrightarrow> d \<in> set (take i order))}"
  shows "order ! i \<in> ready
    \<and> (\<forall>m \<in> ready. (prio_of (priorities ss) (order ! i), order ! i) \<le> (prio_of (priorities ss) m, m))"
proof -
  have "ready = ready_after (names_of ss) (edge_list ss) (set (take i order))"
    by (simp add: ready_def ready_after_def edge_list_edge)
  then show ?thesis using topological_sort_Inr(4) [OF assms(1)] assms(2) by (simp add: greedy_def)
qed

theorem sort_is_greedy_witness:
  "(prio_of (priorities demo_services) ''net'', ''net'') \<le> (prio_of (priorities demo_services) ''log'', ''log'')"
proof -
  have "\<not> edge demo_services d ''log''" for d
    by (auto simp: edge_def demo_services_def default_service_config_def)
  moreover have "''log'' \<in> set (map sc_name demo_services)"
    by (simp add: demo_services_def default_service_config_def)
  ultimately show ?thesis
    using sort_is_greedy [OF demo_order, of 0] by (simp del: set_map less_eq_prod_simp)
qed

text \<open>
  With distinct names the sort fails only in the two documented ways and never by the checked
  subtraction: it names a dependency that is not configured, or it names a configured service that
  is on a cycle or depends, directly or not, on a service of a cycle.
\<close>

theorem sort_errors:
  assumes "topological_sort ho ss = Inl e" "\<And>xs. set (ho xs) = set xs" "distinct (map sc_name ss)"
  shows "(\<exists>s \<in> set ss. \<exists>d \<in> set (sc_depends_on s). d \<notin> set (map sc_name ss)
            \<and> e = svc_err (sc_name s) (''unknown dependency '' @ quoted d))
       \<or> (\<exists>x y. e = ErrCycle x \<and> x \<in> set (map sc_name ss)
            \<and> (y, y) \<in> {(d, n). edge ss d n}\<^sup>+ \<and> (y, x) \<in> {(d, n). edge ss d n}\<^sup>*)"
  using topological_sort_Inl assms by blast

definition cyclic_services :: "service_config list" where
  "cyclic_services =
     [(default_service_config ''a'')\<lparr>sc_depends_on := [''b'']\<rparr>,
      (default_service_config ''b'')\<lparr>sc_depends_on := [''a'']\<rparr>,
      (default_service_config ''c'')\<lparr>sc_depends_on := [''a'']\<rparr>]"

lemma cyclic_order: "topological_sort id cyclic_services = Inl (ErrCycle ''a'')"
  by code_simp

theorem sort_errors_witness:
  "\<exists>x y. ErrCycle ''a'' = ErrCycle x
     \<and> (y, y) \<in> {(d, n). edge cyclic_services d n}\<^sup>+ \<and> (y, x) \<in> {(d, n). edge cyclic_services d n}\<^sup>*"
proof -
  have "distinct (map sc_name cyclic_services)"
    by (simp add: cyclic_services_def default_service_config_def)
  from sort_errors [OF cyclic_order _ this] show ?thesis by auto
qed

text \<open>
  The service a cycle error names need not lie on a cycle. Here \<open>c\<close> only depends on the cycle
  \<open>a\<close>, \<open>b\<close>, nothing depends on \<open>c\<close>, and the error names \<open>c\<close> when the hash order puts it first.
\<close>

theorem cycle_error_names_bystander:
  "topological_sort rev cyclic_services = Inl (ErrCycle ''c'')
   \<and> (''c'', ''c'') \<notin> {(d, n). edge cyclic_services d n}\<^sup>+"
proof
  show "topological_sort rev cyclic_services = Inl (ErrCycle ''c'')"
    by code_simp
  have "\<not> edge cyclic_services ''c'' n" for n
    by (auto simp: edge_def cyclic_services_def default_service_config_def)
  then show "(''c'', ''c'') \<notin> {(d, n). edge cyclic_services d n}\<^sup>+"
    by (auto dest: tranclD)
qed

text \<open>
  Boot starts exactly the enabled services, each in one of the two lists according to
  \<open>background\<close>, and within each list dependencies come first.
\<close>

theorem partition_boot_correct:
  assumes "partition_boot ho ss = Inr (fg, bg)"
  shows "set fg = {sc_name s |s. s \<in> set ss \<and> sc_enabled s \<and> \<not> sc_background s}
    \<and> set bg = {sc_name s |s. s \<in> set ss \<and> sc_enabled s \<and> sc_background s}
    \<and> distinct (fg @ bg)
    \<and> (\<forall>d n. edge ss d n \<longrightarrow> (d \<in> set fg \<and> n \<in> set fg \<longrightarrow> before fg d n)
          \<and> (d \<in> set bg \<and> n \<in> set bg \<longrightarrow> before bg d n))"
proof -
  obtain order where order: "topological_sort ho ss = Inr order"
      and lists: "fg = filter (boots_foreground ss) order" "bg = filter (boots_background ss) order"
    using assms by (auto simp: partition_boot_Inr)
  have d: "distinct (map sc_name ss)"
    using topological_sort_ok_iff [OF topological_sort_closed [OF order], of ho] order by blast
  note o = topo.once [OF order]
  have "set fg = {n \<in> names_of ss. boots_foreground ss n}" "set bg = {n \<in> names_of ss. boots_background ss n}"
    using topo.selected_once [OF order] lists by simp_all
  moreover have "distinct (fg @ bg)"
    using o lists by (auto simp: boots_foreground_def boots_background_def split: option.splits)
  moreover have "before fg d n" if "edge ss d n" "d \<in> set fg" "n \<in> set fg" for d n
    using topo.selected_deps_first [OF order that(1)] that lists by auto
  moreover have "before bg d n" if "edge ss d n" "d \<in> set bg" "n \<in> set bg" for d n
    using topo.selected_deps_first [OF order that(1)] that lists by auto
  ultimately show ?thesis unfolding boots_iff [OF d] by auto
qed

theorem partition_boot_correct_witness:
  "distinct ([''net'', ''db'', ''log''] @ [''web''])
   \<and> before [''net'', ''db'', ''log''] ''net'' ''db''"
proof -
  have "partition_boot id demo_services = Inr ([''net'', ''db'', ''log''], [''web''])"
    by code_simp
  note c = partition_boot_correct [OF this]
  have "edge demo_services ''net'' ''db''"
    by (simp add: edge_def demo_services_def default_service_config_def)
  then have "before [''net'', ''db'', ''log''] ''net'' ''db''" using c by simp
  then show ?thesis using c by blast
qed



end
