(* ===== verification/Runtime.thy ===== *)
theory Runtime
  imports Graph Ring_Spec
begin

text \<open>
  The runtime record of a service and the operations of \<open>Shared\<close> on the map of all records
  (\<open>src/src/supervisor.rs\<close>). Each definition is one critical section of the \<open>runtimes\<close> mutex; \<open>now\<close> is the value of
  \<open>Instant::now()\<close> in milliseconds, \<open>utc\<close> that of \<open>Utc::now()\<close>.
\<close>

section \<open>Events\<close>

record runtime_event =
  ev_ts :: int
  ev_kind :: event_kind
  ev_from :: "service_state option"
  ev_to :: "service_state option"
  ev_detail :: "string option"

definition to_protocol :: "(int \<Rightarrow> string) \<Rightarrow> runtime_event \<Rightarrow> service_event" where
  "to_protocol fmt ev =
     \<lparr>se_ts = fmt (ev_ts ev), se_kind = ev_kind ev, se_from = ev_from ev, se_to = ev_to ev, se_detail = ev_detail ev\<rparr>"

record runtime =
  rt_state :: service_state
  rt_pid :: "i32 option"
  rt_restarts :: u32
  rt_liveness_failures :: u32
  rt_enabled :: bool
  rt_running_since :: "millis option"
  rt_events :: "runtime_event list"

type_synonym runtimes = "(string, runtime) omap"

definition new_runtime :: "bool \<Rightarrow> runtime" where
  "new_runtime enabled =
     \<lparr>rt_state = (if enabled then Pending else Disabled), rt_pid = None, rt_restarts = 0,
      rt_liveness_failures = 0, rt_enabled = enabled, rt_running_since = None, rt_events = []\<rparr>"

definition push_event :: "runtime \<Rightarrow> runtime_event \<Rightarrow> runtime" where
  "push_event rt ev =
     rt\<lparr>rt_events := (if length (rt_events rt) \<ge> EVENT_RING_CAP then tl (rt_events rt) else rt_events rt) @ [ev]\<rparr>"

definition push_event_into :: "int \<Rightarrow> event_kind \<Rightarrow> service_state option \<Rightarrow> service_state option \<Rightarrow> string option
    \<Rightarrow> runtime \<Rightarrow> runtime" where
  "push_event_into utc kind from to detail rt =
     push_event rt \<lparr>ev_ts = utc, ev_kind = kind, ev_from = from, ev_to = to, ev_detail = detail\<rparr>"

section \<open>Operations of Shared\<close>

definition keeps_pid :: "service_state \<Rightarrow> bool" where
  "keeps_pid s = (s = Running \<or> s = Starting \<or> s = Restarting \<or> s = WaitingForDependency)"

text \<open>The body of \<open>set_state\<close> on one record.\<close>

definition rt_set_state :: "millis \<Rightarrow> int \<Rightarrow> service_state \<Rightarrow> i32 option \<Rightarrow> runtime \<Rightarrow> runtime" where
  "rt_set_state now utc state pid rt =
     (let old = rt_state rt;
          rt1 = (if old \<noteq> state then push_event_into utc StateChange (Some old) (Some state) None rt else rt);
          rt2 = rt1\<lparr>rt_state := state\<rparr>;
          rt3 = (case pid of
                   Some p \<Rightarrow> rt2\<lparr>rt_pid := Some p\<rparr>
                 | None \<Rightarrow> if keeps_pid state then rt2 else rt2\<lparr>rt_pid := None\<rparr>)
      in if state = Running
         then (if rt_running_since rt3 = None then rt3\<lparr>rt_running_since := Some now\<rparr> else rt3)
         else rt3\<lparr>rt_running_since := None\<rparr>)"

definition update_runtime :: "string \<Rightarrow> (runtime \<Rightarrow> runtime) \<Rightarrow> runtimes \<Rightarrow> runtimes" where
  "update_runtime name f m = (case om_get m name of Some rt \<Rightarrow> om_insert name (f rt) m | None \<Rightarrow> m)"

definition set_state :: "millis \<Rightarrow> int \<Rightarrow> string \<Rightarrow> service_state \<Rightarrow> i32 option \<Rightarrow> runtimes \<Rightarrow> runtimes" where
  "set_state now utc name state pid m = update_runtime name (rt_set_state now utc state pid) m"

definition bump_restarts :: "int \<Rightarrow> string \<Rightarrow> runtimes \<Rightarrow> runtimes" where
  "bump_restarts utc name m =
     update_runtime name (\<lambda>rt. push_event_into utc RestartEvent None None None
       (rt\<lparr>rt_restarts := sat_succ (rt_restarts rt)\<rparr>)) m"

definition bump_liveness_failures :: "int \<Rightarrow> string \<Rightarrow> string option \<Rightarrow> runtimes \<Rightarrow> runtimes" where
  "bump_liveness_failures utc name detail m =
     update_runtime name (\<lambda>rt. push_event_into utc LivenessFailed None None detail
       (rt\<lparr>rt_liveness_failures := sat_succ (rt_liveness_failures rt)\<rparr>)) m"

text \<open>The first critical section of \<open>set_enabled\<close>: the flag, and the state to move to.\<close>

definition set_enabled_flag :: "string \<Rightarrow> bool \<Rightarrow> runtimes \<Rightarrow> runtimes \<times> service_state option" where
  "set_enabled_flag name enabled m =
     (case om_get m name of
        None \<Rightarrow> (m, None)
      | Some rt \<Rightarrow>
          (om_insert name (rt\<lparr>rt_enabled := enabled\<rparr>) m,
           if \<not> enabled then Some Disabled else if rt_state rt = Disabled then Some Pending else None))"

definition set_enabled :: "millis \<Rightarrow> int \<Rightarrow> string \<Rightarrow> bool \<Rightarrow> runtimes \<Rightarrow> runtimes" where
  "set_enabled now utc name enabled m =
     (let (m', next_state) = set_enabled_flag name enabled m in
      case next_state of Some st \<Rightarrow> set_state now utc name st None m' | None \<Rightarrow> m')"

definition is_enabled :: "string \<Rightarrow> runtimes \<Rightarrow> bool res" where
  "is_enabled name m = (case om_get m name of Some rt \<Rightarrow> Inr (rt_enabled rt) | None \<Rightarrow> Inl (ErrUnknownService name))"

definition current_state :: "string \<Rightarrow> runtimes \<Rightarrow> service_state option" where
  "current_state name m = map_option rt_state (om_get m name)"

definition dep_met :: "service_state \<Rightarrow> bool" where
  "dep_met s = (s = Running \<or> s = Succeeded)"

fun unmet_deps :: "string list \<Rightarrow> runtimes \<Rightarrow> string list res" where
  "unmet_deps [] m = Inr []"
| "unmet_deps (dep # deps) m =
     (case om_get m dep of
        None \<Rightarrow> Inl (ErrUnknownService dep)
      | Some rt \<Rightarrow>
          res_bind (unmet_deps deps m) (\<lambda>out. Inr (if \<not> dep_met (rt_state rt) then dep # out else out)))"

definition deps_ready :: "string list \<Rightarrow> runtimes \<Rightarrow> bool res" where
  "deps_ready deps m = res_bind (unmet_deps deps m) (\<lambda>out. Inr (out = []))"

definition settled :: "service_state \<Rightarrow> bool" where
  "settled s = (s \<in> {Running, Succeeded, Failed, Stopped, Disabled, WaitingForDependency})"

text \<open>The state \<open>wait_settled\<close> reads: a service without a record counts as failed.\<close>

definition settle_state :: "string \<Rightarrow> runtimes \<Rightarrow> service_state" where
  "settle_state name m = (case current_state name m of Some s \<Rightarrow> s | None \<Rightarrow> Failed)"

section \<open>Invariant of a runtime record\<close>

text \<open>
  The state changes that the ring still holds form a chain that ends in the current state, each to
  a different state.
\<close>

definition state_changes :: "runtime_event list \<Rightarrow> (service_state option \<times> service_state option) list" where
  "state_changes evs = map (\<lambda>e. (ev_from e, ev_to e)) (filter (\<lambda>e. ev_kind e = StateChange) evs)"

fun chain_to :: "(service_state option \<times> service_state option) list \<Rightarrow> service_state \<Rightarrow> bool" where
  "chain_to [] st = True"
| "chain_to [(f, t)] st = (f \<noteq> None \<and> f \<noteq> t \<and> t = Some st)"
| "chain_to ((f, t) # (f', t') # cs) st = (f \<noteq> None \<and> f \<noteq> t \<and> t = f' \<and> chain_to ((f', t') # cs) st)"

definition rt_ok :: "runtime \<Rightarrow> bool" where
  "rt_ok rt =
     (length (rt_events rt) \<le> EVENT_RING_CAP
      \<and> (rt_running_since rt \<noteq> None \<longleftrightarrow> rt_state rt = Running)
      \<and> (rt_pid rt \<noteq> None \<longrightarrow> keeps_pid (rt_state rt))
      \<and> chain_to (state_changes (rt_events rt)) (rt_state rt))"

definition rts_ok :: "runtimes \<Rightarrow> bool" where
  "rts_ok m = (om_wf m \<and> (\<forall>n rt. om_get m n = Some rt \<longrightarrow> rt_ok rt))"

lemma chain_to_tl: "chain_to cs st \<Longrightarrow> chain_to (tl cs) st"
  by (induction cs st rule: chain_to.induct) auto

lemma chain_to_snoc: "chain_to cs st \<Longrightarrow> st \<noteq> st' \<Longrightarrow> chain_to (cs @ [(Some st, Some st')]) st'"
  by (induction cs st rule: chain_to.induct) auto

lemma state_changes_tl: "state_changes (tl evs) = (if evs \<noteq> [] \<and> ev_kind (hd evs) = StateChange
    then tl (state_changes evs) else state_changes evs)"
  by (cases evs) (auto simp: state_changes_def)

lemma state_changes_snoc: "state_changes (evs @ [e]) = state_changes evs @
    (if ev_kind e = StateChange then [(ev_from e, ev_to e)] else [])"
  by (simp add: state_changes_def)

lemma chain_popped:
  "chain_to (state_changes evs) st \<Longrightarrow>
   chain_to (state_changes (if length evs \<ge> EVENT_RING_CAP then tl evs else evs)) st"
  by (simp add: state_changes_tl chain_to_tl)

interpretation event_ring: bounded_ring push_event rt_events "\<lambda>_. EVENT_RING_CAP"
  "\<lambda>rt :: runtime. length (rt_events rt) \<le> EVENT_RING_CAP"
proof unfold_locales
  fix rt :: runtime and ev
  assume "length (rt_events rt) \<le> EVENT_RING_CAP"
  then show "rt_events (push_event rt ev) = last_n EVENT_RING_CAP (rt_events rt @ [ev])"
    by (cases "rt_events rt") (auto simp: push_event_def last_n_def EVENT_RING_CAP_def)
qed (auto simp: push_event_def EVENT_RING_CAP_def)

lemma push_event_fields [frame_simps]:
  "rt_state (push_event_into utc k f t d rt) = rt_state rt"
  "rt_pid (push_event_into utc k f t d rt) = rt_pid rt"
  "rt_restarts (push_event_into utc k f t d rt) = rt_restarts rt"
  "rt_liveness_failures (push_event_into utc k f t d rt) = rt_liveness_failures rt"
  "rt_enabled (push_event_into utc k f t d rt) = rt_enabled rt"
  "rt_running_since (push_event_into utc k f t d rt) = rt_running_since rt"
  by (simp_all add: push_event_into_def push_event_def)

lemma push_event_length: "length (rt_events rt) \<le> EVENT_RING_CAP \<Longrightarrow>
    length (rt_events (push_event_into utc k f t d rt)) \<le> EVENT_RING_CAP"
  unfolding push_event_into_def by (rule event_ring.ok_push)

lemma push_event_chain:
  assumes "chain_to (state_changes (rt_events rt)) st"
  shows "k \<noteq> StateChange \<Longrightarrow> chain_to (state_changes (rt_events (push_event_into utc k f t d rt))) st"
    and "st \<noteq> st' \<Longrightarrow>
      chain_to (state_changes (rt_events (push_event_into utc StateChange (Some st) (Some st') d rt))) st'"
  using chain_popped [OF assms]
  by (simp_all add: push_event_into_def push_event_def state_changes_snoc chain_to_snoc)

lemma new_runtime_ok [inv_intros]: "rt_ok (new_runtime enabled)"
  by (simp add: rt_ok_def new_runtime_def state_changes_def)

lemma rt_set_state_fields [frame_simps]:
  "rt_state (rt_set_state now utc st pid rt) = st"
  "rt_restarts (rt_set_state now utc st pid rt) = rt_restarts rt"
  "rt_liveness_failures (rt_set_state now utc st pid rt) = rt_liveness_failures rt"
  "rt_enabled (rt_set_state now utc st pid rt) = rt_enabled rt"
  "rt_pid (rt_set_state now utc st pid rt) = (case pid of Some p \<Rightarrow> Some p | None \<Rightarrow> if keeps_pid st then rt_pid rt else None)"
  "rt_events (rt_set_state now utc st pid rt) = (if rt_state rt = st then rt_events rt
     else rt_events (push_event_into utc StateChange (Some (rt_state rt)) (Some st) None rt))"
  "rt_running_since (rt_set_state now utc st pid rt) =
     (if st = Running then (case rt_running_since rt of None \<Rightarrow> Some now | Some t \<Rightarrow> Some t) else None)"
  by (auto simp: rt_set_state_def Let_def push_event_fields split: option.split)

lemma rt_set_state_ok [inv_intros]:
  assumes "rt_ok rt" "pid \<noteq> None \<longrightarrow> keeps_pid st"
  shows "rt_ok (rt_set_state now utc st pid rt)"
proof -
  have "length (rt_events (rt_set_state now utc st pid rt)) \<le> EVENT_RING_CAP"
    using assms(1) by (simp add: frame_simps rt_ok_def push_event_length)
  moreover have "chain_to (state_changes (rt_events (rt_set_state now utc st pid rt))) st"
    using assms(1) push_event_chain(2) [of rt "rt_state rt" st utc None]
    by (auto simp: frame_simps rt_ok_def)
  ultimately show ?thesis
    using assms by (auto simp: rt_ok_def frame_simps split: option.split)
qed

lemma get_update_runtime [map_simps]:
  "om_get (update_runtime name f m) n = (if n = name then map_option f (om_get m n) else om_get m n)"
  by (auto simp: update_runtime_def split: option.split)

lemma update_runtime_keys [simp]: "set (om_keys (update_runtime name f m)) = set (om_keys m)"
proof (cases "om_get m name")
  case (Some rt)
  then have "name \<in> set (om_keys m)" by (metis map_of_eq_None_iff option.distinct(1) set_map)
  then show ?thesis using Some by (simp add: update_runtime_def insert_absorb del: set_map)
qed (simp add: update_runtime_def)

lemma update_runtime_ok:
  assumes "rts_ok m" "\<And>rt. rt_ok rt \<Longrightarrow> rt_ok (f rt)"
  shows "rts_ok (update_runtime name f m)"
proof -
  have "om_wf (update_runtime name f m)"
    using assms(1) by (simp add: rts_ok_def update_runtime_def split: option.split)
  then show ?thesis using assms by (auto simp: rts_ok_def map_simps split: if_splits)
qed

lemma set_state_ok [inv_intros]:
  "rts_ok m \<Longrightarrow> pid \<noteq> None \<longrightarrow> keeps_pid st \<Longrightarrow> rts_ok (set_state now utc name st pid m)"
  unfolding set_state_def by (rule update_runtime_ok) (simp_all add: rt_set_state_ok)

lemma rt_ok_push:
  "rt_ok rt \<Longrightarrow> k \<noteq> StateChange \<Longrightarrow> rt_ok (push_event_into utc k f t d rt)"
  unfolding rt_ok_def by (simp add: push_event_fields push_event_length push_event_chain)

lemma rt_ok_counters: "rt_ok rt \<Longrightarrow> rt_ok (rt\<lparr>rt_restarts := n\<rparr>)" "rt_ok rt \<Longrightarrow> rt_ok (rt\<lparr>rt_liveness_failures := n\<rparr>)"
  "rt_ok rt \<Longrightarrow> rt_ok (rt\<lparr>rt_enabled := b\<rparr>)"
  by (simp_all add: rt_ok_def)

lemma bump_restarts_ok [inv_intros]: "rts_ok m \<Longrightarrow> rts_ok (bump_restarts utc name m)"
  unfolding bump_restarts_def by (rule update_runtime_ok) (auto intro: rt_ok_push rt_ok_counters)

lemma bump_liveness_failures_ok [inv_intros]: "rts_ok m \<Longrightarrow> rts_ok (bump_liveness_failures utc name d m)"
  unfolding bump_liveness_failures_def by (rule update_runtime_ok) (auto intro: rt_ok_push rt_ok_counters)

lemma set_enabled_flag_ok [inv_intros]: "rts_ok m \<Longrightarrow> rts_ok (fst (set_enabled_flag name enabled m))"
  using rt_ok_counters(3) by (auto simp: set_enabled_flag_def rts_ok_def split: option.split)

lemma set_enabled_ok [inv_intros]: "rts_ok m \<Longrightarrow> rts_ok (set_enabled now utc name enabled m)"
  using set_enabled_flag_ok [of m name enabled]
  by (auto simp: set_enabled_def split_beta Let_def inv_intros split: option.split)

lemma rts_ok_insert_new [inv_intros]: "rts_ok m \<Longrightarrow> rts_ok (om_insert name (new_runtime enabled) m)"
  using new_runtime_ok by (auto simp: rts_ok_def)

lemma rts_ok_remove [inv_intros]: "rts_ok m \<Longrightarrow> rts_ok (om_remove name m)"
  by (auto simp: rts_ok_def om_get_remove)

text \<open>The unmet dependencies are those without state running or succeeded; a missing record is an error.\<close>

lemma unmet_deps_Inr:
  "unmet_deps deps m = Inr out \<longleftrightarrow>
   (\<forall>d \<in> set deps. om_get m d \<noteq> None)
   \<and> out = filter (\<lambda>d. \<not> (\<exists>st. current_state d m = Some st \<and> dep_met st)) deps"
  by (induction deps arbitrary: out) (auto simp: res_bind_Inr_iff current_state_def split: option.splits)

lemma deps_ready_iff:
  "deps_ready deps m = Inr True \<longleftrightarrow> (\<forall>d \<in> set deps. \<exists>st. current_state d m = Some st \<and> dep_met st)"
proof
  assume "deps_ready deps m = Inr True"
  then show "\<forall>d \<in> set deps. \<exists>st. current_state d m = Some st \<and> dep_met st"
    by (auto simp: deps_ready_def res_bind_Inr_iff unmet_deps_Inr filter_empty_conv)
next
  assume a: "\<forall>d \<in> set deps. \<exists>st. current_state d m = Some st \<and> dep_met st"
  then have "unmet_deps deps m = Inr []"
    by (auto simp: unmet_deps_Inr current_state_def filter_empty_conv)
  then show "deps_ready deps m = Inr True" by (simp add: deps_ready_def)
qed

end
