(* ===== verification/Reaper.thy ===== *)
theory Reaper
  imports Errors
begin

text \<open>
  The central exit registry (\<open>src/src/reaper.rs\<close>): exit codes by pid, published by the reaper and taken by the
  monitors. The registry is bounded; \<open>victim\<close> is the key that the iteration of the \<open>HashMap\<close> gives first. The waiting
  operation \<open>wait_take\<close> needs the clock and is defined with it in \<open>World\<close>.
\<close>

type_synonym exits = "(i32, i32) omap"

definition exits_publish :: "(i32 list \<Rightarrow> i32) \<Rightarrow> i32 \<Rightarrow> i32 \<Rightarrow> exits \<Rightarrow> exits" where
  "exits_publish victim pid code m =
     (let m' = (if length m \<ge> MAX_EXIT_REGISTRY_ENTRIES \<and> \<not> om_contains m pid
                then om_remove (victim (om_keys m)) m else m)
      in om_insert pid code m')"

definition exits_take :: "i32 \<Rightarrow> exits \<Rightarrow> exits \<times> i32 option" where
  "exits_take pid m = (om_remove pid m, om_get m pid)"

text \<open>One turn of the reaper thread: everything \<open>reap_zombies\<close> found.\<close>

definition reaper_turn :: "(i32 list \<Rightarrow> i32) \<Rightarrow> (i32 \<times> i32) list \<Rightarrow> exits \<Rightarrow> exits" where
  "reaper_turn victim reaped m = fold (\<lambda>(pid, code). exits_publish victim pid code) reaped m"

section \<open>The registry as a bounded mailbox\<close>

text \<open>
  What the monitors rely on: a published code is there to be taken, exactly once, and the registry stays
  bounded.
\<close>

locale mailbox =
  fixes put :: "'k \<Rightarrow> 'v \<Rightarrow> 'm \<Rightarrow> 'm" and take_msg :: "'k \<Rightarrow> 'm \<Rightarrow> 'm \<times> 'v option"
    and held :: "'m \<Rightarrow> 'k \<Rightarrow> 'v option" and ok :: "'m \<Rightarrow> bool"
  assumes put_ok: "ok m \<Longrightarrow> ok (put k v m)"
    and take_ok: "ok m \<Longrightarrow> ok (fst (take_msg k m))"
    and put_held: "ok m \<Longrightarrow> held (put k v m) k = Some v"
    and put_other: "ok m \<Longrightarrow> k' \<noteq> k \<Longrightarrow> held (put k v m) k' = held m k' \<or> held (put k v m) k' = None"
    and take_result: "ok m \<Longrightarrow> snd (take_msg k m) = held m k"
    and take_gone: "ok m \<Longrightarrow> held (fst (take_msg k m)) k = None"
    and take_other: "ok m \<Longrightarrow> k' \<noteq> k \<Longrightarrow> held (fst (take_msg k m)) k' = held m k'"
begin

lemma put_take: "ok m \<Longrightarrow> snd (take_msg k (put k v m)) = Some v"
  by (simp add: put_held put_ok take_result)

lemma take_once: "ok m \<Longrightarrow> snd (take_msg k (fst (take_msg k m))) = None"
  by (simp add: take_gone take_ok take_result)

text \<open>Codes never appear by themselves: what is taken was put.\<close>

lemma no_invention:
  assumes "ok m" "held (fold (\<lambda>(k, v). put k v) kvs m) k = Some v"
  shows "held m k = Some v \<or> (k, v) \<in> set kvs"
  using assms
proof (induction kvs arbitrary: m)
  case (Cons kv kvs)
  obtain k' v' where kv: "kv = (k', v')" by (cases kv)
  have "held (put k' v' m) k = Some v \<or> (k, v) \<in> set kvs"
    using Cons.IH [of "put k' v' m"] Cons.prems put_ok by (simp add: kv)
  then show ?case
    using put_held [OF Cons.prems(1)] put_other [OF Cons.prems(1), of k k' v'] by (cases "k = k'") (auto simp: kv)
qed simp

end

definition exits_ok :: "exits \<Rightarrow> bool" where
  "exits_ok m = (om_wf m \<and> length m \<le> MAX_EXIT_REGISTRY_ENTRIES)"

lemma length_om_keys: "om_wf m \<Longrightarrow> length m = card (set (om_keys m))"
  using distinct_card [OF om_wf_distinct] by (metis length_map)

lemma length_om_insert: "om_wf m \<Longrightarrow> length (om_insert k v m) = (if om_contains m k then length m else Suc (length m))"
  by (simp add: length_om_keys om_contains_keys insert_absorb del: set_map)

lemma length_om_remove: "om_wf m \<Longrightarrow> length (om_remove k m) = (if om_contains m k then length m - 1 else length m)"
  by (simp add: length_om_keys om_contains_keys set_keys_remove del: set_map)

lemma exits_publish_ok [inv_intros]:
  assumes "exits_ok m" "\<And>ks. ks \<noteq> [] \<Longrightarrow> victim ks \<in> set ks"
  shows "exits_ok (exits_publish victim pid code m)"
proof (cases "length m \<ge> MAX_EXIT_REGISTRY_ENTRIES \<and> \<not> om_contains m pid")
  case True
  then have "om_keys m \<noteq> []" using assms(1) by (auto simp: exits_ok_def MAX_EXIT_REGISTRY_ENTRIES_def)
  then have "om_contains m (victim (om_keys m))" using assms(2) by (simp add: om_contains_keys del: set_map)
  then show ?thesis
    using assms(1) True
    by (auto simp: exits_ok_def exits_publish_def length_om_insert length_om_remove MAX_EXIT_REGISTRY_ENTRIES_def)
next
  case False
  then show ?thesis using assms(1) by (auto simp: exits_ok_def exits_publish_def length_om_insert)
qed

lemma exits_take_ok [inv_intros]: "exits_ok m \<Longrightarrow> exits_ok (fst (exits_take pid m))"
  by (auto simp: exits_ok_def exits_take_def length_om_remove)

text \<open>The registry with the least pid as victim; every lemma above holds for any choice.\<close>

definition first_key :: "i32 list \<Rightarrow> i32" where
  "first_key ks = (case ks of k # _ \<Rightarrow> k | [] \<Rightarrow> 0)"

lemma first_key_in: "ks \<noteq> [] \<Longrightarrow> first_key ks \<in> set ks"
  by (cases ks) (auto simp: first_key_def)

lemma exits_publish_get:
  "exits_ok m \<Longrightarrow> om_get (exits_publish victim pid code m) k =
     (if k = pid then Some code
      else if length m \<ge> MAX_EXIT_REGISTRY_ENTRIES \<and> \<not> om_contains m pid \<and> k = victim (om_keys m) then None
      else om_get m k)"
  by (auto simp: exits_publish_def exits_ok_def om_get_remove)

interpretation registry: mailbox "exits_publish first_key" exits_take om_get exits_ok
proof unfold_locales
  fix m k v
  assume "exits_ok m"
  then show "exits_ok (exits_publish first_key k v m)" by (rule exits_publish_ok) (rule first_key_in)
qed (auto simp: exits_publish_get exits_take_ok, auto simp: exits_take_def exits_ok_def om_get_remove)

section \<open>Properties\<close>

text \<open>
  The exit registry never holds more than 4096 codes whatever is published, a code just published is what
  a take of its pid returns, and a second take returns nothing.
\<close>

theorem registry_bounded_and_exact:
  assumes "exits_ok m" "\<And>ks. ks \<noteq> [] \<Longrightarrow> victim ks \<in> set ks"
  shows "let m' = exits_publish victim pid code m in
    exits_ok m' \<and> length m' \<le> MAX_EXIT_REGISTRY_ENTRIES
    \<and> snd (exits_take pid m') = Some code \<and> snd (exits_take pid (fst (exits_take pid m'))) = None"
proof -
  have "exits_ok (exits_publish victim pid code m)" using assms by (rule exits_publish_ok)
  then show ?thesis
    using assms(1) by (auto simp: exits_ok_def exits_take_def exits_publish_get om_get_remove Let_def)
qed

theorem registry_bounded_and_exact_witness:
  "snd (exits_take 7 (exits_publish first_key 7 3 [(5, 0)])) = Some 3"
proof -
  have "exits_ok [(5, 0)]" by (simp add: exits_ok_def om_wf_def MAX_EXIT_REGISTRY_ENTRIES_def)
  from registry_bounded_and_exact [OF this, of first_key 7 3] show ?thesis
    using first_key_in by (simp add: Let_def)
qed

end
