(* ===== verification/World.thy ===== *)
theory World
  imports Config_Load Logs Watch Runtime Reaper
begin

text \<open>
  The state the supervisor's threads share and the way one thread acts on it. A thread's computation
  (type \<open>'a prog\<close>) is a sequence of critical sections; before each of them the other threads and the system may
  have changed the shared state, which is the function \<open>e_other\<close> of the environment, indexed by a counter
  of the sections passed. Only the clock is protected: it never runs backwards. Blocking calls advance it.
  A computation ends with a value or with a panic, which under \<open>panic = "abort"\<close> ends the process. The environment
  also holds the system's answers: spawned pids, signals to processes that are gone, wake-ups, formatted
  times, the passwd database, the JSON codecs and the network.
\<close>

section \<open>Shared state\<close>

datatype ctl_msg = CtlStart bool | CtlStop | CtlRestart | CtlQuit

datatype signal = SIGTERM | SIGKILL

text \<open>A \<open>std::process::Command\<close> for \<open>/bin/sh -c\<close>: script, directory, variables set, identity of the \<open>pre_exec\<close> hook.\<close>

record command =
  cm_script :: string
  cm_cwd :: path
  cm_env :: env_map
  cm_identity :: "resolved_identity option"
  cm_quiet :: bool

text \<open>
  The fields of \<open>Supervisor\<close> and \<open>Shared\<close>, the global exit registry and env-file cache, the files, and what was done to
  the outside: signals sent and processes spawned. A control channel is a number; \<open>w_queues\<close> holds the
  unread messages of the channels whose receiver is alive.
\<close>

record world =
  w_tick :: nat
  w_now :: millis
  w_utc :: int
  w_config :: config
  w_runtimes :: runtimes
  w_stop_all :: bool
  w_ctl :: "(string, nat) omap"
  w_queues :: "(nat, ctl_msg list) omap"
  w_next_chan :: nat
  w_exits :: exits
  w_hub :: log_hub
  w_con_out :: string
  w_con_mirrors :: bool
  w_watch :: watch_hub
  w_env_cache :: env_map
  w_files :: files
  w_override_path :: path
  w_signals :: "(i32 \<times> signal) list"
  w_spawned :: "(command \<times> i32) list"

record env =
  e_other :: "nat \<Rightarrow> world \<Rightarrow> world"
  e_spawn :: "nat \<Rightarrow> command \<Rightarrow> string + i32"
  e_wake :: "nat \<Rightarrow> millis"
  e_late :: "nat \<Rightarrow> millis"
  e_gone :: "nat \<Rightarrow> i32 \<Rightarrow> bool"
  e_ts :: "nat \<Rightarrow> string"
  e_opens :: "string \<Rightarrow> bool"
  e_db :: user_db
  e_cur :: "nat \<times> nat"
  e_json :: json
  e_fault :: "nat \<Rightarrow> faults"
  e_resolve :: "nat \<Rightarrow> string \<Rightarrow> string + string list"
  e_connect :: "nat \<Rightarrow> string \<Rightarrow> millis \<Rightarrow> string + unit"
  e_http :: "nat \<Rightarrow> string \<Rightarrow> string \<Rightarrow> millis \<Rightarrow> string + u16"
  e_thread :: "nat \<Rightarrow> string \<Rightarrow> string option"
  e_ho :: hash_order

section \<open>Computations\<close>

datatype 'a outcome = Ret 'a world | Panic string

type_synonym 'a prog = "env \<Rightarrow> world \<Rightarrow> 'a outcome"

definition ret :: "'a \<Rightarrow> 'a prog" where
  "ret x = (\<lambda>e w. Ret x w)"

definition bind :: "'a prog \<Rightarrow> ('a \<Rightarrow> 'b prog) \<Rightarrow> 'b prog" where
  "bind m f = (\<lambda>e w. case m e w of Ret x w' \<Rightarrow> f x e w' | Panic s \<Rightarrow> Panic s)"

text \<open>What the others did before this thread's next critical section; time does not run backwards.\<close>

definition others :: "env \<Rightarrow> world \<Rightarrow> world" where
  "others e w =
     (let w' = e_other e (w_tick w) w in w'\<lparr>w_tick := Suc (w_tick w), w_now := max (w_now w) (w_now w')\<rparr>)"

definition atomic :: "(env \<Rightarrow> world \<Rightarrow> 'a \<times> world) \<Rightarrow> 'a prog" where
  "atomic f = (\<lambda>e w. let (x, w') = f e (others e w) in Ret x w')"

definition reads :: "(world \<Rightarrow> 'a) \<Rightarrow> 'a prog" where
  "reads f = atomic (\<lambda>e w. (f w, w))"

definition writes :: "(env \<Rightarrow> world \<Rightarrow> world) \<Rightarrow> unit prog" where
  "writes f = atomic (\<lambda>e w. ((), f e w))"

fun for_each :: "('a \<Rightarrow> unit prog) \<Rightarrow> 'a list \<Rightarrow> unit prog" where
  "for_each f [] = ret ()"
| "for_each f (x # xs) = bind (f x) (\<lambda>_. for_each f xs)"

section \<open>Time\<close>

text \<open>An \<open>Instant\<close> holds at most \<open>i64::MAX\<close> seconds; adding beyond panics.\<close>

definition INSTANT_LIMIT :: millis where "INSTANT_LIMIT = secs (2 ^ 63)"

definition deadline_after :: "millis \<Rightarrow> millis prog" where
  "deadline_after d = (\<lambda>e w. let w' = others e w in
     if w_now w' + d < INSTANT_LIMIT then Ret (w_now w' + d) w'
     else Panic ''overflow when adding duration to instant'')"

definition sleep :: "millis \<Rightarrow> unit prog" where
  "sleep d = writes (\<lambda>e w. w\<lparr>w_now := w_now w + d + e_late e (w_tick w)\<rparr>)"

text \<open>
  \<open>Condvar::wait_timeout\<close>: woken after \<open>e_wake\<close> if that is before \<open>d\<close> and takes time at all, else timed out. The result is
  \<open>timed_out()\<close>.
\<close>

definition cv_wait :: "millis \<Rightarrow> bool prog" where
  "cv_wait d = atomic (\<lambda>e w.
     let k = e_wake e (w_tick w) in
     if 0 < k \<and> k < d then (False, w\<lparr>w_now := w_now w + k\<rparr>) else (True, w\<lparr>w_now := w_now w + d\<rparr>))"

lemma others_now [simp]: "w_now w \<le> w_now (others e w)"
  by (simp add: others_def Let_def)

lemma bind_Ret: "bind m f e w = Ret y w'' \<longleftrightarrow> (\<exists>x w'. m e w = Ret x w' \<and> f x e w' = Ret y w'')"
  by (auto simp: bind_def split: outcome.splits)

lemma ret_simp [simp]: "ret x e w = Ret x w"
  by (simp add: ret_def)

lemma bind_ret [simp]: "bind (ret x) f = f x"
  by (simp add: bind_def ret_def fun_eq_iff)

lemma atomic_simp: "atomic f e w = Ret (fst (f e (others e w))) (snd (f e (others e w)))"
  by (simp add: atomic_def split_beta Let_def)

lemma reads_simp [simp]: "reads f e w = Ret (f (others e w)) (others e w)"
  by (simp add: reads_def atomic_simp)

lemma writes_simp [simp]: "writes f e w = Ret () (f e (others e w))"
  by (simp add: writes_def atomic_simp)

lemma bind_reads [simp]: "bind (reads f) g e w = g (f (others e w)) e (others e w)"
  by (simp add: bind_def)

lemma bind_writes [simp]: "bind (writes f) g e w = g () e (f e (others e w))"
  by (simp add: bind_def)

lemma bind_assoc: "bind (bind m f) g = bind m (\<lambda>x. bind (f x) g)"
  by (auto simp: bind_def fun_eq_iff split: outcome.splits)

section \<open>Waiting for an exit\<close>

definition take_exit :: "i32 \<Rightarrow> i32 option prog" where
  "take_exit pid = atomic (\<lambda>e w. let (m, r) = exits_take pid (w_exits w) in (r, w\<lparr>w_exits := m\<rparr>))"

text \<open>
  The loop of \<open>wait_take\<close>. The mutex is held from the check to the wait, so the check and the reading of the
  clock are one section; others act while the condition variable waits.
\<close>

lemma cv_wait_False: "cv_wait d e w = Ret False w' \<Longrightarrow> w_now w < w_now w'"
proof -
  assume "cv_wait d e w = Ret False w'"
  then have "w_now (others e w) < w_now w'"
    by (auto simp: cv_wait_def atomic_simp Let_def split: if_splits)
  then show ?thesis using others_now [of w e] by (rule le_less_trans [rotated])
qed

function wait_take_loop :: "i32 \<Rightarrow> millis \<Rightarrow> env \<Rightarrow> world \<Rightarrow> i32 option outcome" where
  "wait_take_loop pid deadline e w =
     (case exits_take pid (w_exits w) of
        (m, Some code) \<Rightarrow> Ret (Some code) (w\<lparr>w_exits := m\<rparr>)
      | (m, None) \<Rightarrow>
          if w_now w \<ge> deadline then Ret None w
          else (case cv_wait (deadline - w_now w) e w of
                  Ret True w' \<Rightarrow> (case exits_take pid (w_exits w') of (m', r) \<Rightarrow> Ret r (w'\<lparr>w_exits := m'\<rparr>))
                | Ret False w' \<Rightarrow> wait_take_loop pid deadline e w'
                | Panic s \<Rightarrow> Panic s))"
  by pat_completeness auto
termination
proof (relation "measure (\<lambda>(pid, deadline, e, w). deadline - w_now w)", goal_cases)
  case 2
  then show ?case by (auto dest!: cv_wait_False)
qed simp

declare wait_take_loop.simps [simp del]

definition wait_take :: "i32 \<Rightarrow> millis \<Rightarrow> i32 option prog" where
  "wait_take pid timeout = bind (deadline_after timeout) (\<lambda>deadline.
     bind (reads (\<lambda>_. ())) (\<lambda>_. wait_take_loop pid deadline))"

lemma wait_take_loop_now:
  "wait_take_loop pid deadline e w = Ret r w' \<Longrightarrow> w_now w \<le> w_now w' \<and> (r = None \<longrightarrow> deadline \<le> w_now w')"
proof (induction pid deadline e w rule: wait_take_loop.induct)
  case (1 pid deadline e w)
  obtain m t where t: "exits_take pid (w_exits w) = (m, t)" by (cases "exits_take pid (w_exits w)")
  show ?case
  proof (cases t)
    case (Some code)
    then show ?thesis using 1(2) t by (auto simp: wait_take_loop.simps [of pid deadline e w])
  next
    case None
    show ?thesis
    proof (cases "deadline \<le> w_now w")
      case True
      then show ?thesis using 1(2) t None by (auto simp: wait_take_loop.simps [of pid deadline e w])
    next
      case False
      define d where "d = deadline - w_now w"
      define v where "v = others e w"
      have v: "w_now w \<le> w_now v" by (simp add: v_def)
      show ?thesis
      proof (cases "0 < e_wake e (w_tick v) \<and> e_wake e (w_tick v) < d")
        case True
        then have c: "cv_wait d e w = Ret False (v\<lparr>w_now := w_now v + e_wake e (w_tick v)\<rparr>)"
          by (simp add: cv_wait_def atomic_simp v_def Let_def)
        have "wait_take_loop pid deadline e (v\<lparr>w_now := w_now v + e_wake e (w_tick v)\<rparr>) = Ret r w'"
          using 1(2) t None False c by (simp add: wait_take_loop.simps [of pid deadline e w] d_def)
        from 1(1) [OF t [unfolded None, symmetric] refl False c [unfolded d_def] refl this] v
        show ?thesis by simp
      next
        case c': False
        then have c: "cv_wait d e w = Ret True (v\<lparr>w_now := w_now v + d\<rparr>)"
          by (simp add: cv_wait_def atomic_simp v_def Let_def)
        then have "w_now w' = w_now v + d"
          using 1(2) t None False
          by (auto simp: wait_take_loop.simps [of pid deadline e w] d_def split: prod.splits)
        then have "deadline \<le> w_now w'" "w_now w \<le> w_now w'" using v False unfolding d_def by linarith+
        then show ?thesis by simp
      qed
    qed
  qed
qed

lemma wait_take_now:
  assumes "wait_take pid d e w = Ret r w'"
  shows "w_now w \<le> w_now w' \<and> w_now w < INSTANT_LIMIT \<and> (r = None \<longrightarrow> w_now w + d \<le> w_now w')"
proof -
  let ?v = "others e w"
  have "w_now ?v + d < INSTANT_LIMIT" "wait_take_loop pid (w_now ?v + d) e (others e ?v) = Ret r w'"
    using assms by (auto simp: wait_take_def bind_def deadline_after_def Let_def split: if_splits)
  then show ?thesis
    using wait_take_loop_now [of pid "w_now ?v + d" e "others e ?v" r w'] others_now [of w e] others_now [of ?v e]
    by linarith
qed

section \<open>Reasoning about one thread\<close>

text \<open>
  A predicate is stable when the others keep it. The triple \<open>hoare e P m Q\<close>: started where \<open>P\<close> holds, \<open>m\<close> ends, unless
  it panics, with a value and a state of \<open>Q\<close>.
\<close>

definition stable :: "env \<Rightarrow> (world \<Rightarrow> bool) \<Rightarrow> bool" where
  "stable e P = (\<forall>w. P w \<longrightarrow> P (others e w))"

definition hoare :: "env \<Rightarrow> (world \<Rightarrow> bool) \<Rightarrow> 'a prog \<Rightarrow> ('a \<Rightarrow> world \<Rightarrow> bool) \<Rightarrow> bool" where
  "hoare e P m Q = (\<forall>w. P w \<longrightarrow> (case m e w of Ret x w' \<Rightarrow> Q x w' | Panic _ \<Rightarrow> True))"

lemma stableD: "stable e P \<Longrightarrow> P w \<Longrightarrow> P (others e w)"
  by (simp add: stable_def)

lemma hoareD: "hoare e P m Q \<Longrightarrow> P w \<Longrightarrow> m e w = Ret x w' \<Longrightarrow> Q x w'"
  by (auto simp: hoare_def split: outcome.splits)

lemma hoare_ret: "(\<And>w. P w \<Longrightarrow> Q x w) \<Longrightarrow> hoare e P (ret x) Q"
  by (simp add: hoare_def)

lemma hoare_bind: "hoare e P m R \<Longrightarrow> (\<And>x. hoare e (R x) (f x) Q) \<Longrightarrow> hoare e P (bind m f) Q"
  by (fastforce simp: hoare_def bind_def split: outcome.splits)

lemma hoare_weaken: "hoare e P m R \<Longrightarrow> (\<And>x w. R x w \<Longrightarrow> Q x w) \<Longrightarrow> hoare e P m Q"
  by (fastforce simp: hoare_def split: outcome.splits)

lemma hoare_pre: "hoare e R m Q \<Longrightarrow> (\<And>w. P w \<Longrightarrow> R w) \<Longrightarrow> hoare e P m Q"
  by (simp add: hoare_def)

lemma hoare_writes: "stable e P \<Longrightarrow> (\<And>w. P w \<Longrightarrow> Q () (f e w)) \<Longrightarrow> hoare e P (writes f) Q"
  by (simp add: hoare_def stable_def)

lemma hoare_reads: "stable e P \<Longrightarrow> (\<And>w. P w \<Longrightarrow> Q (f w) w) \<Longrightarrow> hoare e P (reads f) Q"
  by (simp add: hoare_def stable_def)

lemma hoare_atomic: "stable e P \<Longrightarrow> (\<And>w. P w \<Longrightarrow> Q (fst (f e w)) (snd (f e w))) \<Longrightarrow> hoare e P (atomic f) Q"
  by (simp add: hoare_def stable_def atomic_simp)

lemma hoare_if: "(b \<Longrightarrow> hoare e P m Q) \<Longrightarrow> (\<not> b \<Longrightarrow> hoare e P n Q) \<Longrightarrow> hoare e P (if b then m else n) Q"
  by simp

lemma hoare_for_each: "(\<And>x. x \<in> set xs \<Longrightarrow> hoare e P (f x) (\<lambda>_. P)) \<Longrightarrow> hoare e P (for_each f xs) (\<lambda>_. P)"
  by (induction xs) (auto intro: hoare_ret hoare_bind)

lemma hoare_deadline: "stable e P \<Longrightarrow> hoare e P (deadline_after d) (\<lambda>_. P)"
  by (simp add: hoare_def deadline_after_def stable_def Let_def)

text \<open>Predicates that do not look at the clock, the counter or the exits survive waiting.\<close>

definition timeless :: "(world \<Rightarrow> bool) \<Rightarrow> bool" where
  "timeless P = (\<forall>w t. P (w\<lparr>w_now := t\<rparr>) = P w)"

definition exit_free :: "(world \<Rightarrow> bool) \<Rightarrow> bool" where
  "exit_free P = (\<forall>w pid. P w \<longrightarrow> P (w\<lparr>w_exits := fst (exits_take pid (w_exits w))\<rparr>))"

lemma hoare_sleep: "stable e P \<Longrightarrow> timeless P \<Longrightarrow> hoare e P (sleep d) (\<lambda>_. P)"
  unfolding sleep_def by (rule hoare_writes) (simp_all add: timeless_def)

lemma hoare_take_exit: "stable e P \<Longrightarrow> exit_free P \<Longrightarrow> hoare e P (take_exit pid) (\<lambda>_. P)"
  unfolding take_exit_def by (rule hoare_atomic) (auto simp: exit_free_def split_beta Let_def)

lemma hoare_cv_wait: "stable e P \<Longrightarrow> timeless P \<Longrightarrow> hoare e P (cv_wait d) (\<lambda>_. P)"
  unfolding cv_wait_def by (rule hoare_atomic) (auto simp: timeless_def Let_def)

lemma hoare_wait_take_loop:
  assumes "stable e P" "timeless P" "exit_free P" "P w"
  shows "case wait_take_loop pid deadline e w of Ret r w' \<Rightarrow> P w' | Panic _ \<Rightarrow> True"
  using assms
proof (induction pid deadline e w rule: wait_take_loop.induct)
  case (1 pid deadline e w)
  have taken: "P (v\<lparr>w_exits := m\<rparr>)" if "P v" "exits_take pid (w_exits v) = (m, r)" for v m r
    using 1(4) that unfolding exit_free_def by (metis fst_conv)
  have cv: "P w'" if "cv_wait d e w = Ret b w'" for d b w'
    using hoareD [OF hoare_cv_wait [OF 1(2,3)] 1(5) that] .
  obtain m t where t: "exits_take pid (w_exits w) = (m, t)" by (cases "exits_take pid (w_exits w)")
  show ?case
  proof (cases t)
    case (Some code)
    then show ?thesis using taken [OF 1(5) t] t by (simp add: wait_take_loop.simps [of pid deadline e w])
  next
    case None
    show ?thesis
    proof (cases "deadline \<le> w_now w")
      case True
      then show ?thesis using 1(5) t None by (simp add: wait_take_loop.simps [of pid deadline e w])
    next
      case False
      show ?thesis
      proof (cases "cv_wait (deadline - w_now w) e w")
        case (Ret b w')
        show ?thesis
        proof (cases b)
          case True
          obtain m' r where r: "exits_take pid (w_exits w') = (m', r)" by (cases "exits_take pid (w_exits w')")
          show ?thesis
            using taken [OF cv [OF Ret] r] t None False Ret True r
            by (simp add: wait_take_loop.simps [of pid deadline e w])
        next
          case b: False
          have "case wait_take_loop pid deadline e w' of Ret r w' \<Rightarrow> P w' | Panic _ \<Rightarrow> True"
            using 1(1) [OF t [unfolded None, symmetric] refl False Ret _ 1(2-4) cv [OF Ret]] b by simp
          then show ?thesis
            using t None False Ret b by (simp add: wait_take_loop.simps [of pid deadline e w])
        qed
      next
        case (Panic s)
        then show ?thesis using t None False by (simp add: wait_take_loop.simps [of pid deadline e w])
      qed
    qed
  qed
qed

lemma hoare_wait_take:
  assumes "stable e P" "timeless P" "exit_free P"
  shows "hoare e P (wait_take pid d) (\<lambda>_. P)"
  unfolding wait_take_def
  by (rule hoare_bind [OF hoare_deadline [OF assms(1)]], rule hoare_bind [OF hoare_reads [OF assms(1)]], assumption)
    (use hoare_wait_take_loop [OF assms] in \<open>simp add: hoare_def\<close>)

end
