(* ===== verification/Service.thy ===== *)
theory Service
  imports World
begin

text \<open>
  Process execution (\<open>src/src/service.rs\<close>) and liveness probes (\<open>src/src/liveness.rs\<close>). A spawned process is recorded
  with its command; waiting for it goes through the exit registry, as it does while the reaper runs (the
  path of \<open>wait_via_owned\<close>, used when no reaper was started, is not modelled). Name resolution, the TCP connect and
  the HTTP request are answers of the environment.
\<close>

section \<open>Commands\<close>

definition DEFAULT_SERVICE_PATH :: string where
  "DEFAULT_SERVICE_PATH = ''/usr/local/sbin:/usr/local/bin:/usr/sbin:/usr/bin:/sbin:/bin''"

text \<open>Set a variable unless one of the three maps names it.\<close>

definition env_default :: "env_map list \<Rightarrow> string \<Rightarrow> string \<Rightarrow> env_map \<Rightarrow> env_map" where
  "env_default maps k v m = (if list_ex (\<lambda>x. om_contains x k) maps then m else om_insert k v m)"

definition identity_env :: "env_map list \<Rightarrow> resolved_identity \<Rightarrow> env_map \<Rightarrow> env_map" where
  "identity_env maps ident m =
     (let m1 = (case id_home ident of Some home \<Rightarrow> env_default maps ''HOME'' home m | None \<Rightarrow> m)
      in case id_username ident of
           Some user \<Rightarrow> env_default maps ''LOGNAME'' user (env_default maps ''USER'' user m1)
         | None \<Rightarrow> m1)"

definition build_shell_command :: "nat \<times> nat \<Rightarrow> env_map \<Rightarrow> string \<Rightarrow> service_config \<Rightarrow> env_map
    \<Rightarrow> resolved_identity option \<Rightarrow> command" where
  "build_shell_command cur file_env cmd cfg env_extra ident =
     (let m = om_insert_all env_extra (om_insert_all (sc_env cfg) (om_insert_all file_env
                (om_insert ''PATH'' DEFAULT_SERVICE_PATH []))) in
      \<lparr>cm_script = cmd, cm_cwd = sc_cwd cfg,
       cm_env = (case ident of Some i \<Rightarrow> identity_env [file_env, sc_env cfg, env_extra] i m | None \<Rightarrow> m),
       cm_identity = (case ident of Some i \<Rightarrow> attach_pre_exec cur i | None \<Rightarrow> None),
       cm_quiet = False\<rparr>)"

definition resolve_sec :: "user_db \<Rightarrow> service_config \<Rightarrow> resolved_identity option res" where
  "resolve_sec db cfg =
     (case sc_security_context cfg of
        None \<Rightarrow> Inr None
      | Some ctx \<Rightarrow> (case sc_resolved_security cfg of Some i \<Rightarrow> Inr (Some i) | None \<Rightarrow> resolve db ctx))"

section \<open>Spawning\<close>

definition spawn :: "string \<Rightarrow> command \<Rightarrow> i32 res prog" where
  "spawn name c = atomic (\<lambda>e w.
     case e_spawn e (w_tick w) c of
       Inl err \<Rightarrow> (Inl (ErrService name err), w)
     | Inr pid \<Rightarrow> (Inr pid, w\<lparr>w_spawned := w_spawned w @ [(c, pid)]\<rparr>))"

definition spawn_shell_cmd :: "string \<Rightarrow> service_config \<Rightarrow> env_map \<Rightarrow> bool \<Rightarrow> i32 res prog" where
  "spawn_shell_cmd cmd cfg env_extra quiet = (\<lambda>e w.
     case resolve_sec (e_db e) cfg of
       Inl err \<Rightarrow> Ret (Inl err) w
     | Inr ident \<Rightarrow>
         bind (reads w_env_cache) (\<lambda>file_env.
           spawn (sc_name cfg)
             ((build_shell_command (e_cur e) file_env cmd cfg env_extra ident)\<lparr>cm_quiet := quiet\<rparr>)) e w)"

definition spawn_shell :: "string \<Rightarrow> service_config \<Rightarrow> i32 res prog" where
  "spawn_shell cmd cfg = spawn_shell_cmd cmd cfg [] False"

section \<open>Signals\<close>

definition kill :: "i32 \<Rightarrow> signal \<Rightarrow> unit prog" where
  "kill pid s = writes (\<lambda>e w. w\<lparr>w_signals := w_signals w @ [(pid, s)]\<rparr>)"

text \<open>\<open>while now < deadline { match kill(pid, None) { ESRCH => return, _ => sleep } }\<close>; the result tells whether the
  process was seen to be gone.\<close>

function terminate_loop :: "i32 \<Rightarrow> millis \<Rightarrow> env \<Rightarrow> world \<Rightarrow> bool outcome" where
  "terminate_loop pid deadline e w =
     (let w1 = others e w in
      if w_now w1 < deadline then
        let w2 = others e w1 in
        if e_gone e (w_tick w2) pid then Ret True w2
        else (case sleep TERMINATE_POLL e w2 of
                Ret _ w3 \<Rightarrow> terminate_loop pid deadline e w3
              | Panic s \<Rightarrow> Panic s)
      else Ret False w1)"
  by pat_completeness auto
termination
proof (relation "measure (\<lambda>(pid, deadline, e, w). deadline - w_now w)", goal_cases)
  case (2 pid deadline e w w1 w2 u w3)
  have "w_now (others e w2) < w_now w3"
    using 2 by (auto simp: sleep_def TERMINATE_POLL_def)
  moreover have "w_now w \<le> w_now w1" "w_now w1 \<le> w_now w2" "w_now w2 \<le> w_now (others e w2)"
    using 2 by simp_all
  ultimately have "w_now w < w_now w3" by linarith
  moreover have "w_now w < deadline" using 2(2) \<open>w_now w \<le> w_now w1\<close> by linarith
  ultimately show ?case by simp
qed simp

declare terminate_loop.simps [simp del]

definition terminate_pid :: "i32 \<Rightarrow> u64 \<Rightarrow> unit prog" where
  "terminate_pid pid grace_secs =
     bind (kill pid SIGTERM) (\<lambda>_.
     if grace_secs = 0 then kill pid SIGKILL
     else bind (deadline_after (secs (unat grace_secs))) (\<lambda>deadline.
          bind (terminate_loop pid deadline) (\<lambda>gone.
          if gone then ret () else kill pid SIGKILL)))"

section \<open>Waiting for a child\<close>

text \<open>
  \<open>ChildWait::Forever\<close>: slices of a minute until the exit code is there. Every slice that ends without one
  advances the clock, so the loop ends at the latest when the clock cannot be advanced any more.
\<close>

function wait_forever :: "i32 \<Rightarrow> env \<Rightarrow> world \<Rightarrow> i32 outcome" where
  "wait_forever pid e w =
     (case wait_take pid CHILD_WAIT_SLICE e w of
        Ret (Some code) w' \<Rightarrow> Ret code w'
      | Ret None w' \<Rightarrow> wait_forever pid e w'
      | Panic s \<Rightarrow> Panic s)"
  by pat_completeness auto
termination
proof (relation "measure (\<lambda>(pid, e, w). INSTANT_LIMIT - w_now w)", goal_cases)
  case (2 pid e w r w')
  then have "w_now w < INSTANT_LIMIT" "w_now w + CHILD_WAIT_SLICE \<le> w_now w'"
    using wait_take_now [of pid CHILD_WAIT_SLICE e w None w'] by simp_all
  then show ?case by (simp add: CHILD_WAIT_SLICE_def)
qed simp

declare wait_forever.simps [simp del]

definition run_shell :: "string \<Rightarrow> service_config \<Rightarrow> env_map \<Rightarrow> i32 res prog" where
  "run_shell cmd cfg env_extra =
     bind (spawn_shell_cmd cmd cfg env_extra False) (\<lambda>r.
       case r of Inl err \<Rightarrow> ret (Inl err) | Inr pid \<Rightarrow> bind (wait_forever pid) (\<lambda>code. ret (Inr code)))"

text \<open>\<open>Ok(None)\<close> of the source is \<open>Inr None\<close>: the command was killed at its timeout.\<close>

definition wait_timed :: "i32 \<Rightarrow> millis \<Rightarrow> i32 option prog" where
  "wait_timed pid timeout =
     bind (wait_take pid timeout) (\<lambda>r.
       case r of
         Some code \<Rightarrow> ret (Some code)
       | None \<Rightarrow>
           bind (terminate_pid pid 0) (\<lambda>_.
           bind (wait_take pid REAP_AFTER_KILL) (\<lambda>_. ret None)))"

definition run_shell_quiet_timeout :: "string \<Rightarrow> service_config \<Rightarrow> millis \<Rightarrow> i32 option res prog" where
  "run_shell_quiet_timeout cmd cfg timeout =
     bind (spawn_shell_cmd cmd cfg [] True) (\<lambda>r.
       case r of Inl err \<Rightarrow> ret (Inl err) | Inr pid \<Rightarrow> bind (wait_timed pid timeout) (\<lambda>c. ret (Inr c)))"

section \<open>Identity of a running process\<close>

text \<open>The scan of \<open>/proc/<pid>/status\<close> for the real uid and gid.\<close>

definition status_id :: "string \<Rightarrow> nat option \<Rightarrow> nat option" where
  "status_id rest old = (case split_whitespace rest of tok # _ \<Rightarrow> parse_uint 32 tok | [] \<Rightarrow> old)"

fun scan_status :: "string list \<Rightarrow> nat option \<Rightarrow> nat option \<Rightarrow> nat option \<times> nat option" where
  "scan_status [] uid gid = (uid, gid)"
| "scan_status (l # ls) uid gid =
     (case strip_prefix ''Uid:'' l of
        Some rest \<Rightarrow> scan_status ls (status_id rest uid) gid
      | None \<Rightarrow> (case strip_prefix ''Gid:'' l of
          Some rest \<Rightarrow> scan_status ls uid (status_id rest gid)
        | None \<Rightarrow> scan_status ls uid gid))"

definition read_running_identity :: "user_db \<Rightarrow> (path \<Rightarrow> string + string) \<Rightarrow> i32 \<Rightarrow> running_identity option" where
  "read_running_identity db read pid =
     (case read (''/proc/'' @ int_str pid @ ''/status'') of
        Inl _ \<Rightarrow> None
      | Inr data \<Rightarrow>
          (case scan_status (str_lines data) None None of
             (Some uid, Some gid) \<Rightarrow>
               Some \<lparr>ri_uid = uid, ri_gid = gid,
                     ri_user = (case user_from_uid db uid of Inr (Some u) \<Rightarrow> Some (pw_name u) | _ \<Rightarrow> None),
                     ri_group = (case group_name_of_gid db gid of Inr g \<Rightarrow> g | Inl _ \<Rightarrow> None)\<rparr>
           | _ \<Rightarrow> None))"

section \<open>Liveness probes\<close>

datatype probe_result = ProbeOk | ProbeFail string

datatype probe_kind = KindCmd string | KindTcp string | KindHttp string

definition trimmed :: "string option \<Rightarrow> string option" where
  "trimmed opt = (case opt of Some s \<Rightarrow> if trim s = [] then None else Some (trim s) | None \<Rightarrow> None)"

definition probe_kind_of :: "liveness_probe \<Rightarrow> probe_kind option" where
  "probe_kind_of p =
     (case (trimmed (lp_cmd p), trimmed (lp_tcp_addr p), trimmed (lp_http_url p)) of
        (Some c, None, None) \<Rightarrow> Some (KindCmd c)
      | (None, Some t, None) \<Rightarrow> Some (KindTcp t)
      | (None, None, Some h) \<Rightarrow> Some (KindHttp h)
      | _ \<Rightarrow> None)"

text \<open>The addresses are tried in order; the error of the last one is reported.\<close>

fun try_connect :: "string \<Rightarrow> string list \<Rightarrow> millis \<Rightarrow> string \<Rightarrow> probe_result prog" where
  "try_connect addr [] timeout last_err = ret (ProbeFail (''tcp '' @ addr @ '': '' @ last_err))"
| "try_connect addr (sa # sas) timeout last_err =
     bind (atomic (\<lambda>e w. (e_connect e (w_tick w) sa timeout, w))) (\<lambda>r.
       case r of Inr _ \<Rightarrow> ret ProbeOk | Inl err \<Rightarrow> try_connect addr sas timeout err)"

definition run_tcp_probe :: "string \<Rightarrow> millis \<Rightarrow> probe_result prog" where
  "run_tcp_probe addr timeout =
     bind (atomic (\<lambda>e w. (e_resolve e (w_tick w) addr, w))) (\<lambda>r.
       case r of
         Inl err \<Rightarrow> ret (ProbeFail (''resolve '' @ addr @ '': '' @ err))
       | Inr addrs \<Rightarrow>
           if addrs = [] then ret (ProbeFail (''resolve '' @ addr @ '': no addresses''))
           else try_connect addr addrs timeout [])"

text \<open>\<open>e_http\<close> gives the status, of a success or an error response alike, or the transport error.\<close>

definition run_http_probe :: "string \<Rightarrow> string \<Rightarrow> u16 list \<Rightarrow> millis \<Rightarrow> probe_result prog" where
  "run_http_probe url http_method accepted timeout =
     (if trim http_method = [] then ret (ProbeFail ''httpMethod empty'')
      else bind (atomic (\<lambda>e w. (e_http e (w_tick w) (trim http_method) url timeout, w))) (\<lambda>r.
        case r of
          Inr code \<Rightarrow>
            if code \<in> set accepted then ret ProbeOk
            else ret (ProbeFail (''HTTP '' @ nat_str (unat code)))
        | Inl err \<Rightarrow> ret (ProbeFail (''http: '' @ err))))"

definition run_probe :: "liveness_probe \<Rightarrow> service_config \<Rightarrow> probe_result prog" where
  "run_probe probe cfg =
     (let timeout = secs (unat (max (lp_timeout probe) 1)) in
      case probe_kind_of probe of
        Some (KindCmd cmd) \<Rightarrow>
          bind (run_shell_quiet_timeout cmd cfg timeout) (\<lambda>r.
            case r of
              Inr (Some code) \<Rightarrow>
                if probe_is_success probe code then ret ProbeOk
                else ret (ProbeFail (''exit '' @ int_str code))
            | Inr None \<Rightarrow> ret (ProbeFail ''timeout'')
            | Inl err \<Rightarrow> ret (ProbeFail (error_to_string err)))
      | Some (KindTcp addr) \<Rightarrow> run_tcp_probe addr timeout
      | Some (KindHttp url) \<Rightarrow> run_http_probe url (lp_http_method probe) (lp_http_accepted_codes probe) timeout
      | None \<Rightarrow> ret (ProbeFail ''no probe kind configured''))"

section \<open>What these operations leave alone\<close>

text \<open>Predicates that survive the passing of time, collected exits, signals and new processes.\<close>

definition inert :: "(world \<Rightarrow> bool) \<Rightarrow> bool" where
  "inert P = (timeless P \<and> exit_free P
     \<and> (\<forall>w x. P w \<longrightarrow> P (w\<lparr>w_signals := w_signals w @ [x]\<rparr>))
     \<and> (\<forall>w x. P w \<longrightarrow> P (w\<lparr>w_spawned := w_spawned w @ [x]\<rparr>)))"

abbreviation keeps :: "env \<Rightarrow> (world \<Rightarrow> bool) \<Rightarrow> 'a prog \<Rightarrow> bool" where
  "keeps e P m \<equiv> hoare e P m (\<lambda>_. P)"

lemma keeps_bind: "keeps e P m \<Longrightarrow> (\<And>x. keeps e P (f x)) \<Longrightarrow> keeps e P (bind m f)"
  by (rule hoare_bind)

lemma keeps_ret [intro]: "keeps e P (ret x)"
  by (simp add: hoare_ret)

lemma keeps_reads: "stable e P \<Longrightarrow> keeps e P (reads f)"
  by (rule hoare_reads)

lemma keeps_spawn: "stable e P \<Longrightarrow> inert P \<Longrightarrow> keeps e P (spawn name c)"
  unfolding spawn_def by (rule hoare_atomic) (auto simp: inert_def split: sum.split)

lemma keeps_kill: "stable e P \<Longrightarrow> inert P \<Longrightarrow> keeps e P (kill pid s)"
  unfolding kill_def by (rule hoare_writes) (simp_all add: inert_def)

lemma keeps_spawn_shell_cmd:
  assumes "stable e P" "inert P"
  shows "keeps e P (spawn_shell_cmd cmd cfg env_extra quiet)"
proof (cases "resolve_sec (e_db e) cfg")
  case (Inr ident)
  have "keeps e P (bind (reads w_env_cache) (\<lambda>file_env. spawn (sc_name cfg)
      ((build_shell_command (e_cur e) file_env cmd cfg env_extra ident)\<lparr>cm_quiet := quiet\<rparr>)))"
    by (intro keeps_bind keeps_reads keeps_spawn assms)
  then show ?thesis by (simp add: spawn_shell_cmd_def Inr hoare_def)
qed (simp add: spawn_shell_cmd_def hoare_def)

lemma keeps_terminate_loop:
  assumes "stable e P" "timeless P" "P w"
  shows "case terminate_loop pid deadline e w of Ret _ w' \<Rightarrow> P w' | Panic _ \<Rightarrow> True"
  using assms
proof (induction pid deadline e w rule: terminate_loop.induct)
  case (1 pid deadline e w)
  let ?w1 = "others e w" and ?w2 = "others e (others e w)"
  have P: "P ?w1" "P ?w2" using 1(2,4) by (simp_all add: stableD)
  show ?case
  proof (cases "w_now ?w1 < deadline \<and> \<not> e_gone e (w_tick ?w2) pid")
    case True
    obtain w3 where s: "sleep TERMINATE_POLL e ?w2 = Ret () w3" by (simp add: sleep_def)
    have "P w3" using hoareD [OF hoare_sleep [OF 1(2,3)] P(2) s] .
    then show ?thesis
      using 1(1) [OF refl _ refl _ s 1(2,3)] True s by (simp add: terminate_loop.simps [of pid deadline e w] Let_def)
  next
    case False
    then show ?thesis using P by (auto simp: terminate_loop.simps [of pid deadline e w] Let_def)
  qed
qed

lemma keeps_terminate_pid: "stable e P \<Longrightarrow> inert P \<Longrightarrow> keeps e P (terminate_pid pid grace)"
proof -
  assume s: "stable e P" and p: "inert P"
  have "keeps e P (terminate_loop pid d)" for d
    using keeps_terminate_loop [OF s, of _ pid d] p by (simp add: hoare_def inert_def)
  then show ?thesis
    unfolding terminate_pid_def by (intro keeps_bind keeps_kill hoare_if hoare_deadline keeps_ret s p)
qed

lemma keeps_wait_take: "stable e P \<Longrightarrow> inert P \<Longrightarrow> keeps e P (wait_take pid d)"
  by (rule hoare_wait_take) (simp_all add: inert_def)

lemma keeps_wait_forever:
  assumes "stable e P" "inert P"
  shows "keeps e P (wait_forever pid)"
proof -
  have "case wait_forever pid e w of Ret _ w' \<Rightarrow> P w' | Panic _ \<Rightarrow> True" if "P w" for w
    using assms that
  proof (induction pid e w rule: wait_forever.induct)
    case (1 pid e w)
    show ?case
    proof (cases "wait_take pid CHILD_WAIT_SLICE e w")
      case (Ret r w')
      have "P w'" using hoareD [OF keeps_wait_take [OF 1(2,3)] 1(4) Ret] .
      then show ?thesis
        using 1(1) [OF Ret _ 1(2,3)] Ret by (cases r) (simp_all add: wait_forever.simps [of pid e w])
    qed (simp add: wait_forever.simps [of pid e w])
  qed
  then show ?thesis by (simp add: hoare_def)
qed

lemma keeps_run_shell: "stable e P \<Longrightarrow> inert P \<Longrightarrow> keeps e P (run_shell cmd cfg env_extra)"
  unfolding run_shell_def
  by (intro keeps_bind keeps_spawn_shell_cmd) (auto intro: keeps_bind keeps_wait_forever split: sum.split)

lemma keeps_wait_timed: "stable e P \<Longrightarrow> inert P \<Longrightarrow> keeps e P (wait_timed pid d)"
  unfolding wait_timed_def
  by (intro keeps_bind keeps_wait_take) (auto intro: keeps_bind keeps_terminate_pid keeps_wait_take split: option.split)

lemma keeps_run_shell_quiet_timeout:
  "stable e P \<Longrightarrow> inert P \<Longrightarrow> keeps e P (run_shell_quiet_timeout cmd cfg d)"
  unfolding run_shell_quiet_timeout_def
  by (intro keeps_bind keeps_spawn_shell_cmd) (auto intro: keeps_bind keeps_wait_timed split: sum.split)

lemma keeps_asks: "stable e P \<Longrightarrow> keeps e P (atomic (\<lambda>e w. (f e w, w)))"
  by (rule hoare_atomic) auto

lemma keeps_try_connect: "stable e P \<Longrightarrow> keeps e P (try_connect addr sas d last_err)"
  by (induction addr sas d last_err rule: try_connect.induct)
    (auto intro!: keeps_bind keeps_asks split: sum.split)

lemma keeps_run_tcp_probe: "stable e P \<Longrightarrow> keeps e P (run_tcp_probe addr d)"
  unfolding run_tcp_probe_def
  by (auto intro!: keeps_bind keeps_asks hoare_if keeps_try_connect split: sum.split)

lemma keeps_run_http_probe: "stable e P \<Longrightarrow> keeps e P (run_http_probe url http_method accepted d)"
  unfolding run_http_probe_def
  by (auto intro!: keeps_bind keeps_asks hoare_if split: sum.split)

lemma keeps_run_probe: "stable e P \<Longrightarrow> inert P \<Longrightarrow> keeps e P (run_probe probe cfg)"
  unfolding run_probe_def Let_def
  by (auto intro!: keeps_bind keeps_run_shell_quiet_timeout keeps_run_tcp_probe keeps_run_http_probe
      split: option.split probe_kind.split sum.split)

section \<open>Environment of a service\<close>

definition identity_value :: "resolved_identity option \<Rightarrow> string \<Rightarrow> string option" where
  "identity_value ident k =
     (case ident of
        None \<Rightarrow> None
      | Some i \<Rightarrow> if k = ''HOME'' then id_home i else if k = ''USER'' \<or> k = ''LOGNAME'' then id_username i else None)"

lemma map_of_rev_wf: "om_wf m \<Longrightarrow> map_of (rev m) k = om_get m k"
  by (metis distinct_rev map_of_eq_Some_iff map_of_eq_None_iff om_wf_distinct option.exhaust rev_map set_rev)

lemma get_env_default:
  "om_get (env_default maps k v m) x = (if x = k \<and> \<not> list_ex (\<lambda>y. om_contains y k) maps then Some v else om_get m x)"
  by (auto simp: env_default_def)

lemma get_identity_env:
  "om_get (identity_env maps i m) k =
     (if list_ex (\<lambda>y. om_contains y k) maps then om_get m k
      else (case identity_value (Some i) k of Some v \<Rightarrow> Some v | None \<Rightarrow> om_get m k))"
  by (auto simp: identity_env_def identity_value_def get_env_default Let_def split: option.split)

section \<open>Properties\<close>

text \<open>
  C31: the variables a service's process gets, by precedence: those of the call, then those of the service's
  own \<open>env\<close>, then the env files, then \<open>HOME\<close>, \<open>USER\<close> and \<open>LOGNAME\<close> of its identity, then the default \<open>PATH\<close>.
\<close>

theorem service_env_precedence:
  assumes "om_wf file_env" "om_wf (sc_env cfg)" "om_wf env_extra"
  shows "om_get (cm_env (build_shell_command cur file_env cmd cfg env_extra ident)) k =
    (case om_get env_extra k of Some v \<Rightarrow> Some v | None \<Rightarrow>
      (case om_get (sc_env cfg) k of Some v \<Rightarrow> Some v | None \<Rightarrow>
        (case om_get file_env k of Some v \<Rightarrow> Some v | None \<Rightarrow>
          (case identity_value ident k of Some v \<Rightarrow> Some v | None \<Rightarrow>
            if k = ''PATH'' then Some DEFAULT_SERVICE_PATH else None))))"
proof -
  let ?base = "om_insert_all env_extra (om_insert_all (sc_env cfg) (om_insert_all file_env
      (om_insert ''PATH'' DEFAULT_SERVICE_PATH [])))"
  have base: "om_get ?base k = (case om_get env_extra k of Some v \<Rightarrow> Some v | None \<Rightarrow>
      (case om_get (sc_env cfg) k of Some v \<Rightarrow> Some v | None \<Rightarrow>
        (case om_get file_env k of Some v \<Rightarrow> Some v | None \<Rightarrow>
          if k = ''PATH'' then Some DEFAULT_SERVICE_PATH else None)))"
    using assms by (simp add: om_get_insert_all map_of_rev_wf split: option.split)
  show ?thesis
  proof (cases ident)
    case None
    then have i: "identity_value ident k = None" by (simp add: identity_value_def)
    have "cm_env (build_shell_command cur file_env cmd cfg env_extra ident) = ?base"
      by (simp add: build_shell_command_def None Let_def)
    then show ?thesis unfolding i option.case using base by simp
  next
    case (Some i)
    have "om_get (cm_env (build_shell_command cur file_env cmd cfg env_extra ident)) k =
        om_get (identity_env [file_env, sc_env cfg, env_extra] i ?base) k"
      by (simp add: build_shell_command_def Some Let_def)
    then show ?thesis
      unfolding get_identity_env base using Some
      by (auto simp: om_contains_def split: option.split)
  qed
qed

theorem service_env_precedence_witness:
  "om_get (cm_env (build_shell_command (0, 0) [(''HOME'', ''/f'')] ''x'' (default_service_config ''s'') [] (Some demo_identity))) ''HOME''
     = Some ''/f''"
  using service_env_precedence [of "[(''HOME'', ''/f'')]" "default_service_config ''s''" "[]"]
  by (simp add: om_wf_def default_service_config_def)

text \<open>
  Terminating a process sends it \<open>SIGTERM\<close> first and at most one more signal, a \<open>SIGKILL\<close>: at once when the grace
  is zero, otherwise not before the grace has passed, and never after the process was seen to be
  gone. It ends unless the clock overflows.
\<close>

lemma terminate_loop_signals:
  assumes "terminate_loop pid deadline e w = Ret gone w'" "\<And>w. w_signals (others e w) = w_signals w"
  shows "w_signals w' = w_signals w \<and> (\<not> gone \<longrightarrow> deadline \<le> w_now w')"
  using assms
proof (induction pid deadline e w rule: terminate_loop.induct)
  case (1 pid deadline e w)
  let ?w1 = "others e w" and ?w2 = "others e (others e w)"
  show ?case
  proof (cases "w_now ?w1 < deadline \<and> \<not> e_gone e (w_tick ?w2) pid")
    case True
    obtain w3 where s: "sleep TERMINATE_POLL e ?w2 = Ret () w3" by (simp add: sleep_def)
    have "w_signals w3 = w_signals w" using s 1(3) by (auto simp: sleep_def)
    then show ?thesis
      using 1(1) [OF refl _ refl _ s _ 1(3)] 1(2) True s
      by (simp add: terminate_loop.simps [of pid deadline e w] Let_def)
  next
    case False
    then show ?thesis using 1(2,3) by (auto simp: terminate_loop.simps [of pid deadline e w] Let_def split: if_splits)
  qed
qed

theorem terminate_term_then_kill:
  assumes "terminate_pid pid grace e w = Ret () w'" "\<And>w. w_signals (others e w) = w_signals w"
  shows "w_signals w' = w_signals w @ [(pid, SIGTERM)] \<and> grace \<noteq> 0
    \<or> w_signals w' = w_signals w @ [(pid, SIGTERM), (pid, SIGKILL)]
        \<and> (grace = 0 \<or> w_now w + secs (unat grace) \<le> w_now w')"
proof (cases "grace = 0")
  case True
  then show ?thesis
    using assms(1) by (auto simp: terminate_pid_def kill_def assms(2))
next
  case False
  let ?w1 = "(others e w)\<lparr>w_signals := w_signals (others e w) @ [(pid, SIGTERM)]\<rparr>"
  let ?d = "w_now (others e ?w1) + secs (unat grace)"
  have now: "w_now w \<le> w_now (others e ?w1)"
    by (rule order_trans [OF others_now [of w e]]) (use others_now [of ?w1 e] in simp)
  obtain gone v where loop: "terminate_loop pid ?d e (others e ?w1) = Ret gone v"
      and rest: "(if gone then ret () else kill pid SIGKILL) e v = Ret () w'"
    using assms(1) False
    by (auto simp: terminate_pid_def kill_def bind_Ret deadline_after_def Let_def split: if_splits)
  have sig: "w_signals v = w_signals w @ [(pid, SIGTERM)]" and dl: "\<not> gone \<Longrightarrow> ?d \<le> w_now v"
    using terminate_loop_signals [OF loop assms(2)] by (simp_all add: assms(2))
  show ?thesis
  proof (cases gone)
    case True
    then show ?thesis using rest sig False by simp
  next
    case g: False
    then have "w' = (others e v)\<lparr>w_signals := w_signals (others e v) @ [(pid, SIGKILL)]\<rparr>"
      using rest by (simp add: kill_def)
    then have "w_signals w' = w_signals w @ [(pid, SIGTERM), (pid, SIGKILL)]" "w_now w' = w_now (others e v)"
      by (simp_all add: assms(2) sig)
    moreover have "w_now w + secs (unat grace) \<le> w_now (others e v)"
      using dl [OF g] now others_now [of v e] by linarith
    ultimately show ?thesis by simp
  qed
qed

definition demo_env :: env where
  "demo_env =
     \<lparr>e_other = (\<lambda>_ w. w), e_spawn = (\<lambda>_ _. Inr 42), e_wake = (\<lambda>_. 0), e_late = (\<lambda>_. 0), e_gone = (\<lambda>_ _. True),
      e_ts = (\<lambda>_. ''t''), e_opens = (\<lambda>_. False), e_db = demo_db, e_cur = (0, 0), e_json = demo_json,
      e_fault = (\<lambda>_ _ _. None), e_resolve = (\<lambda>_ _. Inl ''no resolver''), e_connect = (\<lambda>_ _ _. Inl ''refused''),
      e_http = (\<lambda>_ _ _ _. Inr 200), e_thread = (\<lambda>_ _. None), e_ho = id\<rparr>"

definition demo_world :: "config \<Rightarrow> world" where
  "demo_world cfg =
     \<lparr>w_tick = 0, w_now = 0, w_utc = 0, w_config = cfg,
      w_runtimes = om_of_list (map (\<lambda>s. (sc_name s, new_runtime (sc_enabled s))) (cfg_services cfg)),
      w_stop_all = False, w_ctl = [], w_queues = [], w_next_chan = 0, w_exits = [],
      w_hub = hub_new 10 True True None, w_con_out = [], w_con_mirrors = True, w_watch = watch_new,
      w_env_cache = [], w_files = [], w_override_path = ''/data/etc/o.json'', w_signals = [], w_spawned = []\<rparr>"

lemma demo_others: "others demo_env w = w\<lparr>w_tick := Suc (w_tick w)\<rparr>"
  by (simp add: others_def demo_env_def)

lemma demo_terminate:
  "terminate_pid 42 5 demo_env (demo_world demo_config) =
     Ret () ((demo_world demo_config)\<lparr>w_tick := 4, w_signals := [(42, SIGTERM)]\<rparr>)"
  by (simp add: terminate_pid_def kill_def bind_def deadline_after_def terminate_loop.simps demo_others
      Let_def INSTANT_LIMIT_def) (simp add: demo_env_def demo_world_def)

theorem terminate_term_then_kill_witness:
  "\<exists>w'. terminate_pid 42 5 demo_env (demo_world demo_config) = Ret () w' \<and> w_signals w' = [(42, SIGTERM)]"
  using terminate_term_then_kill [OF demo_terminate] demo_terminate by (auto simp: demo_others demo_world_def)

text \<open>
  A probe that validation accepts has exactly one kind, so a probe run never fails for lack of one.
\<close>

lemma trimmed_non_empty: "trimmed opt \<noteq> None \<longleftrightarrow> non_empty opt"
  by (simp add: trimmed_def non_empty_def split: option.split)

lemma trimmed_None: "trimmed opt = None \<longleftrightarrow> \<not> non_empty opt"
  using trimmed_non_empty [of opt] by blast

theorem valid_probe_has_kind:
  assumes "valid_probe p"
  shows "\<exists>k. probe_kind_of p = Some k"
proof -
  have count: "of_bool (trimmed (lp_cmd p) \<noteq> None) + of_bool (trimmed (lp_http_url p) \<noteq> None)
      + of_bool (trimmed (lp_tcp_addr p) \<noteq> None) = (1 :: nat)"
    using assms unfolding valid_probe_def kind_count_def trimmed_non_empty by blast
  show ?thesis
    using count
    by (cases "trimmed (lp_cmd p)"; cases "trimmed (lp_tcp_addr p)"; cases "trimmed (lp_http_url p)")
      (simp_all add: probe_kind_of_def)
qed

definition demo_probe :: liveness_probe where
  "demo_probe = \<lparr>lp_cmd = Some '' check '', lp_http_url = None, lp_tcp_addr = Some '' '', lp_success_exit_codes = [0],
     lp_http_accepted_codes = [200], lp_http_method = ''GET'', lp_interval = 30, lp_timeout = 5, lp_failure_threshold = 2\<rparr>"

lemma demo_probe_valid: "valid_probe demo_probe"
proof -
  have "trim '' check '' = ''check''" "trim '' '' = []" by code_simp+
  then show ?thesis by (simp add: valid_probe_def demo_probe_def kind_count_def non_empty_def)
qed

theorem valid_probe_has_kind_witness: "\<exists>k. probe_kind_of demo_probe = Some k"
  using valid_probe_has_kind [OF demo_probe_valid] .

end
