(* ===== verification/Child_Wait.thy ===== *)
theory Child_Wait
  imports Service
begin

text \<open>
  Waiting for a child that was just spawned (\<open>wait_spawned_child\<close> of \<open>src/src/service.rs\<close>): through the exit registry when the
  reaper thread runs, and on the handle itself when it does not. The daemon always starts the reaper first, so the
  other theories use the first way directly; here both are defined and shown to treat a timeout alike.
\<close>

section \<open>The handle\<close>

datatype child_exit = ExitedWith i32 | Signalled

text \<open>The answers of \<open>try_wait\<close> and \<open>wait\<close> at a section, and how long \<open>wait\<close> blocks.\<close>

record child_handle =
  ch_try :: "nat \<Rightarrow> string + child_exit option"
  ch_wait :: "nat \<Rightarrow> string + child_exit"
  ch_blocks :: "nat \<Rightarrow> millis"

datatype child_bound = Forever | Timeout millis

text \<open>\<open>status.code().unwrap_or(1)\<close>\<close>

definition status_code :: "child_exit \<Rightarrow> i32" where
  "status_code st = (case st of ExitedWith c \<Rightarrow> c | Signalled \<Rightarrow> 1)"

definition child_wait :: "child_handle \<Rightarrow> (string + child_exit) prog" where
  "child_wait ch = atomic (\<lambda>e w. (ch_wait ch (w_tick w), w\<lparr>w_now := w_now w + ch_blocks ch (w_tick w)\<rparr>))"

section \<open>The reaper thread\<close>

text \<open>
  \<open>ensure_reaper_thread\<close> (\<open>src/src/reaper.rs\<close>): the flag is set before the thread is created, and an error of its creation is
  ignored. \<open>rp_thread\<close> tells whether the thread exists.
\<close>

record reaper_state =
  rp_started :: bool
  rp_thread :: bool

definition is_running :: "reaper_state \<Rightarrow> bool" where
  "is_running st = rp_started st"

definition ensure_reaper_thread :: "string option \<Rightarrow> reaper_state \<Rightarrow> reaper_state" where
  "ensure_reaper_thread spawn_error st =
     (if rp_started st then st else \<lparr>rp_started = True, rp_thread = (spawn_error = None)\<rparr>)"

section \<open>Both ways\<close>

definition wait_via_registry :: "i32 \<Rightarrow> child_bound \<Rightarrow> i32 option res prog" where
  "wait_via_registry pid bound =
     (case bound of
        Forever \<Rightarrow> bind (wait_forever pid) (\<lambda>code. ret (Inr (Some code)))
      | Timeout timeout \<Rightarrow> bind (wait_timed pid timeout) (\<lambda>r. ret (Inr r)))"

function owned_loop :: "child_handle \<Rightarrow> i32 \<Rightarrow> string \<Rightarrow> millis \<Rightarrow> env \<Rightarrow> world \<Rightarrow> i32 option res outcome" where
  "owned_loop ch pid name deadline e w =
     (let w1 = others e w in
      case ch_try ch (w_tick w1) of
        Inl err \<Rightarrow> Ret (Inl (ErrService name err)) w1
      | Inr (Some st) \<Rightarrow> Ret (Inr (Some (status_code st))) w1
      | Inr None \<Rightarrow>
          (let w2 = others e w1 in
           if w_now w2 \<ge> deadline then bind (terminate_pid pid 0) (\<lambda>_. bind (child_wait ch) (\<lambda>_. ret (Inr None))) e w2
           else (case sleep CHILD_WAIT_POLL e w2 of
                   Ret _ w3 \<Rightarrow> owned_loop ch pid name deadline e w3
                 | Panic msg \<Rightarrow> Panic msg)))"
  by pat_completeness auto
termination
proof (relation "measure (\<lambda>(ch, pid, name, deadline, e, w). deadline - w_now w)", goal_cases)
  case (2 ch pid name deadline e w w1 r w2 u w3)
  have "w_now w \<le> w_now w2" unfolding 2(1,4) by (rule order_trans [OF others_now others_now])
  moreover have "w_now w2 < w_now w3" using 2 others_now [of w2 e] by (auto simp: sleep_def CHILD_WAIT_POLL_def simp del: others_now)
  moreover have "w_now w2 < deadline" using 2 by simp
  ultimately show ?case by (simp add: diff_less_mono2)
qed simp

declare owned_loop.simps [simp del]

definition wait_via_owned :: "child_handle \<Rightarrow> i32 \<Rightarrow> string \<Rightarrow> child_bound \<Rightarrow> i32 option res prog" where
  "wait_via_owned ch pid name bound =
     (case bound of
        Forever \<Rightarrow>
          bind (child_wait ch) (\<lambda>r.
          ret (case r of Inl err \<Rightarrow> Inl (ErrService name err) | Inr st \<Rightarrow> Inr (Some (status_code st))))
      | Timeout timeout \<Rightarrow> bind (deadline_after timeout) (\<lambda>deadline. owned_loop ch pid name deadline))"

definition wait_spawned_child :: "bool \<Rightarrow> child_handle \<Rightarrow> i32 \<Rightarrow> string \<Rightarrow> child_bound \<Rightarrow> i32 option res prog" where
  "wait_spawned_child reaper_running ch pid name bound =
     (if reaper_running then wait_via_registry pid bound else wait_via_owned ch pid name bound)"

definition run_shell_quiet :: "string \<Rightarrow> service_config \<Rightarrow> i32 res prog" where
  "run_shell_quiet cmd cfg =
     bind (spawn_shell_cmd cmd cfg [] True) (\<lambda>r.
       case r of Inl err \<Rightarrow> ret (Inl err) | Inr pid \<Rightarrow> bind (wait_forever pid) (\<lambda>code. ret (Inr code)))"

section \<open>Signals sent\<close>

definition quiet_env :: "env \<Rightarrow> bool" where
  "quiet_env e = (\<forall>w. w_signals (others e w) = w_signals w)"

lemma wait_take_signals:
  assumes "quiet_env e" "wait_take pid d e w = Ret r w'"
  shows "w_signals w' = w_signals w"
proof -
  have "hoare e (\<lambda>v. w_signals v = w_signals w) (wait_take pid d) (\<lambda>_ v. w_signals v = w_signals w)"
    using assms(1) by (intro hoare_wait_take) (simp_all add: stable_def quiet_env_def timeless_def exit_free_def)
  from hoareD [OF this refl assms(2)] show ?thesis .
qed

lemma kill_now_signals:
  assumes "quiet_env e"
  shows "\<exists>w'. terminate_pid pid 0 e w = Ret () w' \<and> w_signals w' = w_signals w @ [(pid, SIGTERM), (pid, SIGKILL)] \<and> w_now w \<le> w_now w'"
proof -
  have "w_now w \<le> w_now (others e ((others e w)\<lparr>w_signals := sg\<rparr>))" for sg
    by (rule order_trans [OF others_now [of w e]]) (use others_now [of "(others e w)\<lparr>w_signals := sg\<rparr>" e] in simp)
  then show ?thesis using assms by (simp add: terminate_pid_def kill_def quiet_env_def)
qed

definition gives_up :: "i32 \<Rightarrow> millis \<Rightarrow> i32 option res \<Rightarrow> world \<Rightarrow> world \<Rightarrow> bool" where
  "gives_up pid deadline r w w' =
     (if r = Inr None then w_signals w' = w_signals w @ [(pid, SIGTERM), (pid, SIGKILL)] \<and> deadline \<le> w_now w'
      else w_signals w' = w_signals w)"

lemma owned_loop_gives_up:
  "owned_loop ch pid name deadline e w = Ret r w' \<Longrightarrow> quiet_env e \<Longrightarrow> gives_up pid deadline r w w'"
proof (induction ch pid name deadline e w rule: owned_loop.induct)
  case (1 ch pid name deadline e w)
  let ?w1 = "others e w" and ?w2 = "others e (others e w)"
  have sig: "w_signals ?w1 = w_signals w" "w_signals ?w2 = w_signals w" using 1(3) by (simp_all add: quiet_env_def)
  note step = owned_loop.simps [of ch pid name deadline e w]
  show ?case
  proof (cases "ch_try ch (w_tick ?w1) = Inr None")
    case False
    then show ?thesis using 1(2) sig by (auto simp: step gives_up_def Let_def split: sum.splits option.splits)
  next
    case waiting: True
    show ?thesis
    proof (cases "deadline \<le> w_now ?w2")
      case True
      obtain v where v: "terminate_pid pid 0 e ?w2 = Ret () v" "w_signals v = w_signals w @ [(pid, SIGTERM), (pid, SIGKILL)]" "w_now ?w2 \<le> w_now v"
        using kill_now_signals [OF 1(3), of pid ?w2] sig by auto
      have "r = Inr None \<and> w_signals w' = w_signals v \<and> w_now v \<le> w_now w'"
        using 1(2,3) waiting True others_now [of v e] by (auto simp: step bind_def v(1) child_wait_def atomic_simp quiet_env_def simp del: others_now)
      then show ?thesis using v True by (auto simp: gives_up_def)
    next
      case False
      obtain w3 where w3: "sleep CHILD_WAIT_POLL e ?w2 = Ret () w3" "w_signals w3 = w_signals w"
        using 1(3) by (simp add: sleep_def quiet_env_def)
      have "owned_loop ch pid name deadline e w3 = Ret r w'"
        using 1(2) waiting False w3(1) by (simp add: step Let_def)
      then show ?thesis using 1(1) [OF refl waiting refl refl False w3(1) _ 1(3)] w3(2) by (simp add: gives_up_def)
    qed
  qed
qed

lemma wait_timed_gives_up:
  assumes "quiet_env e" "wait_timed pid t e w = Ret r w'"
  shows "gives_up pid (w_now w + t) (Inr r) w w'"
proof -
  obtain r1 w1 where w1: "wait_take pid t e w = Ret r1 w1" using assms(2) by (auto simp: wait_timed_def bind_Ret)
  note s1 = wait_take_signals [OF assms(1) w1] and t1 = wait_take_now [OF w1]
  show ?thesis
  proof (cases r1)
    case (Some code)
    then show ?thesis using assms(2) w1 s1 by (auto simp: wait_timed_def bind_def gives_up_def)
  next
    case None
    obtain w2 where w2: "terminate_pid pid 0 e w1 = Ret () w2" "w_signals w2 = w_signals w1 @ [(pid, SIGTERM), (pid, SIGKILL)]" "w_now w1 \<le> w_now w2"
      using kill_now_signals [OF assms(1)] by blast
    obtain r3 where w3: "wait_take pid REAP_AFTER_KILL e w2 = Ret r3 w'" "r = None"
      using assms(2) w1 None w2(1) by (auto simp: wait_timed_def bind_Ret)
    show ?thesis
      using wait_take_signals [OF assms(1) w3(1)] wait_take_now [OF w3(1)] w2 s1 t1 None w3(2) by (auto simp: gives_up_def)
  qed
qed

section \<open>Properties\<close>

text \<open>Without its thread the reaper still counts as running, now and after every later attempt.\<close>

theorem reaper_flag_without_thread:
  "is_running (ensure_reaper_thread (Some err) \<lparr>rp_started = False, rp_thread = False\<rparr>)
    \<and> \<not> rp_thread (ensure_reaper_thread again (ensure_reaper_thread (Some err) \<lparr>rp_started = False, rp_thread = False\<rparr>))"
  by (simp add: is_running_def ensure_reaper_thread_def)


definition demo_handle :: child_handle where
  "demo_handle = \<lparr>ch_try = (\<lambda>_. Inr None), ch_wait = (\<lambda>_. Inr Signalled), ch_blocks = (\<lambda>_. 3)\<rparr>"


end
