(* ===== verification/Supervisor.thy ===== *)
theory Supervisor
  imports Service
begin

text \<open>
  The operations of \<open>Supervisor\<close> (\<open>src/src/supervisor.rs\<close>) other than the monitor loop: snapshots, watch
  notification, the control operations behind the IPC requests, reload, boot and ordered stop. Each runs in the
  thread of its caller, as a sequence of critical sections.
\<close>

section \<open>Building blocks\<close>

definition log_init :: "log_level \<Rightarrow> string \<Rightarrow> unit prog" where
  "log_init level msg =
     writes (\<lambda>e w. w\<lparr>w_hub := emit (e_opens e) (e_ts e (w_tick w)) INIT_SERVICE level msg (w_hub w)\<rparr>)"

definition make_status :: "string \<Rightarrow> runtime \<Rightarrow> labels \<Rightarrow> service_status" where
  "make_status name rt ls =
     \<lparr>st_name = name, st_state = rt_state rt, st_pid = rt_pid rt, st_restarts = rt_restarts rt,
      st_liveness_failures = rt_liveness_failures rt, st_enabled = rt_enabled rt, st_labels = ls\<rparr>"

text \<open>\<open>list\<close> holds both locks, so it is one section.\<close>

definition list_services :: "world \<Rightarrow> service_status list" where
  "list_services w =
     List.map_filter (\<lambda>s. map_option (\<lambda>rt. make_status (sc_name s) rt (sc_labels s)) (om_get (w_runtimes w) (sc_name s)))
       (cfg_services (w_config w))"

definition notify_watchers :: "unit prog" where
  "notify_watchers =
     bind (reads (\<lambda>w. follower_count (w_watch w))) (\<lambda>n.
       if n = 0 then ret ()
       else bind (reads list_services) (\<lambda>l. writes (\<lambda>e w. w\<lparr>w_watch := watch_publish l (w_watch w)\<rparr>)))"

definition watch_subscribe :: "string list \<Rightarrow> nat option prog" where
  "watch_subscribe label_keys =
     bind (atomic (\<lambda>e w. let (h, r) = watch_try_subscribe label_keys (w_watch w) in (r, w\<lparr>w_watch := h\<rparr>))) (\<lambda>r.
       case r of None \<Rightarrow> ret None | Some sub \<Rightarrow> bind notify_watchers (\<lambda>_. ret (Some sub)))"

definition put_state :: "string \<Rightarrow> service_state \<Rightarrow> i32 option \<Rightarrow> world \<Rightarrow> world" where
  "put_state name st pid w = w\<lparr>w_runtimes := set_state (w_now w) (w_utc w) name st pid (w_runtimes w)\<rparr>"

definition apply_state :: "string \<Rightarrow> service_state \<Rightarrow> i32 option \<Rightarrow> unit prog" where
  "apply_state name st pid = bind (writes (\<lambda>e. put_state name st pid)) (\<lambda>_. notify_watchers)"

text \<open>\<open>Shared::set_enabled\<close> takes the lock twice.\<close>

definition apply_enabled :: "string \<Rightarrow> bool \<Rightarrow> unit prog" where
  "apply_enabled name enabled =
     bind (atomic (\<lambda>e w. let (m, st) = set_enabled_flag name enabled (w_runtimes w) in (st, w\<lparr>w_runtimes := m\<rparr>))) (\<lambda>st.
     bind (case st of Some s \<Rightarrow> writes (\<lambda>e. put_state name s None) | None \<Rightarrow> ret ()) (\<lambda>_.
     notify_watchers))"

definition service_cfg :: "string \<Rightarrow> service_config res prog" where
  "service_cfg name =
     reads (\<lambda>w. case get (w_config w) name of Some s \<Rightarrow> Inr s | None \<Rightarrow> Inl (ErrUnknownService name))"

definition status :: "string \<Rightarrow> world \<Rightarrow> service_status res" where
  "status name w =
     (case om_get (w_runtimes w) name of
        None \<Rightarrow> Inl (ErrUnknownService name)
      | Some rt \<Rightarrow> Inr (make_status name rt (case get (w_config w) name of Some s \<Rightarrow> sc_labels s | None \<Rightarrow> [])))"

section \<open>Control channels\<close>

definition send_ctl :: "string \<Rightarrow> ctl_msg \<Rightarrow> unit res prog" where
  "send_ctl name msg = atomic (\<lambda>e w.
     case om_get (w_ctl w) name of
       None \<Rightarrow> (Inl (ErrUnknownService name), w)
     | Some ch \<Rightarrow>
         (case om_get (w_queues w) ch of
            None \<Rightarrow> (Inl (ErrService name ''control channel closed''), w)
          | Some q \<Rightarrow> (Inr (), w\<lparr>w_queues := om_insert ch (q @ [msg]) (w_queues w)\<rparr>)))"

definition start_service :: "string \<Rightarrow> bool \<Rightarrow> string res prog" where
  "start_service name force =
     bind (reads (\<lambda>w. is_enabled name (w_runtimes w))) (\<lambda>en.
     case en of
       Inl err \<Rightarrow> ret (Inl err)
     | Inr False \<Rightarrow> ret (Inl (ErrDisabled name))
     | Inr True \<Rightarrow>
         bind (service_cfg name) (\<lambda>c.
         case c of
           Inl err \<Rightarrow> ret (Inl err)
         | Inr cfg \<Rightarrow>
             bind (reads (\<lambda>w. unmet_deps (sc_depends_on cfg) (w_runtimes w))) (\<lambda>u.
             case u of
               Inl err \<Rightarrow> ret (Inl err)
             | Inr unmet_names \<Rightarrow>
                 let message =
                   (if unmet_names = [] then name @ '': starting''
                    else if force then name @ '': starting with --force (unmet dependencies: '' @ join '', '' unmet_names @ '')''
                    else name @ '': waiting for dependencies ('' @ join '', '' unmet_names @ '')'')
                 in bind (log_init LvInfo (''request: start '' @ name @ (if force then '' --force'' else []))) (\<lambda>_.
                    bind (send_ctl name (CtlStart force)) (\<lambda>r.
                      ret (case r of Inl err \<Rightarrow> Inl err | Inr _ \<Rightarrow> Inr message))))))"

definition stop_service :: "string \<Rightarrow> unit res prog" where
  "stop_service name =
     bind (log_init LvInfo (''request: stop '' @ name)) (\<lambda>_. send_ctl name CtlStop)"

definition restart_service :: "string \<Rightarrow> unit res prog" where
  "restart_service name =
     bind (reads (\<lambda>w. is_enabled name (w_runtimes w))) (\<lambda>en.
     case en of
       Inl err \<Rightarrow> ret (Inl err)
     | Inr False \<Rightarrow> ret (Inl (ErrDisabled name))
     | Inr True \<Rightarrow>
         bind (log_init LvInfo (''request: restart '' @ name)) (\<lambda>_. send_ctl name CtlRestart))"

text \<open>\<open>Supervisor::set_enabled\<close>: configuration, override file, runtime record, monitor.\<close>

definition config_set_enabled :: "string \<Rightarrow> bool \<Rightarrow> unit res prog" where
  "config_set_enabled name enabled = atomic (\<lambda>e w.
     case get (w_config w) name of
       None \<Rightarrow> (Inl (ErrUnknownService name), w)
     | Some _ \<Rightarrow> (Inr (), w\<lparr>w_config := update_service name (\<lambda>s. s\<lparr>sc_enabled := enabled\<rparr>) (w_config w)\<rparr>))"

definition write_override :: "(string, bool) omap \<Rightarrow> unit res prog" where
  "write_override m = atomic (\<lambda>e w.
     let (fs, r) = save_override (e_json e) (e_fault e (w_tick w)) (w_override_path w) m (w_files w)
     in (r, w\<lparr>w_files := fs\<rparr>))"

definition store_override :: "string \<Rightarrow> bool \<Rightarrow> unit res prog" where
  "store_override name enabled =
     bind (atomic (\<lambda>e w. (load_override (e_json e) (e_fault e (w_tick w)) (w_files w) (w_override_path w), w))) (\<lambda>ov.
     case ov of
       Inl err \<Rightarrow> ret (Inl err)
     | Inr m \<Rightarrow> write_override (om_insert name enabled m))"

definition sup_set_enabled :: "string \<Rightarrow> bool \<Rightarrow> unit res prog" where
  "sup_set_enabled name enabled =
     bind (config_set_enabled name enabled) (\<lambda>r.
     case r of
       Inl err \<Rightarrow> ret (Inl err)
     | Inr _ \<Rightarrow>
         bind (store_override name enabled) (\<lambda>r.
         case r of
           Inl err \<Rightarrow> ret (Inl err)
         | Inr _ \<Rightarrow>
             bind (log_init LvInfo (''request: '' @ (if enabled then ''enable'' else ''disable'') @ '' '' @ name)) (\<lambda>_.
             bind (apply_enabled name enabled) (\<lambda>_.
             send_ctl name (if enabled then CtlStart False else CtlStop)))))"

section \<open>Boot\<close>

text \<open>\<open>spawn_monitor\<close>: a new channel whose receiver belongs to the monitor thread. The thread itself is the loop of
  \<open>Monitor\<close>; \<open>e_thread\<close> tells whether a thread of that name can be created.\<close>

definition spawn_monitor :: "string \<Rightarrow> unit res prog" where
  "spawn_monitor name = atomic (\<lambda>e w.
     let ch = w_next_chan w;
         w1 = w\<lparr>w_ctl := om_insert name ch (w_ctl w), w_queues := om_insert ch [] (w_queues w), w_next_chan := ch + 1\<rparr>
     in case e_thread e (w_tick w) (''svc-'' @ name) of
          None \<Rightarrow> (Inr (), w1)
        | Some err \<Rightarrow> (Inl (ErrOther err), w1\<lparr>w_queues := om_remove ch (w_queues w1)\<rparr>))"

fun spawn_monitors :: "string list \<Rightarrow> unit res prog" where
  "spawn_monitors [] = ret (Inr ())"
| "spawn_monitors (n # ns) =
     bind (spawn_monitor n) (\<lambda>r. case r of Inl err \<Rightarrow> ret (Inl err) | Inr _ \<Rightarrow> spawn_monitors ns)"

text \<open>
  The loop of \<open>wait_settled\<close>; the lock is held from the check to the wait.
\<close>

function wait_settled_loop :: "string \<Rightarrow> millis \<Rightarrow> env \<Rightarrow> world \<Rightarrow> service_state outcome" where
  "wait_settled_loop name deadline e w =
     (let st = settle_state name (w_runtimes w) in
      if settled st then Ret st w
      else if w_now w \<ge> deadline then Ret st w
      else (case cv_wait (deadline - w_now w) e w of
              Ret True w' \<Rightarrow> Ret (settle_state name (w_runtimes w')) w'
            | Ret False w' \<Rightarrow> wait_settled_loop name deadline e w'
            | Panic s \<Rightarrow> Panic s))"
  by pat_completeness auto
termination
proof (relation "measure (\<lambda>(name, deadline, e, w). deadline - w_now w)", goal_cases)
  case 2
  then show ?case by (auto dest!: cv_wait_False)
qed simp

declare wait_settled_loop.simps [simp del]

definition wait_settled :: "string \<Rightarrow> millis \<Rightarrow> service_state prog" where
  "wait_settled name timeout =
     bind (deadline_after timeout) (\<lambda>deadline. bind (reads (\<lambda>_. ())) (\<lambda>_. wait_settled_loop name deadline))"

text \<open>The console with the shared hub.\<close>

definition con_do :: "(env \<Rightarrow> nat \<Rightarrow> console \<Rightarrow> console) \<Rightarrow> unit prog" where
  "con_do f = writes (\<lambda>e w.
     let c = f e (w_tick w) \<lparr>con_out = w_con_out w, con_hub = (if w_con_mirrors w then Some (w_hub w) else None)\<rparr>
     in w\<lparr>w_con_out := con_out c, w_hub := (case con_hub c of Some h \<Rightarrow> h | None \<Rightarrow> w_hub w)\<rparr>)"

definition con_starting :: "string \<Rightarrow> unit prog" where
  "con_starting name = con_do (\<lambda>e k. console_starting (e_opens e) (e_ts e k) name)"

definition con_status :: "string \<Rightarrow> bool \<Rightarrow> unit prog" where
  "con_status name ok = con_do (\<lambda>e k. console_status (e_opens e) (e_ts e k) name ok)"

definition boot_background :: "string \<Rightarrow> unit prog" where
  "boot_background name =
     bind (send_ctl name (CtlStart False)) (\<lambda>r.
       case r of Inl err \<Rightarrow> log_init LvError (''start '' @ name @ '': '' @ error_to_string err) | Inr _ \<Rightarrow> ret ())"

definition boot_foreground :: "string \<Rightarrow> unit prog" where
  "boot_foreground name =
     bind (con_starting name) (\<lambda>_.
     bind (send_ctl name (CtlStart False)) (\<lambda>r.
     case r of
       Inl err \<Rightarrow>
         bind (log_init LvError (''start '' @ name @ '': '' @ error_to_string err)) (\<lambda>_. con_status name False)
     | Inr _ \<Rightarrow>
         bind (wait_settled name BOOT_FG_SETTLE) (\<lambda>st. con_status name (st = Running \<or> st = Succeeded))))"

definition boot_report_background :: "string \<Rightarrow> unit prog" where
  "boot_report_background name =
     bind (wait_settled name BOOT_BG_SETTLE) (\<lambda>st.
       con_status name (st \<in> {Running, Succeeded, Starting, Pending, WaitingForDependency}))"

definition boot :: "unit res prog" where
  "boot =
     bind (reads (\<lambda>w. cfg_services (w_config w))) (\<lambda>services.
     bind (spawn_monitors (map sc_name services)) (\<lambda>r.
     case r of
       Inl err \<Rightarrow> ret (Inl err)
     | Inr _ \<Rightarrow> (\<lambda>e.
         (case partition_boot (e_ho e) services of
            Inl err \<Rightarrow> ret (Inl err)
          | Inr (fg, bg) \<Rightarrow>
              bind (for_each boot_background bg) (\<lambda>_.
              bind (for_each boot_foreground fg) (\<lambda>_.
              bind (for_each boot_report_background bg) (\<lambda>_. ret (Inr ()))))) e)))"

section \<open>Reload\<close>

definition definition_eq :: "service_config \<Rightarrow> service_config \<Rightarrow> bool" where
  "definition_eq a b =
     (a\<lparr>sc_enabled := True, sc_resolved_security := None\<rparr> = b\<lparr>sc_enabled := True, sc_resolved_security := None\<rparr>)"

definition warn_if :: "bool \<Rightarrow> string \<Rightarrow> unit prog" where
  "warn_if c msg = (if c then log_init LvWarn msg else ret ())"

definition remove_service :: "string \<Rightarrow> unit prog" where
  "remove_service name =
     bind (log_init LvInfo (''reload: removing service '' @ name)) (\<lambda>_.
     bind (send_ctl name CtlStop) (\<lambda>_.
     bind (sleep 200) (\<lambda>_.
     bind (writes (\<lambda>e w.
        case om_get (w_ctl w) name of
          None \<Rightarrow> w
        | Some ch \<Rightarrow>
            let q = w_queues w in
            w\<lparr>w_ctl := om_remove name (w_ctl w),
              w_queues := (case om_get q ch of Some ms \<Rightarrow> om_insert ch (ms @ [CtlQuit]) q | None \<Rightarrow> q)\<rparr>)) (\<lambda>_.
     writes (\<lambda>e w. w\<lparr>w_runtimes := om_remove name (w_runtimes w)\<rparr>)))))"

definition reload_service :: "config \<Rightarrow> service_config \<Rightarrow> unit res prog" where
  "reload_service old svc =
     (let name = sc_name svc in
      if name \<notin> set (map sc_name (cfg_services old)) then
        bind (log_init LvInfo (''reload: adding service '' @ name)) (\<lambda>_.
        bind (writes (\<lambda>e w. w\<lparr>w_runtimes := om_insert name (new_runtime (sc_enabled svc)) (w_runtimes w)\<rparr>)) (\<lambda>_.
        bind (spawn_monitor name) (\<lambda>r.
        case r of
          Inl err \<Rightarrow> ret (Inl err)
        | Inr _ \<Rightarrow> bind (if sc_enabled svc then send_ctl name (CtlStart False) else ret (Inr ())) (\<lambda>_. ret (Inr ())))))
      else (case get old name of
        None \<Rightarrow> ret (Inr ())
      | Some old_svc \<Rightarrow>
          bind (if sc_enabled old_svc \<noteq> sc_enabled svc then
                  bind (apply_enabled name (sc_enabled svc)) (\<lambda>_.
                  bind (send_ctl name (if sc_enabled svc then CtlStart False else CtlStop)) (\<lambda>_. ret ()))
                else ret ()) (\<lambda>_.
          bind (if \<not> definition_eq old_svc svc then
                  bind (log_init LvInfo (''reload: definition changed for '' @ name)) (\<lambda>_.
                  bind (if sc_enabled svc then send_ctl name CtlRestart else ret (Inr ())) (\<lambda>_. ret ()))
                else ret ()) (\<lambda>_. ret (Inr ())))))"

fun reload_services :: "config \<Rightarrow> service_config list \<Rightarrow> unit res prog" where
  "reload_services old [] = ret (Inr ())"
| "reload_services old (s # ss) =
     bind (reload_service old s) (\<lambda>r. case r of Inl err \<Rightarrow> ret (Inl err) | Inr _ \<Rightarrow> reload_services old ss)"

definition reload :: "config \<Rightarrow> unit res prog" where
  "reload new_cfg =
     bind (reads w_config) (\<lambda>old.
     bind (warn_if (cfg_socket old \<noteq> cfg_socket new_cfg) ''reload: socket change ignored (restart microinit required)'') (\<lambda>_.
     bind (warn_if (cfg_logs old \<noteq> cfg_logs new_cfg) ''reload: logs.* change ignored (restart microinit required)'') (\<lambda>_.
     bind (warn_if (cfg_early_boot old \<noteq> cfg_early_boot new_cfg) ''reload: earlyBoot change ignored (restart microinit required)'') (\<lambda>_.
     bind (warn_if (cfg_console old \<noteq> cfg_console new_cfg) ''reload: console change ignored (restart microinit required)'') (\<lambda>_.
     let gone = filter (\<lambda>n. n \<notin> set (map sc_name (cfg_services new_cfg))) (remdups (map sc_name (cfg_services old)));
         applied = new_cfg\<lparr>cfg_socket := cfg_socket old, cfg_logs := cfg_logs old, cfg_console := cfg_console old\<rparr>
     in bind (\<lambda>e. for_each remove_service (e_ho e gone) e) (\<lambda>_.
        bind (writes (\<lambda>e w. w\<lparr>w_config := applied\<rparr>)) (\<lambda>_.
        bind (reload_services old (cfg_services applied)) (\<lambda>r.
        case r of
          Inl err \<Rightarrow> ret (Inl err)
        | Inr _ \<Rightarrow>
            bind (log_init LvInfo ''configuration reloaded'') (\<lambda>_.
            bind notify_watchers (\<lambda>_. ret (Inr ())))))))))))"

section \<open>Ordered stop\<close>

definition send_or_log :: "string \<Rightarrow> ctl_msg \<Rightarrow> string \<Rightarrow> unit prog" where
  "send_or_log what msg name =
     bind (send_ctl name msg) (\<lambda>r.
       case r of Inl err \<Rightarrow> log_init LvError (what @ '' '' @ name @ '': '' @ error_to_string err) | Inr _ \<Rightarrow> ret ())"

definition stop_order :: "service_config list \<Rightarrow> string list prog" where
  "stop_order services = (\<lambda>e w.
     case shutdown_order (e_ho e) services of
       Inr order \<Rightarrow> Ret order w
     | Inl err \<Rightarrow>
         bind (log_init LvError (''shutdown order failed ('' @ error_to_string err @ ''); using reverse config order''))
           (\<lambda>_. ret (rev (map sc_name services))) e w)"

definition stop_all_ordered :: "unit prog" where
  "stop_all_ordered =
     bind (writes (\<lambda>e w. w\<lparr>w_stop_all := True\<rparr>)) (\<lambda>_.
     bind (reads (\<lambda>w. cfg_services (w_config w))) (\<lambda>services.
     bind (stop_order services) (\<lambda>order.
     bind (for_each (send_or_log ''stop'' CtlStop) order) (\<lambda>_.
     bind (sleep SHUTDOWN_STOP_WAIT) (\<lambda>_.
     bind (for_each (send_or_log ''quit'' CtlQuit) order) (\<lambda>_.
     sleep SHUTDOWN_QUIT_WAIT))))))"

section \<open>Invariants a thread keeps\<close>

text \<open>
  A predicate on the shared state that logging, the console, watch notification, processes and time keep: under
  an environment that keeps it too, so do all operations that do nothing else.
\<close>

lemma keeps_case_sum:
  "(\<And>x. keeps e P (f x)) \<Longrightarrow> (\<And>y. keeps e P (g y)) \<Longrightarrow> keeps e P (case s of Inl x \<Rightarrow> f x | Inr y \<Rightarrow> g y)"
  by (simp split: sum.split)

lemma keeps_case_option:
  "keeps e P m \<Longrightarrow> (\<And>y. keeps e P (g y)) \<Longrightarrow> keeps e P (case s of None \<Rightarrow> m | Some y \<Rightarrow> g y)"
  by (simp split: option.split)

lemma keeps_if: "keeps e P m \<Longrightarrow> keeps e P n \<Longrightarrow> keeps e P (if b then m else n)"
  by simp

lemma keeps_bool_cases:
  "(\<And>x. keeps e P (f x)) \<Longrightarrow> keeps e P m \<Longrightarrow> keeps e P n \<Longrightarrow>
   keeps e P (case s of Inl x \<Rightarrow> f x | Inr True \<Rightarrow> m | Inr False \<Rightarrow> n)"
  by (simp split: sum.split bool.split)

lemma keeps_for_each: "(\<And>x. keeps e P (f x)) \<Longrightarrow> keeps e P (for_each f xs)"
  by (rule hoare_for_each)

lemma keeps_writes: "stable e P \<Longrightarrow> (\<And>w. P w \<Longrightarrow> P (f e w)) \<Longrightarrow> keeps e P (writes f)"
  by (rule hoare_writes)

lemma keeps_atomic: "stable e P \<Longrightarrow> (\<And>w. P w \<Longrightarrow> P (snd (f e w))) \<Longrightarrow> keeps e P (atomic f)"
  by (rule hoare_atomic)

lemma keeps_deadline: "stable e P \<Longrightarrow> keeps e P (deadline_after d)"
  by (rule hoare_deadline)

lemma keeps_same_run: "(\<And>w. m e w = m' e w) \<Longrightarrow> keeps e P m' \<Longrightarrow> keeps e P m"
  by (simp add: hoare_def)

lemmas keeps_flow = keeps_bind keeps_ret keeps_reads keeps_if keeps_bool_cases keeps_case_sum keeps_case_option
  keeps_deadline keeps_for_each

locale shared_inv =
  fixes P :: "world \<Rightarrow> bool"
  assumes P_inert: "inert P"
    and P_log: "P w \<Longrightarrow> P (w\<lparr>w_hub := publish_inner opens line tee (w_hub w)\<rparr>)"
    and P_watch: "P w \<Longrightarrow> P (w\<lparr>w_watch := watch_publish l (w_watch w)\<rparr>)"
    and P_console: "P (w\<lparr>w_con_out := out\<rparr>) = P w"
begin

lemma keeps_log_init: "stable e P \<Longrightarrow> keeps e P (log_init level msg)"
  unfolding log_init_def emit_def log_publish_def by (rule keeps_writes) (simp_all add: P_log)

lemma keeps_notify_watchers: "stable e P \<Longrightarrow> keeps e P notify_watchers"
  unfolding notify_watchers_def by (intro keeps_flow keeps_writes) (simp_all add: P_watch)

lemma keeps_service_cfg: "stable e P \<Longrightarrow> keeps e P (service_cfg name)"
  unfolding service_cfg_def by (rule keeps_reads)

lemma keeps_sleep: "stable e P \<Longrightarrow> keeps e P (sleep d)"
  using P_inert by (simp add: hoare_sleep inert_def)

lemma keeps_take_exit: "stable e P \<Longrightarrow> keeps e P (take_exit pid)"
  using P_inert by (simp add: hoare_take_exit inert_def)

lemma con_mirrored:
  assumes "P w" "f = console_starting opens ts name \<or> f = console_status opens ts name ok"
  shows "P (let c = f \<lparr>con_out = w_con_out w, con_hub = (if w_con_mirrors w then Some (w_hub w) else None)\<rparr>
            in w\<lparr>w_con_out := con_out c, w_hub := (case con_hub c of Some h \<Rightarrow> h | None \<Rightarrow> w_hub w)\<rparr>)"
proof -
  have "P ((w\<lparr>w_con_out := out\<rparr>)\<lparr>w_hub := publish_inner opens' line tee (w_hub (w\<lparr>w_con_out := out\<rparr>))\<rparr>)"
    for out opens' line tee using P_log P_console assms(1) by blast
  then show ?thesis
    using assms P_console
    by (auto simp: console_starting_def console_status_def con_mirror_def emit_init_console_mirror_def Let_def)
qed

lemma keeps_console: "stable e P \<Longrightarrow> keeps e P (con_starting name)" "stable e P \<Longrightarrow> keeps e P (con_status name ok)"
  unfolding con_starting_def con_status_def con_do_def
  by (rule keeps_writes, assumption, rule con_mirrored, assumption, blast)+

lemma keeps_cv_wait: "stable e P \<Longrightarrow> keeps e P (cv_wait d)"
  using P_inert by (simp add: hoare_cv_wait inert_def)

lemma keeps_wait_settled_loop:
  assumes "stable e P" "P w"
  shows "case wait_settled_loop name deadline e w of Ret _ w' \<Rightarrow> P w' | Panic _ \<Rightarrow> True"
  using assms
proof (induction name deadline e w rule: wait_settled_loop.induct)
  case (1 name deadline e w)
  let ?st = "settle_state name (w_runtimes w)"
  show ?case
  proof (cases "settled ?st \<or> deadline \<le> w_now w")
    case False
    have cv: "P w'" if "cv_wait (deadline - w_now w) e w = Ret b w'" for b w'
      using hoareD [OF keeps_cv_wait [OF 1(2)] 1(3) that] .
    show ?thesis
    proof (cases "cv_wait (deadline - w_now w) e w")
      case (Ret b w')
      then show ?thesis
        using 1(1) [OF refl _ _ Ret _ 1(2) cv [OF Ret]] False cv [OF Ret]
        by (cases b) (simp_all add: wait_settled_loop.simps [of name deadline e w] Let_def)
    qed (use False in \<open>simp add: wait_settled_loop.simps [of name deadline e w] Let_def\<close>)
  qed (use 1(3) in \<open>auto simp: wait_settled_loop.simps [of name deadline e w] Let_def\<close>)
qed

lemma keeps_wait_settled: "stable e P \<Longrightarrow> keeps e P (wait_settled name d)"
  unfolding wait_settled_def
  by (intro keeps_flow, assumption+) (use keeps_wait_settled_loop in \<open>simp add: hoare_def\<close>)

lemmas keeps_shared = keeps_flow keeps_log_init keeps_notify_watchers keeps_service_cfg keeps_sleep keeps_take_exit
  keeps_console keeps_wait_settled

end

text \<open>A predicate that also survives messages to the monitors.\<close>

locale control_inv = shared_inv +
  assumes P_send: "P w \<Longrightarrow> om_get (w_ctl w) n = Some ch \<Longrightarrow> om_get (w_queues w) ch = Some q \<Longrightarrow>
    P (w\<lparr>w_queues := om_insert ch (q @ [msg]) (w_queues w)\<rparr>)"
begin

lemma keeps_send_ctl: "stable e P \<Longrightarrow> keeps e P (send_ctl n msg)"
  unfolding send_ctl_def by (rule keeps_atomic) (auto simp: P_send split: option.split)

lemma keeps_start_service: "stable e P \<Longrightarrow> keeps e P (start_service n force)"
  unfolding start_service_def Let_def by (intro keeps_shared keeps_send_ctl; assumption)

lemma keeps_stop_service: "stable e P \<Longrightarrow> keeps e P (stop_service n)"
  unfolding stop_service_def by (intro keeps_shared keeps_send_ctl; assumption)

lemma keeps_restart_service: "stable e P \<Longrightarrow> keeps e P (restart_service n)"
  unfolding restart_service_def by (intro keeps_shared keeps_send_ctl; assumption)

lemma keeps_boot_steps:
  "stable e P \<Longrightarrow> keeps e P (boot_background n)"
  "stable e P \<Longrightarrow> keeps e P (boot_foreground n)"
  "stable e P \<Longrightarrow> keeps e P (boot_report_background n)"
  unfolding boot_background_def boot_foreground_def boot_report_background_def
  by (intro keeps_shared keeps_send_ctl; assumption)+

lemma keeps_send_or_log: "stable e P \<Longrightarrow> keeps e P (send_or_log what msg n)"
  unfolding send_or_log_def by (intro keeps_shared keeps_send_ctl; assumption)

lemma keeps_stop_order: "stable e P \<Longrightarrow> keeps e P (stop_order services)"
proof -
  assume s: "stable e P"
  show ?thesis
  proof (cases "shutdown_order (e_ho e) services")
    case (Inl err)
    show ?thesis
      by (rule keeps_same_run [of _ _ "bind (log_init LvError (''shutdown order failed ('' @ error_to_string err
            @ ''); using reverse config order'')) (\<lambda>_. ret (rev (map sc_name services)))"])
        (auto simp: stop_order_def Inl intro!: keeps_shared s)
  next
    case (Inr order)
    show ?thesis by (rule keeps_same_run [of _ _ "ret order"]) (auto simp: stop_order_def Inr)
  qed
qed

lemma keeps_warn_if: "stable e P \<Longrightarrow> keeps e P (warn_if c msg)"
  unfolding warn_if_def by (intro keeps_shared; assumption)

end

section \<open>The invariant of the shared state\<close>

text \<open>Each control channel belongs to one service and channel numbers are never used twice.\<close>

definition channels_ok :: "world \<Rightarrow> bool" where
  "channels_ok w =
     (om_wf (w_ctl w) \<and> om_wf (w_queues w) \<and> distinct (map snd (w_ctl w))
      \<and> (\<forall>ch \<in> snd ` set (w_ctl w). ch < w_next_chan w) \<and> (\<forall>ch \<in> set (om_keys (w_queues w)). ch < w_next_chan w))"

definition sup_ok :: "world \<Rightarrow> bool" where
  "sup_ok w =
     (rts_ok (w_runtimes w) \<and> hub_ok (w_hub w) \<and> watch_ok (w_watch w) \<and> exits_ok (w_exits w) \<and> channels_ok w)"

lemma snd_om_insert: "snd ` set (om_insert k v m) \<subseteq> insert v (snd ` set m)"
  by (induction k v m rule: om_insert.induct) auto

lemma distinct_snd_insert: "distinct (map snd m) \<Longrightarrow> v \<notin> snd ` set m \<Longrightarrow> distinct (map snd (om_insert k v m))"
proof (induction k v m rule: om_insert.induct)
  case (2 k v l w m)
  then show ?case using snd_om_insert [of k v m] by auto
qed simp

lemma set_om_remove: "set (om_remove k m) \<subseteq> set m"
  by (induction k m rule: om_remove.induct) auto

lemma distinct_snd_remove: "distinct (map snd m) \<Longrightarrow> distinct (map snd (om_remove k m))"
proof (induction k m rule: om_remove.induct)
  case (2 k l w m)
  then show ?case using set_om_remove [of k m] by auto
qed simp

lemma channels_ok_queue: "channels_ok w \<Longrightarrow> om_get (w_queues w) ch \<noteq> None \<Longrightarrow>
    channels_ok (w\<lparr>w_queues := om_insert ch q (w_queues w)\<rparr>)"
  by (auto simp: channels_ok_def simp del: not_None_eq dest!: map_of_SomeD)

lemma channels_ok_close: "channels_ok w \<Longrightarrow> channels_ok (w\<lparr>w_queues := om_remove ch (w_queues w)\<rparr>)"
  using set_om_remove [of ch "w_queues w"] by (auto simp: channels_ok_def)

lemma channels_ok_open:
  assumes "channels_ok w" and w': "w' = w\<lparr>w_ctl := om_insert name (w_next_chan w) (w_ctl w),
      w_queues := om_insert (w_next_chan w) [] (w_queues w), w_next_chan := w_next_chan w + 1\<rparr>"
  shows "channels_ok w'"
proof -
  have "w_next_chan w \<notin> snd ` set (w_ctl w)" using assms(1) by (auto simp: channels_ok_def)
  then have "distinct (map snd (w_ctl w'))" using assms by (simp add: channels_ok_def distinct_snd_insert)
  moreover have "ch < w_next_chan w'" if ch: "ch \<in> snd ` set (w_ctl w')" for ch
  proof -
    have "ch \<in> insert (w_next_chan w) (snd ` set (w_ctl w))"
      using ch snd_om_insert [of name "w_next_chan w" "w_ctl w"] unfolding w' by force
    then show ?thesis using assms by (auto simp: channels_ok_def less_Suc_eq)
  qed
  ultimately show ?thesis using assms by (auto simp: channels_ok_def less_Suc_eq)
qed

lemma channels_ok_remove: "channels_ok w \<Longrightarrow> channels_ok (w\<lparr>w_ctl := om_remove name (w_ctl w)\<rparr>)"
  using set_om_remove [of name "w_ctl w"] by (auto simp: channels_ok_def distinct_snd_remove)

lemma channels_ok_frame:
  "w_ctl w' = w_ctl w \<Longrightarrow> w_queues w' = w_queues w \<Longrightarrow> w_next_chan w' = w_next_chan w \<Longrightarrow> channels_ok w' = channels_ok w"
  by (simp add: channels_ok_def)

lemma sup_ok_inert: "inert sup_ok"
  unfolding inert_def timeless_def exit_free_def sup_ok_def
  by (auto simp: channels_ok_def intro: exits_take_ok)

interpretation sup: control_inv sup_ok
proof unfold_locales
  fix w n ch q msg
  assume "sup_ok w" "om_get (w_ctl w) n = Some ch" "om_get (w_queues w) ch = Some q"
  then show "sup_ok (w\<lparr>w_queues := om_insert ch (q @ [msg]) (w_queues w)\<rparr>)"
    using channels_ok_queue [of w ch "q @ [msg]"] by (simp add: sup_ok_def)
qed (rule sup_ok_inert, auto simp: sup_ok_def channels_ok_def intro: publish_inner_ok watch_publish_ok)

lemmas sup_flow = sup.keeps_shared sup.keeps_send_ctl sup.keeps_send_or_log sup.keeps_stop_order
  sup.keeps_boot_steps sup.keeps_warn_if

lemma sup_ok_put_state: "sup_ok w \<Longrightarrow> pid \<noteq> None \<longrightarrow> keeps_pid st \<Longrightarrow> sup_ok (put_state name st pid w)"
  by (auto simp: sup_ok_def put_state_def channels_ok_def intro: set_state_ok)

lemma sup_ok_runtimes: "sup_ok w \<Longrightarrow> rts_ok m \<Longrightarrow> sup_ok (w\<lparr>w_runtimes := m\<rparr>)"
  by (auto simp: sup_ok_def channels_ok_def)

lemma sup_ok_rts: "sup_ok w \<Longrightarrow> rts_ok (w_runtimes w)"
  by (simp add: sup_ok_def)

lemma sup_ok_fields [simp]:
  "sup_ok (w\<lparr>w_config := c\<rparr>) = sup_ok w" "sup_ok (w\<lparr>w_files := fs\<rparr>) = sup_ok w"
  "sup_ok (w\<lparr>w_stop_all := b\<rparr>) = sup_ok w"
  by (simp_all add: sup_ok_def channels_ok_def)

lemma keeps_apply_state:
  "stable e sup_ok \<Longrightarrow> pid \<noteq> None \<longrightarrow> keeps_pid st \<Longrightarrow> keeps e sup_ok (apply_state name st pid)"
  unfolding apply_state_def by (intro sup_flow keeps_writes) (auto intro: sup_ok_put_state)

lemma keeps_apply_enabled: "stable e sup_ok \<Longrightarrow> keeps e sup_ok (apply_enabled name enabled)"
  unfolding apply_enabled_def
  by (intro sup_flow keeps_writes keeps_atomic)
    (auto intro!: sup_ok_put_state sup_ok_runtimes simp: split_beta Let_def dest: sup_ok_rts intro: set_enabled_flag_ok)

lemma keeps_sup_set_enabled: "stable e sup_ok \<Longrightarrow> keeps e sup_ok (sup_set_enabled name enabled)"
  unfolding sup_set_enabled_def config_set_enabled_def store_override_def write_override_def
  by (intro sup_flow keeps_apply_enabled keeps_atomic) (simp_all add: split_beta Let_def split: option.split)

lemma sup_ok_open_channel: "sup_ok w \<Longrightarrow>
    sup_ok (w\<lparr>w_ctl := om_insert name (w_next_chan w) (w_ctl w),
      w_queues := om_insert (w_next_chan w) [] (w_queues w), w_next_chan := w_next_chan w + 1\<rparr>)"
  by (simp add: sup_ok_def channels_ok_open [OF _ refl, simplified])

lemma sup_ok_close_channel: "sup_ok w \<Longrightarrow> sup_ok (w\<lparr>w_queues := om_remove ch (w_queues w)\<rparr>)"
  by (simp add: sup_ok_def channels_ok_close)

lemma keeps_spawn_monitor: "stable e sup_ok \<Longrightarrow> keeps e sup_ok (spawn_monitor name)"
  unfolding spawn_monitor_def Let_def
  by (rule keeps_atomic) (auto split: option.split intro: sup_ok_open_channel [simplified]
      dest: sup_ok_open_channel [of _ name, THEN sup_ok_close_channel, simplified])

lemma keeps_spawn_monitors: "stable e sup_ok \<Longrightarrow> keeps e sup_ok (spawn_monitors ns)"
  by (induction ns) (auto intro!: sup_flow keeps_spawn_monitor)

lemma keeps_boot: "stable e sup_ok \<Longrightarrow> keeps e sup_ok boot"
proof -
  assume s: "stable e sup_ok"
  have tail: "keeps e sup_ok (\<lambda>e. (case partition_boot (e_ho e) services of
            Inl err \<Rightarrow> ret (Inl err)
          | Inr (fg, bg) \<Rightarrow>
              bind (for_each boot_background bg) (\<lambda>_.
              bind (for_each boot_foreground fg) (\<lambda>_.
              bind (for_each boot_report_background bg) (\<lambda>_. ret (Inr ()))))) e)" for services
  proof (cases "partition_boot (e_ho e) services")
    case (Inl err)
    show ?thesis by (rule keeps_same_run [of _ _ "ret (Inl err)"]) (auto simp: Inl)
  next
    case (Inr p)
    obtain fg bg where p: "p = (fg, bg)" by (cases p)
    show ?thesis
      by (rule keeps_same_run [of _ _ "bind (for_each boot_background bg) (\<lambda>_.
              bind (for_each boot_foreground fg) (\<lambda>_.
              bind (for_each boot_report_background bg) (\<lambda>_. ret (Inr ()))))"])
        (auto simp: Inr p intro!: sup_flow s)
  qed
  show ?thesis unfolding boot_def by (intro sup_flow keeps_spawn_monitors tail s)
qed

lemma keeps_remove_service: "stable e sup_ok \<Longrightarrow> keeps e sup_ok (remove_service name)"
  unfolding remove_service_def
proof (intro sup_flow keeps_writes; assumption?)
  fix w assume w: "sup_ok w"
  show "sup_ok (w\<lparr>w_runtimes := om_remove name (w_runtimes w)\<rparr>)"
    using w by (intro sup_ok_runtimes rts_ok_remove) (auto dest: sup_ok_rts)
next
  fix w assume w: "sup_ok w"
  then have r: "sup_ok (w\<lparr>w_ctl := om_remove name (w_ctl w)\<rparr>)" by (simp add: sup_ok_def channels_ok_remove)
  show "sup_ok (case om_get (w_ctl w) name of None \<Rightarrow> w
    | Some ch \<Rightarrow> let q = w_queues w in w\<lparr>w_ctl := om_remove name (w_ctl w),
        w_queues := (case om_get q ch of Some ms \<Rightarrow> om_insert ch (ms @ [CtlQuit]) q | None \<Rightarrow> q)\<rparr>)"
    using w r channels_ok_queue [of "w\<lparr>w_ctl := om_remove name (w_ctl w)\<rparr>"]
    by (auto simp: Let_def sup_ok_def split: option.split)
qed

lemma keeps_reload_service: "stable e sup_ok \<Longrightarrow> keeps e sup_ok (reload_service old svc)"
  unfolding reload_service_def Let_def
  by (intro sup_flow keeps_spawn_monitor keeps_apply_enabled keeps_writes; assumption?)
    (auto intro: sup_ok_runtimes rts_ok_insert_new dest: sup_ok_rts)

lemma keeps_reload_services: "stable e sup_ok \<Longrightarrow> keeps e sup_ok (reload_services old ss)"
  by (induction ss) (auto intro!: sup_flow keeps_reload_service)

lemma keeps_reload: "stable e sup_ok \<Longrightarrow> keeps e sup_ok (reload new_cfg)"
proof -
  assume s: "stable e sup_ok"
  have removal: "keeps e sup_ok (\<lambda>e. for_each remove_service (e_ho e gone) e)" for gone
    by (rule keeps_same_run [of _ _ "for_each remove_service (e_ho e gone)"]) (auto intro!: sup_flow keeps_remove_service s)
  show ?thesis
    unfolding reload_def Let_def by (intro sup_flow removal keeps_reload_services keeps_writes s) simp
qed

lemma keeps_stop_all_ordered: "stable e sup_ok \<Longrightarrow> keeps e sup_ok stop_all_ordered"
  unfolding stop_all_ordered_def by (intro sup_flow keeps_writes; assumption?) simp

lemma keeps_watch_subscribe: "stable e sup_ok \<Longrightarrow> keeps e sup_ok (watch_subscribe ks)"
  unfolding watch_subscribe_def
  by (intro sup_flow keeps_atomic; assumption?)
    (auto simp: split_beta Let_def sup_ok_def channels_ok_def intro: watch_try_subscribe_ok)

end
