(* ===== verification/Monitor.thy ===== *)
theory Monitor
  imports Supervisor
begin

text \<open>
  The monitor thread of a service (\<open>src/src/supervisor.rs\<close>): \<open>do_start\<close>, \<open>stop_tracked\<close>, \<open>on_process_exit\<close>, \<open>maybe_liveness\<close> and
  one turn of \<open>monitor_loop\<close> with its local variables. The threads that copy a child's output into the log hub are
  among the others of the environment.
\<close>

section \<open>Starting and stopping\<close>

definition stop_tracked :: "service_config \<Rightarrow> i32 option \<Rightarrow> unit prog" where
  "stop_tracked cfg tracked =
     (let run_stop = (case resolve_stop cfg of
            Inr stop \<Rightarrow> bind (run_shell stop cfg []) (\<lambda>_. ret ())
          | Inl _ \<Rightarrow> ret ()) in
      case tracked of
        Some pid \<Rightarrow>
          bind run_stop (\<lambda>_.
          bind (terminate_pid pid (sc_shutdown_wait_secs cfg)) (\<lambda>_.
          bind (wait_take pid (secs (unat (sat_succ (sc_shutdown_wait_secs cfg))))) (\<lambda>_. ret ())))
      | None \<Rightarrow> run_stop)"

text \<open>The polling loop of \<open>do_start\<close> for an early exit.\<close>

function early_exit_loop :: "i32 \<Rightarrow> millis \<Rightarrow> env \<Rightarrow> world \<Rightarrow> i32 option outcome" where
  "early_exit_loop pid deadline e w =
     (let w1 = others e w in
      if w_now w1 < deadline then
        (case take_exit pid e w1 of
           Ret (Some code) w2 \<Rightarrow> Ret (Some code) w2
         | Ret None w2 \<Rightarrow>
             let w3 = others e w2 in
             (case sleep (min (deadline - w_now w3) CTL_POLL) e w3 of
                Ret _ w4 \<Rightarrow> early_exit_loop pid deadline e w4
              | Panic s \<Rightarrow> Panic s)
         | Panic s \<Rightarrow> Panic s)
      else Ret None w1)"
  by pat_completeness auto
termination
proof (relation "measure (\<lambda>(pid, deadline, e, w). deadline - w_now w)", goal_cases)
  case (2 pid deadline e w w1 r w2 w3 u w4)
  have w2: "w_now w1 \<le> w_now w2"
    using 2(3) others_now [of w1 e] by (auto simp: take_exit_def atomic_simp split_beta Let_def)
  have w4: "w_now (others e w3) + min (deadline - w_now w3) CTL_POLL \<le> w_now w4"
    using 2(6) by (auto simp: sleep_def)
  have o: "w_now w \<le> w_now w1" "w_now w2 \<le> w_now w3" "w_now w1 < deadline" "w_now w3 \<le> w_now (others e w3)"
    using 2(1,2,5) by simp_all
  have "w_now w < w_now w4"
  proof (cases "deadline \<le> w_now w3")
    case True
    then show ?thesis using w2 w4 o by linarith
  next
    case False
    then have "0 < min (deadline - w_now w3) CTL_POLL" by (simp add: CTL_POLL_def)
    then show ?thesis using w2 w4 o by linarith
  qed
  moreover have "w_now w < deadline" using o by linarith
  ultimately show ?case by simp
qed simp

declare early_exit_loop.simps [simp del]

text \<open>The part of \<open>do_start\<close> after a daemon was spawned: the result and the new value of \<open>tracked\<close>.\<close>

definition settle_daemon :: "service_config \<Rightarrow> i32 \<Rightarrow> i32 option \<Rightarrow> (unit res \<times> i32 option) prog" where
  "settle_daemon cfg pid tracked =
     (let name = sc_name cfg;
          wait = (if sc_start_wait_secs cfg > 0 then secs (unat (sc_start_wait_secs cfg)) else DAEMONIZE_GRACE) in
      bind (deadline_after wait) (\<lambda>deadline.
      bind (early_exit_loop pid deadline) (\<lambda>r.
      bind (case r of Some c \<Rightarrow> ret (Some c) | None \<Rightarrow> take_exit pid) (\<lambda>early.
      case early of
        Some code \<Rightarrow>
          if sc_start_wait_secs cfg = 0 \<and> is_success cfg code then
            bind (apply_state name Running None) (\<lambda>_. ret (Inr (), None))
          else
            bind (apply_state name Failed None) (\<lambda>_.
              ret (Inl (ErrService name
                (if sc_start_wait_secs cfg > 0 then ''exited during startWaitSecs (code '' @ int_str code @ '')''
                 else ''exited with code '' @ int_str code)), tracked))
      | None \<Rightarrow> bind (apply_state name Running (Some pid)) (\<lambda>_. ret (Inr (), Some pid))))))"

definition settle_job :: "service_config \<Rightarrow> i32 \<Rightarrow> i32 option \<Rightarrow> (unit res \<times> i32 option) prog" where
  "settle_job cfg pid tracked =
     (let name = sc_name cfg in
      bind (wait_take pid DEP_WAIT) (\<lambda>r.
      case r of
        None \<Rightarrow>
          bind (terminate_pid pid (of_nat STOP_GRACE_SECS)) (\<lambda>_.
          bind (wait_take pid (secs STOP_GRACE_SECS)) (\<lambda>_.
          bind (apply_state name Failed None) (\<lambda>_.
            ret (Inl (ErrService name ''job timed out''), tracked))))
      | Some code \<Rightarrow>
          if is_success cfg code then bind (apply_state name Succeeded None) (\<lambda>_. ret (Inr (), None))
          else bind (apply_state name Failed None) (\<lambda>_.
                 ret (Inl (ErrService name (''exited with code '' @ int_str code)), None))))"

definition launch :: "service_config \<Rightarrow> i32 option \<Rightarrow> (unit res \<times> i32 option) prog" where
  "launch cfg tracked =
     bind (apply_state (sc_name cfg) Starting None) (\<lambda>_.
     case resolve_start cfg of
       Inl err \<Rightarrow> ret (Inl err, tracked)
     | Inr cmd \<Rightarrow>
         bind (spawn_shell cmd cfg) (\<lambda>r.
         case r of
           Inl err \<Rightarrow> ret (Inl err, tracked)
         | Inr pid \<Rightarrow> if sc_daemon cfg then settle_daemon cfg pid tracked else settle_job cfg pid tracked))"

definition wait_for_deps :: "service_config \<Rightarrow> i32 option \<Rightarrow> (unit res \<times> i32 option) prog" where
  "wait_for_deps cfg tracked =
     bind (reads (\<lambda>w. current_state (sc_name cfg) (w_runtimes w))) (\<lambda>st.
     bind (if st \<noteq> Some WaitingForDependency
           then log_init LvInfo (sc_name cfg @ '': waiting for dependencies ('' @ join '', '' (sc_depends_on cfg) @ '')'')
           else ret ()) (\<lambda>_.
     bind (apply_state (sc_name cfg) WaitingForDependency None) (\<lambda>_. ret (Inr (), tracked))))"

definition start_when_ready :: "service_config \<Rightarrow> i32 option \<Rightarrow> (unit res \<times> i32 option) prog" where
  "start_when_ready cfg tracked =
     bind (reads (\<lambda>w. deps_ready (sc_depends_on cfg) (w_runtimes w))) (\<lambda>rdy.
     case rdy of
       Inl err \<Rightarrow> ret (Inl err, tracked)
     | Inr False \<Rightarrow> wait_for_deps cfg tracked
     | Inr True \<Rightarrow> launch cfg tracked)"

definition start_forced :: "service_config \<Rightarrow> i32 option \<Rightarrow> (unit res \<times> i32 option) prog" where
  "start_forced cfg tracked =
     bind (reads (\<lambda>w. unmet_deps (sc_depends_on cfg) (w_runtimes w))) (\<lambda>u.
     case u of
       Inl err \<Rightarrow> ret (Inl err, tracked)
     | Inr unmet_names \<Rightarrow>
         bind (if unmet_names \<noteq> []
               then log_init LvWarn (sc_name cfg @ '': starting with --force (unmet dependencies: ''
                      @ join '', '' unmet_names @ '')'')
               else ret ()) (\<lambda>_. launch cfg tracked))"

definition do_start :: "service_config \<Rightarrow> bool \<Rightarrow> i32 option \<Rightarrow> (unit res \<times> i32 option) prog" where
  "do_start cfg force tracked =
     (let name = sc_name cfg in
      bind (reads (\<lambda>w. is_enabled name (w_runtimes w))) (\<lambda>en.
      case en of
        Inl err \<Rightarrow> ret (Inl err, tracked)
      | Inr False \<Rightarrow>
          bind (apply_state name Disabled None) (\<lambda>_. ret (Inl (ErrDisabled name), tracked))
      | Inr True \<Rightarrow>
          if sc_depends_on cfg = [] then launch cfg tracked
          else if force then start_forced cfg tracked
          else start_when_ready cfg tracked))"

text \<open>\<open>if let Err(e) = do_start(...) { emit; apply_state(Failed) }\<close>, with the text before the error.\<close>

definition start_or_fail :: "service_config \<Rightarrow> bool \<Rightarrow> string \<Rightarrow> i32 option \<Rightarrow> i32 option prog" where
  "start_or_fail cfg force what tracked =
     bind (do_start cfg force tracked) (\<lambda>(r, tracked').
       case r of
         Inr _ \<Rightarrow> ret tracked'
       | Inl err \<Rightarrow>
           bind (log_init LvError (what @ error_to_string err)) (\<lambda>_.
           bind (apply_state (sc_name cfg) Failed None) (\<lambda>_. ret tracked')))"

section \<open>After an exit\<close>

definition on_process_exit :: "service_config \<Rightarrow> i32 \<Rightarrow> i32 option \<Rightarrow> i32 option prog" where
  "on_process_exit cfg code tracked =
     (let name = sc_name cfg; success = is_success cfg code; st = (if success then Succeeded else Failed) in
      bind (apply_state name Pending None) (\<lambda>_.
      bind (reads (\<lambda>w. case is_enabled name (w_runtimes w) of Inr b \<Rightarrow> b | Inl _ \<Rightarrow> True)) (\<lambda>enabled.
      if \<not> sc_daemon cfg then bind (apply_state name st None) (\<lambda>_. ret tracked)
      else
        bind (reads w_stop_all) (\<lambda>stop_all.
        if \<not> (should_restart (sc_restart_policy cfg) success \<and> enabled \<and> \<not> stop_all)
        then bind (apply_state name st None) (\<lambda>_. ret tracked)
        else
          bind (apply_state name Restarting None) (\<lambda>_.
          bind (writes (\<lambda>e w. w\<lparr>w_runtimes := bump_restarts (w_utc w) name (w_runtimes w)\<rparr>)) (\<lambda>_.
          bind (log_init LvInfo (name @ '': exited '' @ int_str code @ '', restarting in ''
                  @ nat_str (unat (sc_restart_backoff cfg)) @ ''s'')) (\<lambda>_.
          bind (sleep (secs (unat (sc_restart_backoff cfg)))) (\<lambda>_.
          start_or_fail cfg False (name @ '': '') tracked))))))))"

section \<open>Liveness\<close>

definition schedule_liveness :: "service_config \<Rightarrow> millis option prog" where
  "schedule_liveness cfg =
     (case sc_liveness_probe cfg of
        None \<Rightarrow> ret None
      | Some p \<Rightarrow> bind (deadline_after (secs (unat (lp_interval p)))) (\<lambda>t. ret (Some t)))"

record locals =
  l_tracked :: "i32 option"
  l_next :: "millis option"
  l_streak :: u32

text \<open>The reaction to a failed probe.\<close>

definition liveness_failed :: "service_config \<Rightarrow> liveness_probe \<Rightarrow> string \<Rightarrow> locals \<Rightarrow> locals prog" where
  "liveness_failed cfg probe reason l =
     (let name = sc_name cfg; streak = sat_succ (l_streak l); threshold = max (lp_failure_threshold probe) 1 in
      bind (writes (\<lambda>e w. w\<lparr>w_runtimes := bump_liveness_failures (w_utc w) name (Some reason) (w_runtimes w)\<rparr>)) (\<lambda>_.
      if streak < threshold then
        bind (log_init LvWarn (name @ '': livenessProbe failed ('' @ reason @ '') ('' @ nat_str (unat streak)
                @ ''/'' @ nat_str (unat threshold) @ '')'')) (\<lambda>_. ret (l\<lparr>l_streak := streak\<rparr>))
      else
        bind (log_init LvWarn (name @ '': livenessProbe failed ('' @ reason @ ''), restarting'')) (\<lambda>_.
        bind (apply_state name Restarting None) (\<lambda>_.
        bind (writes (\<lambda>e w. w\<lparr>w_runtimes := bump_restarts (w_utc w) name (w_runtimes w)\<rparr>)) (\<lambda>_.
        bind (stop_tracked cfg (l_tracked l)) (\<lambda>_.
        bind (start_or_fail cfg False (name @ '': liveness restart: '') None) (\<lambda>tracked.
        bind (schedule_liveness cfg) (\<lambda>t.
          ret \<lparr>l_tracked = tracked, l_next = t, l_streak = 0\<rparr>))))))))"

definition probe_now :: "service_config \<Rightarrow> liveness_probe \<Rightarrow> service_state \<Rightarrow> locals \<Rightarrow> locals prog" where
  "probe_now cfg probe st l =
     bind (run_probe probe cfg) (\<lambda>outcome.
     bind (deadline_after (secs (unat (lp_interval probe)))) (\<lambda>t.
     case outcome of
       ProbeOk \<Rightarrow>
         bind (if st = Failed \<and> \<not> sc_daemon cfg then apply_state (sc_name cfg) Succeeded None else ret ()) (\<lambda>_.
           ret (l\<lparr>l_next := Some t, l_streak := 0\<rparr>))
     | ProbeFail reason \<Rightarrow> liveness_failed cfg probe reason (l\<lparr>l_next := Some t\<rparr>)))"

definition maybe_liveness :: "service_config \<Rightarrow> locals \<Rightarrow> locals prog" where
  "maybe_liveness cfg l =
     (case sc_liveness_probe cfg of
        None \<Rightarrow> ret (l\<lparr>l_next := None\<rparr>)
      | Some probe \<Rightarrow>
          bind (reads (\<lambda>w. current_state (sc_name cfg) (w_runtimes w))) (\<lambda>cur.
          case cur of
            None \<Rightarrow> ret l
          | Some st \<Rightarrow>
              if \<not> (st = Running \<or> st = Succeeded \<or> st = Failed) then ret l
              else
                bind (reads (\<lambda>w. case is_enabled (sc_name cfg) (w_runtimes w) of Inr b \<Rightarrow> b | Inl _ \<Rightarrow> False)) (\<lambda>en.
                if \<not> en then ret l
                else (case l_next l of
                        None \<Rightarrow> bind (deadline_after (secs (unat (lp_interval probe)))) (\<lambda>t. ret (l\<lparr>l_next := Some t\<rparr>))
                      | Some t \<Rightarrow>
                          bind (reads (\<lambda>w. w_now w \<ge> t)) (\<lambda>due.
                          if \<not> due then ret l else probe_now cfg probe st l)))))"

section \<open>One turn of the loop\<close>

datatype recv = RecvMsg ctl_msg | RecvEmpty | RecvDisconnected

text \<open>Reading a channel: empty and without a sender in the control map means disconnected.\<close>

definition try_recv :: "nat \<Rightarrow> world \<Rightarrow> recv \<times> world" where
  "try_recv ch w =
     (case om_get (w_queues w) ch of
        Some (m # ms) \<Rightarrow> (RecvMsg m, w\<lparr>w_queues := om_insert ch ms (w_queues w)\<rparr>)
      | _ \<Rightarrow> if ch \<in> set (map snd (w_ctl w)) then (RecvEmpty, w) else (RecvDisconnected, w))"

function recv_loop :: "nat \<Rightarrow> millis \<Rightarrow> env \<Rightarrow> world \<Rightarrow> recv outcome" where
  "recv_loop ch deadline e w =
     (case try_recv ch w of
        (RecvEmpty, _) \<Rightarrow>
          if w_now w \<ge> deadline then Ret RecvEmpty w
          else (case cv_wait (deadline - w_now w) e w of
                  Ret True w' \<Rightarrow> (case try_recv ch w' of (r, w'') \<Rightarrow> Ret r w'')
                | Ret False w' \<Rightarrow> recv_loop ch deadline e w'
                | Panic s \<Rightarrow> Panic s)
      | (r, w') \<Rightarrow> Ret r w')"
  by pat_completeness auto
termination
proof (relation "measure (\<lambda>(ch, deadline, e, w). deadline - w_now w)", goal_cases)
  case 2
  then show ?case by (auto dest!: cv_wait_False)
qed simp

declare recv_loop.simps [simp del]

definition recv_timeout :: "nat \<Rightarrow> millis \<Rightarrow> recv prog" where
  "recv_timeout ch d = bind (reads w_now) (\<lambda>now. bind (reads (\<lambda>_. ())) (\<lambda>_. recv_loop ch (now + d)))"

text \<open>A turn ends with the loop going on (\<open>Some l\<close>) or left (\<open>None\<close>).\<close>

definition on_stop :: "service_config \<Rightarrow> locals \<Rightarrow> locals option prog" where
  "on_stop cfg l =
     (let name = sc_name cfg in
      bind (log_init LvInfo (''stopping '' @ name)) (\<lambda>_.
      bind (apply_state name Stopping None) (\<lambda>_.
      bind (stop_tracked cfg (l_tracked l)) (\<lambda>_.
      bind (reads (\<lambda>w. case is_enabled name (w_runtimes w) of Inr b \<Rightarrow> b | Inl _ \<Rightarrow> True)) (\<lambda>enabled.
      bind (apply_state name (if enabled then Stopped else Disabled) None) (\<lambda>_.
        ret (Some \<lparr>l_tracked = None, l_next = None, l_streak = 0\<rparr>)))))))"

definition on_restart :: "service_config \<Rightarrow> locals \<Rightarrow> locals option prog" where
  "on_restart cfg l =
     (let name = sc_name cfg;
          start_again =
            bind (start_or_fail cfg False (name @ '': '') None) (\<lambda>tracked.
            bind (schedule_liveness cfg) (\<lambda>t. ret (Some \<lparr>l_tracked = tracked, l_next = t, l_streak = 0\<rparr>)))
      in bind (log_init LvInfo (''restarting '' @ name)) (\<lambda>_.
         bind (stop_tracked cfg (l_tracked l)) (\<lambda>_.
         case resolve_restart cfg of
           Inl _ \<Rightarrow> start_again
         | Inr restart \<Rightarrow>
             bind (run_shell restart cfg []) (\<lambda>r.
               if sc_daemon cfg \<and> is_success cfg (case r of Inr code \<Rightarrow> code | Inl _ \<Rightarrow> 1) then
                 bind (apply_state name Running None) (\<lambda>_.
                 bind (schedule_liveness cfg) (\<lambda>t. ret (Some \<lparr>l_tracked = None, l_next = t, l_streak = 0\<rparr>)))
               else start_again))))"

definition on_start :: "service_config \<Rightarrow> bool \<Rightarrow> locals \<Rightarrow> locals option prog" where
  "on_start cfg force l =
     (if l_tracked l \<noteq> None then ret (Some l)
      else
        bind (start_or_fail cfg force (sc_name cfg @ '': '') (l_tracked l)) (\<lambda>tracked.
        bind (schedule_liveness cfg) (\<lambda>t. ret (Some \<lparr>l_tracked = tracked, l_next = t, l_streak = 0\<rparr>))))"

definition on_quit :: "service_config \<Rightarrow> locals \<Rightarrow> locals option prog" where
  "on_quit cfg l =
     bind (stop_tracked cfg (l_tracked l)) (\<lambda>_.
     bind (apply_state (sc_name cfg) Stopped None) (\<lambda>_. ret None))"

definition on_message :: "string \<Rightarrow> ctl_msg \<Rightarrow> locals \<Rightarrow> locals option prog" where
  "on_message name msg l =
     bind (service_cfg name) (\<lambda>c.
     case c of
       Inl _ \<Rightarrow> ret None
     | Inr cfg \<Rightarrow> (case msg of
         CtlQuit \<Rightarrow> on_quit cfg l
       | CtlStop \<Rightarrow> on_stop cfg l
       | CtlRestart \<Rightarrow> on_restart cfg l
       | CtlStart force \<Rightarrow> on_start cfg force l))"

text \<open>The part of the turn when no message came: collect an exit, or retry a start that waits for dependencies.\<close>

definition idle_tracked :: "string \<Rightarrow> i32 \<Rightarrow> locals \<Rightarrow> locals prog" where
  "idle_tracked name pid l =
     bind (take_exit pid) (\<lambda>r.
     case r of
       None \<Rightarrow> ret l
     | Some code \<Rightarrow>
         let l1 = l\<lparr>l_tracked := None, l_streak := 0\<rparr> in
         bind (service_cfg name) (\<lambda>c.
         case c of
           Inl _ \<Rightarrow> ret l1
         | Inr cfg \<Rightarrow>
             bind (on_process_exit cfg code None) (\<lambda>tracked.
             bind (schedule_liveness cfg) (\<lambda>t. ret (l1\<lparr>l_tracked := tracked, l_next := t\<rparr>)))))"

definition idle_waiting :: "string \<Rightarrow> locals \<Rightarrow> locals prog" where
  "idle_waiting name l =
     bind (reads w_stop_all) (\<lambda>stop_all.
     if stop_all then ret l
     else
       bind (reads (\<lambda>w. current_state name (w_runtimes w))) (\<lambda>st.
       if st \<noteq> Some WaitingForDependency then ret l
       else
         bind (service_cfg name) (\<lambda>c.
         case c of
           Inl _ \<Rightarrow> ret l
         | Inr cfg \<Rightarrow>
             bind (start_or_fail cfg False (name @ '': '') None) (\<lambda>tracked.
             bind (schedule_liveness cfg) (\<lambda>t. ret (l\<lparr>l_tracked := tracked, l_next := t\<rparr>))))))"

definition idle_liveness :: "string \<Rightarrow> locals \<Rightarrow> locals prog" where
  "idle_liveness name l =
     bind (reads w_stop_all) (\<lambda>stop_all.
     if stop_all then ret l
     else
       bind (service_cfg name) (\<lambda>c.
       case c of Inl _ \<Rightarrow> ret l | Inr cfg \<Rightarrow> maybe_liveness cfg l))"

definition monitor_turn :: "string \<Rightarrow> nat \<Rightarrow> locals \<Rightarrow> locals option prog" where
  "monitor_turn name ch l =
     bind (reads w_stop_all) (\<lambda>stop_all.
     if stop_all then
       bind (service_cfg name) (\<lambda>c.
       bind (case c of Inr cfg \<Rightarrow> stop_tracked cfg (l_tracked l) | Inl _ \<Rightarrow> ret ()) (\<lambda>_.
       bind (apply_state name Stopped None) (\<lambda>_. ret None)))
     else
       bind (recv_timeout ch CTL_POLL) (\<lambda>r.
       case r of
         RecvDisconnected \<Rightarrow> ret None
       | RecvMsg msg \<Rightarrow> on_message name msg l
       | RecvEmpty \<Rightarrow>
           bind (case l_tracked l of Some pid \<Rightarrow> idle_tracked name pid l | None \<Rightarrow> idle_waiting name l) (\<lambda>l1.
           bind (idle_liveness name l1) (\<lambda>l2. ret (Some l2)))))"

text \<open>
  The whole loop, for at most \<open>n\<close> turns: the locals after them, or \<open>None\<close> once the loop was left, when the
  receiver is dropped.
\<close>

definition close_channel :: "nat \<Rightarrow> unit prog" where
  "close_channel ch = writes (\<lambda>e w. w\<lparr>w_queues := om_remove ch (w_queues w)\<rparr>)"

fun monitor_loop :: "nat \<Rightarrow> string \<Rightarrow> nat \<Rightarrow> locals \<Rightarrow> locals option prog" where
  "monitor_loop 0 name ch l = ret (Some l)"
| "monitor_loop (Suc n) name ch l =
     bind (monitor_turn name ch l) (\<lambda>r.
     case r of
       None \<Rightarrow> bind (close_channel ch) (\<lambda>_. ret None)
     | Some l' \<Rightarrow> monitor_loop n name ch l')"

definition initial_locals :: locals where
  "initial_locals = \<lparr>l_tracked = None, l_next = None, l_streak = 0\<rparr>"

section \<open>Invariants of a monitor\<close>

lemma keeps_case_probe:
  "keeps e P m \<Longrightarrow> (\<And>r. keeps e P (g r)) \<Longrightarrow> keeps e P (case out of ProbeOk \<Rightarrow> m | ProbeFail r \<Rightarrow> g r)"
  by (cases out) simp_all

lemma keeps_case_recv: "keeps e P m \<Longrightarrow> (\<And>x. keeps e P (f x)) \<Longrightarrow> keeps e P n \<Longrightarrow>
    keeps e P (case r of RecvDisconnected \<Rightarrow> m | RecvMsg x \<Rightarrow> f x | RecvEmpty \<Rightarrow> n)"
  by (cases r) simp_all

context shared_inv
begin

lemma keeps_stop_tracked: "stable e P \<Longrightarrow> keeps e P (stop_tracked cfg tracked)"
  unfolding stop_tracked_def Let_def
  by (intro keeps_shared keeps_run_shell keeps_terminate_pid keeps_wait_take P_inert; assumption)

lemma keeps_early_exit_loop:
  assumes "stable e P" "P w"
  shows "case early_exit_loop pid deadline e w of Ret _ w' \<Rightarrow> P w' | Panic _ \<Rightarrow> True"
  using assms
proof (induction pid deadline e w rule: early_exit_loop.induct)
  case (1 pid deadline e w)
  let ?w1 = "others e w"
  have P1: "P ?w1" using 1(2,3) by (rule stableD)
  show ?case
  proof (cases "w_now ?w1 < deadline")
    case True
    obtain r w2 where t: "take_exit pid e ?w1 = Ret r w2" by (simp add: take_exit_def atomic_simp)
    have P2: "P w2" using hoareD [OF keeps_take_exit [OF 1(2)] P1 t] .
    show ?thesis
    proof (cases r)
      case (Some code)
      then show ?thesis using P2 t True by (simp add: early_exit_loop.simps [of pid deadline e w] Let_def)
    next
      case None
      let ?w3 = "others e w2"
      obtain w4 where sl: "sleep (min (deadline - w_now ?w3) CTL_POLL) e ?w3 = Ret () w4" by (simp add: sleep_def)
      have "P w4" using hoareD [OF keeps_sleep [OF 1(2)] stableD [OF 1(2) P2] sl] .
      then show ?thesis
        using 1(1) [OF refl True t None refl sl 1(2)] t None True sl
        by (simp add: early_exit_loop.simps [of pid deadline e w] Let_def)
    qed
  qed (use P1 in \<open>simp add: early_exit_loop.simps [of pid deadline e w] Let_def\<close>)
qed

lemma keeps_early_exit: "stable e P \<Longrightarrow> keeps e P (early_exit_loop pid deadline)"
  using keeps_early_exit_loop by (simp add: hoare_def)

lemma keeps_schedule_liveness: "stable e P \<Longrightarrow> keeps e P (schedule_liveness cfg)"
  unfolding schedule_liveness_def by (intro keeps_shared; assumption)

end

text \<open>A predicate that survives taking a message from a channel.\<close>

locale channel_inv = shared_inv +
  fixes ch :: nat
  assumes P_recv: "P w \<Longrightarrow> om_get (w_queues w) ch = Some (m # ms) \<Longrightarrow> P (w\<lparr>w_queues := om_insert ch ms (w_queues w)\<rparr>)"
begin

lemma P_try_recv: "P w \<Longrightarrow> try_recv ch w = (r, w') \<Longrightarrow> P w'"
  by (auto simp: try_recv_def P_recv split: option.splits list.splits if_splits)

lemma keeps_recv_loop:
  assumes s: "stable e P" and "P w"
  shows "case recv_loop ch deadline e w of Ret _ w' \<Rightarrow> P w' | Panic _ \<Rightarrow> True"
  using assms(2)
proof (induction "deadline - w_now w" arbitrary: w rule: less_induct)
  case (less w)
  obtain r v where t: "try_recv ch w = (r, v)" by (cases "try_recv ch w")
  show ?case
  proof (cases "r = RecvEmpty \<and> w_now w < deadline")
    case True
    obtain b w' where cv: "cv_wait (deadline - w_now w) e w = Ret b w'" by (simp add: cv_wait_def atomic_simp)
    have P': "P w'" using hoareD [OF keeps_cv_wait [OF s] less(2) cv] .
    obtain r' v' where t': "try_recv ch w' = (r', v')" by (cases "try_recv ch w'")
    show ?thesis
    proof (cases b)
      case False
      then have "deadline - w_now w' < deadline - w_now w"
        using cv_wait_False [of _ e w w'] cv True by (simp add: diff_less_mono2)
      then show ?thesis using less(1) [OF _ P'] t cv True False by (simp add: recv_loop.simps [of ch deadline e w])
    qed (use P_try_recv [OF P' t'] t t' cv True in \<open>simp add: recv_loop.simps [of ch deadline e w]\<close>)
  next
    case False
    then show ?thesis
      using less(2) P_try_recv [OF less(2) t] t by (cases r) (auto simp: recv_loop.simps [of ch deadline e w])
  qed
qed

lemma keeps_recv_timeout: "stable e P \<Longrightarrow> keeps e P (recv_timeout ch d)"
  unfolding recv_timeout_def
  by (intro keeps_flow, assumption+) (use keeps_recv_loop in \<open>simp add: hoare_def\<close>)

end

text \<open>
  A predicate that survives what a monitor does to the record of its own service and to its channel.
\<close>

locale monitor_inv = channel_inv +
  fixes name :: string
  assumes P_put: "P w \<Longrightarrow> pid \<noteq> None \<longrightarrow> keeps_pid st \<Longrightarrow> P (put_state name st pid w)"
    and P_restarts: "P w \<Longrightarrow> P (w\<lparr>w_runtimes := bump_restarts (w_utc w) name (w_runtimes w)\<rparr>)"
    and P_failures: "P w \<Longrightarrow> P (w\<lparr>w_runtimes := bump_liveness_failures (w_utc w) name d (w_runtimes w)\<rparr>)"
    and P_close: "P w \<Longrightarrow> P (w\<lparr>w_queues := om_remove ch (w_queues w)\<rparr>)"
begin

lemma keeps_apply: "stable e P \<Longrightarrow> pid \<noteq> None \<longrightarrow> keeps_pid st \<Longrightarrow> keeps e P (apply_state name st pid)"
  unfolding apply_state_def by (intro keeps_shared keeps_writes) (auto intro: P_put)

lemma keeps_apply_None: "stable e P \<Longrightarrow> keeps e P (apply_state name st None)"
  by (rule keeps_apply) simp_all

lemmas keeps_processes = keeps_shared keeps_apply_None keeps_run_shell keeps_terminate_pid keeps_wait_take
  keeps_spawn_shell_cmd keeps_run_probe P_inert

lemma keeps_settle: "stable e P \<Longrightarrow> sc_name cfg = name \<Longrightarrow> keeps e P (settle_daemon cfg pid tracked)"
  "stable e P \<Longrightarrow> sc_name cfg = name \<Longrightarrow> keeps e P (settle_job cfg pid tracked)"
  unfolding settle_daemon_def settle_job_def Let_def
  by (simp only:, intro keeps_processes keeps_apply keeps_early_exit; (assumption | simp add: keeps_pid_def))+

lemma keeps_launch: "stable e P \<Longrightarrow> sc_name cfg = name \<Longrightarrow> keeps e P (launch cfg tracked)"
  unfolding launch_def spawn_shell_def
  by (simp only:) (intro keeps_processes keeps_settle; assumption)

lemma keeps_do_start: "stable e P \<Longrightarrow> sc_name cfg = name \<Longrightarrow> keeps e P (do_start cfg force tracked)"
  unfolding do_start_def start_when_ready_def start_forced_def wait_for_deps_def Let_def
  by (simp only:) (intro keeps_processes keeps_launch; assumption)

lemma keeps_start_or_fail: "stable e P \<Longrightarrow> sc_name cfg = name \<Longrightarrow> keeps e P (start_or_fail cfg force what tracked)"
  unfolding start_or_fail_def split_beta
  by (simp only:) (intro keeps_processes keeps_do_start; assumption)

lemma keeps_on_process_exit: "stable e P \<Longrightarrow> sc_name cfg = name \<Longrightarrow> keeps e P (on_process_exit cfg code tracked)"
  unfolding on_process_exit_def Let_def
  by (simp only:) (intro keeps_processes keeps_start_or_fail keeps_writes P_restarts; assumption)

lemma keeps_liveness_failed:
  "stable e P \<Longrightarrow> sc_name cfg = name \<Longrightarrow> keeps e P (liveness_failed cfg probe reason l)"
  unfolding liveness_failed_def Let_def
  by (simp only:) (intro keeps_processes keeps_start_or_fail keeps_stop_tracked keeps_schedule_liveness keeps_writes
      P_restarts P_failures; assumption)

lemma keeps_probe_now: "stable e P \<Longrightarrow> sc_name cfg = name \<Longrightarrow> keeps e P (probe_now cfg probe st l)"
  unfolding probe_now_def
  by (simp only:) (intro keeps_case_probe keeps_processes keeps_liveness_failed; assumption)

lemma keeps_maybe_liveness: "stable e P \<Longrightarrow> sc_name cfg = name \<Longrightarrow> keeps e P (maybe_liveness cfg l)"
  unfolding maybe_liveness_def by (simp only:) (intro keeps_processes keeps_probe_now; assumption)

lemma keeps_messages:
  assumes "stable e P" "sc_name cfg = name"
  shows "keeps e P (on_quit cfg l)" "keeps e P (on_stop cfg l)" "keeps e P (on_restart cfg l)" "keeps e P (on_start cfg force l)"
  unfolding on_quit_def on_stop_def on_restart_def on_start_def Let_def assms(2)
  by (intro keeps_processes keeps_stop_tracked keeps_start_or_fail keeps_schedule_liveness assms)+

text \<open>A configuration read by name has that name.\<close>

lemma keeps_with_cfg:
  assumes "stable e P" "keeps e P m" "\<And>cfg. sc_name cfg = name \<Longrightarrow> keeps e P (f cfg)"
  shows "keeps e P (bind (service_cfg name) (\<lambda>c. case c of Inl _ \<Rightarrow> m | Inr cfg \<Rightarrow> f cfg))"
proof (rule hoare_bind)
  show "hoare e P (service_cfg name) (\<lambda>c w. P w \<and> (\<forall>cfg. c = Inr cfg \<longrightarrow> sc_name cfg = name))"
    unfolding service_cfg_def by (rule hoare_reads [OF assms(1)]) (auto dest: get_SomeD split: option.splits)
  fix c
  show "hoare e (\<lambda>w. P w \<and> (\<forall>cfg. c = Inr cfg \<longrightarrow> sc_name cfg = name)) (case c of Inl _ \<Rightarrow> m | Inr cfg \<Rightarrow> f cfg) (\<lambda>_. P)"
    using assms(2,3) by (auto simp: hoare_def split: sum.split)
qed

lemma keeps_on_message: "stable e P \<Longrightarrow> keeps e P (on_message name msg l)"
  unfolding on_message_def by (rule keeps_with_cfg) (auto intro: keeps_messages keeps_flow split: ctl_msg.split)

lemma keeps_idle:
  assumes s: "stable e P"
  shows "keeps e P (idle_tracked name pid l)" "keeps e P (idle_waiting name l)" "keeps e P (idle_liveness name l)"
  unfolding idle_tracked_def idle_waiting_def idle_liveness_def Let_def
  by (intro keeps_with_cfg keeps_bind keeps_reads keeps_take_exit keeps_if keeps_case_option keeps_ret keeps_on_process_exit
      keeps_start_or_fail keeps_schedule_liveness keeps_maybe_liveness s; assumption)+

lemma keeps_monitor_turn: "stable e P \<Longrightarrow> keeps e P (monitor_turn name ch l)"
  unfolding monitor_turn_def
  by (intro keeps_case_recv keeps_processes keeps_stop_tracked keeps_recv_timeout keeps_on_message keeps_idle; assumption)

lemma keeps_monitor_loop: "stable e P \<Longrightarrow> keeps e P (monitor_loop n name ch l)"
proof (induction n arbitrary: l)
  case (Suc n)
  have "keeps e P (close_channel ch)"
    unfolding close_channel_def by (rule keeps_writes [OF Suc(2)]) (rule P_close)
  then show ?case
    unfolding monitor_loop.simps by (intro keeps_flow keeps_monitor_turn Suc)
qed auto

end

text \<open>
  The instances: the invariant of the shared state; the configuration, the control map and the services that
  have a record; and the record of another service.
\<close>

interpretation mon: monitor_inv sup_ok ch name for name ch
proof unfold_locales
  fix w m ms
  assume "sup_ok w" "om_get (w_queues w) ch = Some (m # ms)"
  then show "sup_ok (w\<lparr>w_queues := om_insert ch ms (w_queues w)\<rparr>)"
    using channels_ok_queue [of w ch ms] by (simp add: sup_ok_def)
qed (auto intro: sup_ok_put_state sup_ok_runtimes sup_ok_close_channel bump_restarts_ok bump_liveness_failures_ok
    dest: sup_ok_rts)

definition layout :: "world \<Rightarrow> config \<times> (string, nat) omap \<times> string set \<times> bool" where
  "layout w = (w_config w, w_ctl w, set (om_keys (w_runtimes w)), w_stop_all w)"

lemma layout_inert: "inert (\<lambda>w. layout w = x)"
  by (simp add: inert_def timeless_def exit_free_def layout_def)

lemma layout_updates [frame_simps]:
  "layout (w\<lparr>w_hub := h\<rparr>) = layout w" "layout (w\<lparr>w_watch := wh\<rparr>) = layout w" "layout (w\<lparr>w_con_out := out\<rparr>) = layout w"
  "layout (w\<lparr>w_queues := q\<rparr>) = layout w" "layout (put_state name st pid w) = layout w"
  "layout (w\<lparr>w_runtimes := bump_restarts utc name (w_runtimes w)\<rparr>) = layout w"
  "layout (w\<lparr>w_runtimes := bump_liveness_failures utc name d (w_runtimes w)\<rparr>) = layout w"
  by (simp_all add: layout_def put_state_def set_state_def bump_restarts_def bump_liveness_failures_def del: set_map)

interpretation lay: monitor_inv "\<lambda>w. layout w = x" ch name for x name ch
  by unfold_locales (simp_all add: layout_inert frame_simps)

interpretation apart: monitor_inv "\<lambda>w. name \<noteq> other \<and> om_get (w_runtimes w) other = r" ch name for other r name ch
  by unfold_locales (auto simp: inert_def timeless_def exit_free_def put_state_def set_state_def bump_restarts_def
      bump_liveness_failures_def map_simps)

end
