(* ===== verification/Lifecycle.thy ===== *)
theory Lifecycle
  imports Monitor
begin

text \<open>
  The life of a service as an abstract state machine, and the proof that the monitor (\<open>src/src/supervisor.rs\<close>)
  implements it. The machine sees of a runtime record its state, pid, counters and enabled flag, and of the
  monitor the pid it tracks; its steps are those of \<open>docs/service-lifecycle.md\<close>. The refinement is for an environment
  in which nobody else changes this service's record and definition, that is between two requests that enable,
  disable or reload it, and while the system is not shutting down.
\<close>

section \<open>The abstract machine\<close>

record core =
  co_state :: service_state
  co_pid :: "i32 option"
  co_restarts :: u32
  co_failures :: u32
  co_enabled :: bool

definition core_of :: "runtime \<Rightarrow> core" where
  "core_of rt = \<lparr>co_state = rt_state rt, co_pid = rt_pid rt, co_restarts = rt_restarts rt,
     co_failures = rt_liveness_failures rt, co_enabled = rt_enabled rt\<rparr>"

definition move :: "service_state \<Rightarrow> i32 option \<Rightarrow> core \<Rightarrow> core" where
  "move st pid c = c\<lparr>co_state := st,
     co_pid := (case pid of Some p \<Rightarrow> Some p | None \<Rightarrow> if keeps_pid st then co_pid c else None)\<rparr>"

definition restarted :: "core \<Rightarrow> core" where
  "restarted c = c\<lparr>co_restarts := sat_succ (co_restarts c)\<rparr>"

definition probe_missed :: "core \<Rightarrow> core" where
  "probe_missed c = c\<lparr>co_failures := sat_succ (co_failures c)\<rparr>"

lemma move_fields [simp]:
  "co_state (move st pid c) = st" "co_restarts (move st pid c) = co_restarts c"
  "co_failures (move st pid c) = co_failures c" "co_enabled (move st pid c) = co_enabled c"
  "co_pid (move st (Some p) c) = Some p" "co_pid (move st None c) = (if keeps_pid st then co_pid c else None)"
  by (simp_all add: move_def)

lemma counter_fields [simp]:
  "co_state (restarted c) = co_state c" "co_pid (restarted c) = co_pid c" "co_enabled (restarted c) = co_enabled c"
  "co_failures (restarted c) = co_failures c" "co_restarts (restarted c) = sat_succ (co_restarts c)"
  "co_state (probe_missed c) = co_state c" "co_pid (probe_missed c) = co_pid c"
  "co_enabled (probe_missed c) = co_enabled c" "co_restarts (probe_missed c) = co_restarts c"
  "co_failures (probe_missed c) = sat_succ (co_failures c)"
  by (simp_all add: restarted_def probe_missed_def)

text \<open>What an attempt to start can do: the result, the pid tracked afterwards and the record.\<close>

inductive starts :: "service_config \<Rightarrow> core \<Rightarrow> unit res \<Rightarrow> i32 option \<Rightarrow> core \<Rightarrow> bool" for cfg c where
  starts_disabled: "\<not> co_enabled c \<Longrightarrow> starts cfg c (Inl (ErrDisabled (sc_name cfg))) None (move Disabled None c)"
| starts_unknown_dep: "co_enabled c \<Longrightarrow> dep \<in> set (sc_depends_on cfg) \<Longrightarrow> starts cfg c (Inl (ErrUnknownService dep)) None c"
| starts_waiting: "co_enabled c \<Longrightarrow> sc_depends_on cfg \<noteq> [] \<Longrightarrow> starts cfg c (Inr ()) None (move WaitingForDependency None c)"
| starts_no_process: "co_enabled c \<Longrightarrow> starts cfg c (Inl err) None (move Starting None c)"
| starts_daemon_up: "co_enabled c \<Longrightarrow> sc_daemon cfg \<Longrightarrow>
    starts cfg c (Inr ()) (Some pid) (move Running (Some pid) (move Starting None c))"
| starts_daemonized: "co_enabled c \<Longrightarrow> sc_daemon cfg \<Longrightarrow> sc_start_wait_secs cfg = 0 \<Longrightarrow>
    starts cfg c (Inr ()) None (move Running None (move Starting None c))"
| starts_job_done: "co_enabled c \<Longrightarrow> \<not> sc_daemon cfg \<Longrightarrow>
    starts cfg c (Inr ()) None (move Succeeded None (move Starting None c))"
| starts_failed: "co_enabled c \<Longrightarrow> starts cfg c (Inl (ErrService (sc_name cfg) msg)) None (move Failed None (move Starting None c))"

definition attempt :: "service_config \<Rightarrow> core \<Rightarrow> i32 option \<Rightarrow> core \<Rightarrow> bool" where
  "attempt cfg c t c' =
     (\<exists>r d. starts cfg c r t d \<and> c' = (case r of Inr _ \<Rightarrow> d | Inl _ \<Rightarrow> move Failed None d))"

text \<open>The steps of a monitor, on the tracked pid and the record.\<close>

inductive mon_step :: "service_config \<Rightarrow> i32 option \<times> core \<Rightarrow> i32 option \<times> core \<Rightarrow> bool" for cfg where
  step_stop: "mon_step cfg (t, c) (None, move (if co_enabled c then Stopped else Disabled) None (move Stopping None c))"
| step_start: "attempt cfg c t' c' \<Longrightarrow> mon_step cfg (t, c) (t', c')"
| step_restart_command: "sc_daemon cfg \<Longrightarrow> mon_step cfg (t, c) (None, move Running None c)"
| step_exit: "st = (if is_success cfg code then Succeeded else Failed) \<Longrightarrow>
    \<not> (sc_daemon cfg \<and> should_restart (sc_restart_policy cfg) (is_success cfg code) \<and> co_enabled c) \<Longrightarrow>
    mon_step cfg (Some pid, c) (None, move st None (move Pending None c))"
| step_exit_restart: "sc_daemon cfg \<Longrightarrow> should_restart (sc_restart_policy cfg) (is_success cfg code) \<Longrightarrow> co_enabled c \<Longrightarrow>
    attempt cfg (restarted (move Restarting None (move Pending None c))) t' c' \<Longrightarrow> mon_step cfg (Some pid, c) (t', c')"
| step_probe_ok: "co_state c = Failed \<Longrightarrow> \<not> sc_daemon cfg \<Longrightarrow> mon_step cfg (t, c) (t, move Succeeded None c)"
| step_probe_missed: "sc_liveness_probe cfg \<noteq> None \<Longrightarrow> mon_step cfg (t, c) (t, probe_missed c)"
| step_probe_restart: "sc_liveness_probe cfg \<noteq> None \<Longrightarrow>
    attempt cfg (restarted (move Restarting None (probe_missed c))) t' c' \<Longrightarrow> mon_step cfg (t, c) (t', c')"

inductive_cases starts_elims: "starts cfg c r t d"
inductive_cases mon_step_elims: "mon_step cfg (t, c) (t', c')"

section \<open>Invariants of the machine\<close>

definition tracked_running :: "i32 option \<times> core \<Rightarrow> bool" where
  "tracked_running s = (\<forall>pid. fst s = Some pid \<longrightarrow> co_state (snd s) = Running \<and> co_pid (snd s) = Some pid)"

lemma attempt_tracked: "attempt cfg c t c' \<Longrightarrow> tracked_running (t, c')"
  by (auto simp: attempt_def tracked_running_def elim!: starts_elims)

lemma attempt_enabled: "attempt cfg c t c' \<Longrightarrow> co_enabled c' = co_enabled c"
  by (auto simp: attempt_def elim!: starts_elims)

lemma attempt_counters: "attempt cfg c t c' \<Longrightarrow> co_restarts c' = co_restarts c \<and> co_failures c' = co_failures c"
  by (auto simp: attempt_def elim!: starts_elims)

lemma attempt_disabled: "attempt cfg c t c' \<Longrightarrow> \<not> co_enabled c \<Longrightarrow> t = None"
  by (auto simp: attempt_def elim!: starts_elims)

lemma mon_step_tracked: "mon_step cfg s s' \<Longrightarrow> tracked_running s \<Longrightarrow> tracked_running s'"
  by (induction rule: mon_step.induct) (auto dest: attempt_tracked, auto simp: tracked_running_def)

lemma mon_step_enabled: "mon_step cfg s s' \<Longrightarrow> co_enabled (snd s') = co_enabled (snd s)"
  by (induction rule: mon_step.induct) (auto dest: attempt_enabled)

lemma mon_step_counters: "mon_step cfg s s' \<Longrightarrow>
    co_restarts (snd s) \<le> co_restarts (snd s') \<and> co_failures (snd s) \<le> co_failures (snd s')"
  by (induction rule: mon_step.induct) (auto dest!: attempt_counters simp: sat_succ_mono)

lemma mon_step_disabled: "mon_step cfg s s' \<Longrightarrow> \<not> co_enabled (snd s) \<Longrightarrow> fst s = None \<Longrightarrow> fst s' = None"
  by (induction rule: mon_step.induct) (auto dest: attempt_disabled)

lemma mon_steps_tracked: "(mon_step cfg)\<^sup>*\<^sup>* s s' \<Longrightarrow> tracked_running s \<Longrightarrow> tracked_running s'"
  by (induction rule: rtranclp_induct) (auto dest: mon_step_tracked)

lemma mon_steps_enabled: "(mon_step cfg)\<^sup>*\<^sup>* s s' \<Longrightarrow> co_enabled (snd s') = co_enabled (snd s)"
  by (induction rule: rtranclp_induct) (auto dest: mon_step_enabled)

lemma mon_steps_counters: "(mon_step cfg)\<^sup>*\<^sup>* s s' \<Longrightarrow>
    co_restarts (snd s) \<le> co_restarts (snd s') \<and> co_failures (snd s) \<le> co_failures (snd s')"
  by (induction rule: rtranclp_induct) (fastforce dest: mon_step_counters)+

lemma mon_steps_disabled: "(mon_step cfg)\<^sup>*\<^sup>* s s' \<Longrightarrow> \<not> co_enabled (snd s) \<Longrightarrow> fst s = None \<Longrightarrow> fst s' = None"
  by (induction rule: rtranclp_induct) (auto dest: mon_step_disabled mon_steps_enabled)

section \<open>The refinement\<close>

text \<open>The relation between the shared state and the machine, and the environments it is for.\<close>

definition at :: "service_config \<Rightarrow> core \<Rightarrow> world \<Rightarrow> bool" where
  "at cfg c w =
     (map_option core_of (om_get (w_runtimes w) (sc_name cfg)) = Some c
      \<and> get (w_config w) (sc_name cfg) = Some cfg \<and> \<not> w_stop_all w)"

definition undisturbed :: "env \<Rightarrow> service_config \<Rightarrow> bool" where
  "undisturbed e cfg = (\<forall>c. stable e (at cfg c))"

lemma undisturbedD: "undisturbed e cfg \<Longrightarrow> stable e (at cfg c)"
  by (simp add: undisturbed_def)

lemma at_updates [frame_simps]:
  "at cfg c (w\<lparr>w_hub := h\<rparr>) = at cfg c w" "at cfg c (w\<lparr>w_watch := wh\<rparr>) = at cfg c w"
  "at cfg c (w\<lparr>w_con_out := out\<rparr>) = at cfg c w" "at cfg c (w\<lparr>w_queues := q\<rparr>) = at cfg c w"
  by (simp_all add: at_def)

lemma at_inert: "inert (at cfg c)"
  by (simp add: inert_def timeless_def exit_free_def at_def)

interpretation at: shared_inv "at cfg c" for cfg c
  by unfold_locales (simp_all add: at_inert frame_simps)

lemma core_of_set_state: "core_of (rt_set_state now utc st pid rt) = move st pid (core_of rt)"
  by (cases pid) (simp_all add: core_of_def move_def rt_set_state_fields)

lemma at_put_state: "at cfg c w \<Longrightarrow> at cfg (move st pid c) (put_state (sc_name cfg) st pid w)"
  by (auto simp: at_def put_state_def set_state_def map_simps core_of_set_state)

lemma at_bumps:
  "at cfg c w \<Longrightarrow> at cfg (restarted c) (w\<lparr>w_runtimes := bump_restarts utc (sc_name cfg) (w_runtimes w)\<rparr>)"
  "at cfg c w \<Longrightarrow> at cfg (probe_missed c) (w\<lparr>w_runtimes := bump_liveness_failures utc (sc_name cfg) d (w_runtimes w)\<rparr>)"
  by (auto simp: at_def bump_restarts_def bump_liveness_failures_def map_simps core_of_def restarted_def probe_missed_def
      frame_simps)

text \<open>Rules for sequences: a section that moves the record, one that keeps it, one that reads it.\<close>

lemma seq_apply:
  assumes "undisturbed e cfg" "hoare e (at cfg (move st pid c)) (f ()) Q"
  shows "hoare e (at cfg c) (bind (apply_state (sc_name cfg) st pid) f) Q"
proof (rule hoare_bind)
  have "hoare e (at cfg c) (writes (\<lambda>e. put_state (sc_name cfg) st pid)) (\<lambda>_. at cfg (move st pid c))"
    by (rule hoare_writes [OF undisturbedD [OF assms(1)]]) (rule at_put_state)
  then show "hoare e (at cfg c) (apply_state (sc_name cfg) st pid) (\<lambda>_. at cfg (move st pid c))"
    unfolding apply_state_def by (rule hoare_bind) (rule at.keeps_notify_watchers [OF undisturbedD [OF assms(1)]])
qed (use assms(2) in simp)

lemma seq_keep: "keeps e P m \<Longrightarrow> (\<And>x. hoare e P (f x) Q) \<Longrightarrow> hoare e P (bind m f) Q"
  by (rule hoare_bind)

lemma seq_read:
  assumes "stable e P" "\<And>w. P w \<Longrightarrow> B (f w)" "\<And>x. B x \<Longrightarrow> hoare e P (g x) Q"
  shows "hoare e P (bind (reads f) g) Q"
proof (rule hoare_bind)
  show "hoare e P (reads f) (\<lambda>x w. P w \<and> B x)" by (rule hoare_reads [OF assms(1)]) (auto simp: assms(2))
  show "hoare e (\<lambda>w. P w \<and> B x) (g x) Q" for x using assms(3) [of x] by (auto simp: hoare_def)
qed

text \<open>What a start leaves behind.\<close>

definition after :: "service_config \<Rightarrow> (unit res \<Rightarrow> i32 option \<Rightarrow> core \<Rightarrow> bool) \<Rightarrow> unit res \<times> i32 option \<Rightarrow> world \<Rightarrow> bool" where
  "after cfg R x w = (\<exists>c'. at cfg c' w \<and> R (fst x) (snd x) c')"

lemma ret_after: "R r t c \<Longrightarrow> hoare e (at cfg c) (ret (r, t)) (after cfg R)"
  by (rule hoare_ret) (auto simp: after_def)

lemmas at_keeps = at.keeps_log_init at.keeps_take_exit at.keeps_sleep keeps_wait_take keeps_terminate_pid
  keeps_run_shell keeps_spawn_shell_cmd keeps_deadline

lemma settle_daemon_refines:
  assumes u: "undisturbed e cfg" and d: "sc_daemon cfg" "co_enabled c"
  shows "hoare e (at cfg (move Starting None c)) (settle_daemon cfg pid None) (after cfg (starts cfg c))"
proof -
  have s: "stable e (at cfg d)" for d using u by (rule undisturbedD)
  have decide: "hoare e (at cfg (move Starting None c)) (case early of
        Some code \<Rightarrow>
          if sc_start_wait_secs cfg = 0 \<and> is_success cfg code
          then bind (apply_state (sc_name cfg) Running None) (\<lambda>_. ret (Inr (), None))
          else bind (apply_state (sc_name cfg) Failed None) (\<lambda>_. ret (Inl (ErrService (sc_name cfg) (msg code)), None))
      | None \<Rightarrow> bind (apply_state (sc_name cfg) Running (Some pid)) (\<lambda>_. ret (Inr (), Some pid))) (after cfg (starts cfg c))"
    for early msg
    using d by (cases early) (auto intro!: seq_apply [OF u] ret_after intro: starts.intros)
  show ?thesis
    unfolding settle_daemon_def Let_def
    by (intro seq_keep [OF keeps_deadline [OF s]] seq_keep [OF at.keeps_early_exit [OF s]]
        seq_keep [OF keeps_case_option [OF at.keeps_take_exit [OF s] keeps_ret]] decide)
qed

lemma settle_job_refines:
  assumes u: "undisturbed e cfg" and d: "\<not> sc_daemon cfg" "co_enabled c"
  shows "hoare e (at cfg (move Starting None c)) (settle_job cfg pid None) (after cfg (starts cfg c))"
proof -
  have s: "stable e (at cfg d)" for d using u by (rule undisturbedD)
  show ?thesis
    unfolding settle_job_def Let_def
    by (rule seq_keep [OF keeps_wait_take [OF s at_inert]])
      (use d in \<open>auto intro!: seq_apply [OF u] ret_after seq_keep [OF keeps_wait_take [OF s at_inert]]
          seq_keep [OF keeps_terminate_pid [OF s at_inert]] intro: starts.intros split: option.split\<close>)
qed

lemma launch_refines:
  assumes u: "undisturbed e cfg" and en: "co_enabled c"
  shows "hoare e (at cfg c) (launch cfg None) (after cfg (starts cfg c))"
proof -
  have s: "stable e (at cfg d)" for d using u by (rule undisturbedD)
  show ?thesis
    unfolding launch_def spawn_shell_def
    by (auto intro!: seq_apply [OF u] ret_after seq_keep [OF keeps_spawn_shell_cmd [OF s at_inert]] en
        settle_daemon_refines [OF u] settle_job_refines [OF u] intro: starts_no_process [OF en] split: sum.split)
qed

lemma unmet_deps_Inl: "unmet_deps deps m = Inl err \<Longrightarrow> \<exists>dep \<in> set deps. err = ErrUnknownService dep"
  by (induction deps) (auto simp: res_bind_def split: option.splits sum.splits)

lemma is_enabled_at: "at cfg c w \<Longrightarrow> is_enabled (sc_name cfg) (w_runtimes w) = Inr (co_enabled c)"
  by (auto simp: at_def is_enabled_def core_of_def)

lemma current_state_at: "at cfg c w \<Longrightarrow> current_state (sc_name cfg) (w_runtimes w) = Some (co_state c)"
  by (auto simp: at_def current_state_def core_of_def)

lemma wait_for_deps_refines:
  assumes u: "undisturbed e cfg" and "co_enabled c" "sc_depends_on cfg \<noteq> []"
  shows "hoare e (at cfg c) (wait_for_deps cfg None) (after cfg (starts cfg c))"
proof -
  have s: "stable e (at cfg d)" for d using u by (rule undisturbedD)
  show ?thesis
    unfolding wait_for_deps_def
    by (intro seq_keep [OF keeps_reads [OF s]] seq_keep [OF keeps_if [OF at.keeps_log_init [OF s] keeps_ret]]
        seq_apply [OF u] ret_after starts_waiting assms)
qed

lemma start_when_ready_refines:
  assumes u: "undisturbed e cfg" and en: "co_enabled c" and deps: "sc_depends_on cfg \<noteq> []"
  shows "hoare e (at cfg c) (start_when_ready cfg None) (after cfg (starts cfg c))"
proof -
  have err: "\<exists>dep \<in> set (sc_depends_on cfg). err = ErrUnknownService dep" if "Inl err = deps_ready (sc_depends_on cfg) m" for m err
    using that unmet_deps_Inl [of "sc_depends_on cfg" m] by (auto simp: deps_ready_def res_bind_def split: sum.splits)
  show ?thesis
    unfolding start_when_ready_def
    by (rule seq_read [OF undisturbedD [OF u], where B = "\<lambda>x. \<exists>m. x = deps_ready (sc_depends_on cfg) m"])
      (auto split: sum.split bool.split intro!: ret_after launch_refines [OF u en] wait_for_deps_refines [OF u en deps]
        intro: starts_unknown_dep [OF en] dest: err sym)
qed

lemma start_forced_refines:
  assumes u: "undisturbed e cfg" and en: "co_enabled c"
  shows "hoare e (at cfg c) (start_forced cfg None) (after cfg (starts cfg c))"
  unfolding start_forced_def
  by (rule seq_read [OF undisturbedD [OF u], where B = "\<lambda>x. \<exists>m. x = unmet_deps (sc_depends_on cfg) m"])
    (auto split: sum.split intro!: ret_after launch_refines [OF u en] seq_keep [OF at.keeps_log_init [OF undisturbedD [OF u]]]
      intro: starts_unknown_dep [OF en] dest: unmet_deps_Inl sym)

lemma do_start_refines:
  assumes u: "undisturbed e cfg"
  shows "hoare e (at cfg c) (do_start cfg force None) (after cfg (starts cfg c))"
  unfolding do_start_def Let_def
  by (rule seq_read [OF undisturbedD [OF u], where B = "\<lambda>x. x = Inr (co_enabled c)"])
    (auto simp: is_enabled_at split: bool.split intro!: launch_refines [OF u] start_when_ready_refines [OF u]
      start_forced_refines [OF u] seq_apply [OF u] ret_after starts_disabled)

text \<open>The same for operations that return another value.\<close>

definition reaches :: "service_config \<Rightarrow> ('a \<Rightarrow> core \<Rightarrow> bool) \<Rightarrow> 'a \<Rightarrow> world \<Rightarrow> bool" where
  "reaches cfg R x w = (\<exists>c'. at cfg c' w \<and> R x c')"

lemma ret_reaches: "R x c \<Longrightarrow> hoare e (at cfg c) (ret x) (reaches cfg R)"
  by (rule hoare_ret) (auto simp: reaches_def)

lemma seq_reaches:
  "hoare e P m (reaches cfg R) \<Longrightarrow> (\<And>x d. R x d \<Longrightarrow> hoare e (at cfg d) (f x) Q) \<Longrightarrow> hoare e P (bind m f) Q"
  by (rule hoare_bind, assumption) (auto simp: hoare_def reaches_def)

lemma reaches_weaken:
  "hoare e P m (reaches cfg R) \<Longrightarrow> (\<And>x d. R x d \<Longrightarrow> S x d) \<Longrightarrow> hoare e P m (reaches cfg S)"
  by (rule hoare_weaken, assumption) (auto simp: reaches_def)

lemma start_or_fail_refines:
  assumes u: "undisturbed e cfg"
  shows "hoare e (at cfg c) (start_or_fail cfg force what None) (reaches cfg (attempt cfg c))"
proof -
  have "hoare e (at cfg c) (do_start cfg force None) (reaches cfg (\<lambda>x d. starts cfg c (fst x) (snd x) d))"
    using do_start_refines [OF u] by (rule hoare_weaken) (auto simp: reaches_def after_def)
  moreover have "hoare e (at cfg d) (case x of (r, t) \<Rightarrow> case r of Inr _ \<Rightarrow> ret t
      | Inl err \<Rightarrow> bind (log_init LvError (what @ error_to_string err)) (\<lambda>_.
           bind (apply_state (sc_name cfg) Failed None) (\<lambda>_. ret t))) (reaches cfg (attempt cfg c))"
    if "starts cfg c (fst x) (snd x) d" for x d
    using that
    by (cases "fst x") (auto simp: split_beta attempt_def intro!: seq_keep [OF at.keeps_log_init [OF undisturbedD [OF u]]]
        seq_apply [OF u] ret_reaches exI split: sum.split)
  ultimately show ?thesis unfolding start_or_fail_def by (rule seq_reaches)
qed

lemma not_stopping_at: "at cfg c w \<Longrightarrow> w_stop_all w = False"
  by (simp add: at_def)

lemma seq_restarts:
  assumes "undisturbed e cfg" "hoare e (at cfg (restarted c)) (f ()) Q"
  shows "hoare e (at cfg c) (bind (writes (\<lambda>e w. w\<lparr>w_runtimes := bump_restarts (w_utc w) (sc_name cfg) (w_runtimes w)\<rparr>)) f) Q"
  by (rule hoare_bind [OF hoare_writes [OF undisturbedD [OF assms(1)]]], erule at_bumps) (use assms(2) in simp)

lemma seq_missed:
  assumes "undisturbed e cfg" "hoare e (at cfg (probe_missed c)) (f ()) Q"
  shows "hoare e (at cfg c)
    (bind (writes (\<lambda>e w. w\<lparr>w_runtimes := bump_liveness_failures (w_utc w) (sc_name cfg) d (w_runtimes w)\<rparr>)) f) Q"
  by (rule hoare_bind [OF hoare_writes [OF undisturbedD [OF assms(1)]]], erule at_bumps) (use assms(2) in simp)

text \<open>What the exit of a tracked process leads to: the restart policy applies to enabled daemons only.\<close>

definition exit_to :: "service_config \<Rightarrow> i32 \<Rightarrow> core \<Rightarrow> i32 option \<Rightarrow> core \<Rightarrow> bool" where
  "exit_to cfg code c t c' =
     (let success = is_success cfg code; pending = move Pending None c in
      if sc_daemon cfg \<and> should_restart (sc_restart_policy cfg) success \<and> co_enabled c
      then attempt cfg (restarted (move Restarting None pending)) t c'
      else t = None \<and> c' = move (if success then Succeeded else Failed) None pending)"

lemma exit_to_step: "exit_to cfg code c t c' \<Longrightarrow> mon_step cfg (Some pid, c) (t, c')"
  by (auto simp: exit_to_def Let_def step_exit_restart step_exit [OF refl, simplified] split: if_splits
      intro: step_exit [of _ cfg code])

lemma on_process_exit_refines:
  assumes u: "undisturbed e cfg"
  shows "hoare e (at cfg c) (on_process_exit cfg code None) (reaches cfg (exit_to cfg code c))"
proof -
  have s: "stable e (at cfg d)" for d using u by (rule undisturbedD)
  let ?p = "move Pending None c" and ?Q = "reaches cfg (exit_to cfg code c)"
  let ?restart = "should_restart (sc_restart_policy cfg) (is_success cfg code) \<and> co_enabled c"
  have settle: "hoare e (at cfg ?p) (bind (apply_state (sc_name cfg) (if is_success cfg code then Succeeded else Failed) None)
      (\<lambda>_. ret None)) ?Q" if "\<not> (sc_daemon cfg \<and> ?restart)"
    by (intro seq_apply [OF u] ret_reaches) (use that in \<open>simp only: exit_to_def Let_def if_False simp_thms\<close>)
  have again: "hoare e (at cfg ?p) (bind (apply_state (sc_name cfg) Restarting None) (\<lambda>_.
          bind (writes (\<lambda>e w. w\<lparr>w_runtimes := bump_restarts (w_utc w) (sc_name cfg) (w_runtimes w)\<rparr>)) (\<lambda>_.
          bind (log_init LvInfo msg) (\<lambda>_. bind (sleep d) (\<lambda>_. start_or_fail cfg False what None))))) ?Q"
    if "sc_daemon cfg \<and> ?restart" for msg d what
    by (intro seq_apply [OF u] seq_restarts [OF u] seq_keep [OF at.keeps_log_init [OF s]] seq_keep [OF at.keeps_sleep [OF s]]
        reaches_weaken [OF start_or_fail_refines [OF u]]) (use that in \<open>simp only: exit_to_def Let_def if_True simp_thms\<close>)
  show ?thesis
    unfolding on_process_exit_def Let_def
    by (rule seq_apply [OF u], rule seq_read [OF s, where B = "\<lambda>x. x = co_enabled c"], simp add: is_enabled_at,
        rule hoare_if, rule settle, blast, rule seq_read [OF s, where B = "\<lambda>x. x = False"], simp add: not_stopping_at,
        rule hoare_if; (rule settle | rule again); blast)
qed

lemma seq_cfg:
  assumes "undisturbed e cfg" "hoare e (at cfg c) (f (Inr cfg)) Q"
  shows "hoare e (at cfg c) (bind (service_cfg (sc_name cfg)) f) Q"
  unfolding service_cfg_def
  by (rule seq_read [OF undisturbedD [OF assms(1)], where B = "\<lambda>x. x = Inr cfg"]) (auto simp: at_def assms(2))

text \<open>Several steps, as seen through the locals of the loop.\<close>

definition steps_to :: "service_config \<Rightarrow> locals \<Rightarrow> core \<Rightarrow> locals \<Rightarrow> core \<Rightarrow> bool" where
  "steps_to cfg l c l' c' = (mon_step cfg)\<^sup>*\<^sup>* (l_tracked l, c) (l_tracked l', c')"

lemma steps_to_refl: "l_tracked l' = l_tracked l \<Longrightarrow> steps_to cfg l c l' c"
  by (simp add: steps_to_def)

lemma steps_to_one: "mon_step cfg (l_tracked l, c) (l_tracked l', c') \<Longrightarrow> steps_to cfg l c l' c'"
  by (simp add: steps_to_def)

lemma steps_to_trans: "steps_to cfg l c l' c' \<Longrightarrow> steps_to cfg l' c' l'' c'' \<Longrightarrow> steps_to cfg l c l'' c''"
  unfolding steps_to_def by (rule rtranclp_trans)

lemma seq_schedule:
  assumes "undisturbed e cfg" "\<And>t. hoare e (at cfg c) (f t) Q"
  shows "hoare e (at cfg c) (bind (schedule_liveness cfg) f) Q"
  using at.keeps_schedule_liveness [OF undisturbedD [OF assms(1)]] assms(2) by (rule seq_keep)

lemma liveness_failed_refines:
  assumes u: "undisturbed e cfg" and p: "sc_liveness_probe cfg = Some probe"
  shows "hoare e (at cfg c) (liveness_failed cfg probe reason l) (reaches cfg (steps_to cfg l c))"
proof -
  have s: "stable e (at cfg d)" for d using u by (rule undisturbedD)
  have "steps_to cfg l c (l\<lparr>l_streak := n\<rparr>) (probe_missed c)" for n
    using p by (intro steps_to_one) (simp add: step_probe_missed)
  moreover have "steps_to cfg l c \<lparr>l_tracked = t, l_next = nx, l_streak = 0\<rparr> c'"
    if "attempt cfg (restarted (move Restarting None (probe_missed c))) t c'" for t nx c'
    using that p by (intro steps_to_one) (simp add: step_probe_restart)
  ultimately show ?thesis
    unfolding liveness_failed_def Let_def
    by (intro seq_missed [OF u] hoare_if seq_keep [OF at.keeps_log_init [OF s]] ret_reaches seq_apply [OF u]
        seq_restarts [OF u] seq_keep [OF at.keeps_stop_tracked [OF s]] seq_reaches [OF start_or_fail_refines [OF u]]
        seq_schedule [OF u])
qed

lemma probe_now_refines:
  assumes u: "undisturbed e cfg" and p: "sc_liveness_probe cfg = Some probe"
  shows "hoare e (at cfg c) (probe_now cfg probe (co_state c) l) (reaches cfg (steps_to cfg l c))"
proof -
  have s: "stable e (at cfg d)" for d using u by (rule undisturbedD)
  have ok: "steps_to cfg l c (l\<lparr>l_next := nx, l_streak := 0\<rparr>) (move Succeeded None c)"
    if "co_state c = Failed \<and> \<not> sc_daemon cfg" for nx
    using that by (intro steps_to_one) (simp add: step_probe_ok)
  have fail: "hoare e (at cfg c) (liveness_failed cfg probe reason (l\<lparr>l_next := nx\<rparr>)) (reaches cfg (steps_to cfg l c))"
    for reason nx
    using liveness_failed_refines [OF u p, of c reason "l\<lparr>l_next := nx\<rparr>"] by (simp add: steps_to_def [abs_def])
  have good: "hoare e (at cfg c) (bind (if co_state c = Failed \<and> \<not> sc_daemon cfg
      then apply_state (sc_name cfg) Succeeded None else ret ()) (\<lambda>_. ret (l\<lparr>l_next := nx, l_streak := 0\<rparr>)))
      (reaches cfg (steps_to cfg l c))" for nx
  proof (cases "co_state c = Failed \<and> \<not> sc_daemon cfg")
    case True
    then show ?thesis by (simp only: if_True simp_thms) (intro seq_apply [OF u] ret_reaches ok True)
  next
    case False
    then show ?thesis by (simp only: if_False bind_ret) (intro ret_reaches steps_to_refl, simp)
  qed
  have "hoare e (at cfg c) (case outcome of
       ProbeOk \<Rightarrow> bind (if co_state c = Failed \<and> \<not> sc_daemon cfg then apply_state (sc_name cfg) Succeeded None else ret ())
          (\<lambda>_. ret (l\<lparr>l_next := Some t, l_streak := 0\<rparr>))
     | ProbeFail reason \<Rightarrow> liveness_failed cfg probe reason (l\<lparr>l_next := Some t\<rparr>)) (reaches cfg (steps_to cfg l c))"
    for outcome t by (cases outcome) (simp_all only: probe_result.case good fail)
  then show ?thesis
    unfolding probe_now_def
    by (intro seq_keep [OF keeps_run_probe [OF s at_inert]] seq_keep [OF keeps_deadline [OF s]])
qed

lemma maybe_liveness_refines:
  assumes u: "undisturbed e cfg"
  shows "hoare e (at cfg c) (maybe_liveness cfg l) (reaches cfg (steps_to cfg l c))"
proof (cases "sc_liveness_probe cfg")
  case None
  then show ?thesis unfolding maybe_liveness_def by (auto intro!: ret_reaches steps_to_refl)
next
  case (Some probe)
  have s: "stable e (at cfg d)" for d using u by (rule undisturbedD)
  have same: "hoare e (at cfg c) (ret l) (reaches cfg (steps_to cfg l c))" by (intro ret_reaches steps_to_refl refl)
  show ?thesis
    unfolding maybe_liveness_def Some option.case
  proof (rule seq_read [OF s, where B = "\<lambda>x. x = Some (co_state c)"], simp add: current_state_at)
    fix cur
    assume cur: "cur = Some (co_state c)"
    have timer: "hoare e (at cfg c) (bind (deadline_after d) (\<lambda>t. ret (l\<lparr>l_next := Some t\<rparr>))) (reaches cfg (steps_to cfg l c))" for d
      by (intro seq_keep [OF keeps_deadline [OF s]] ret_reaches steps_to_refl) simp
    show "hoare e (at cfg c) (case cur of None \<Rightarrow> ret l | Some st \<Rightarrow>
        if \<not> (st = Running \<or> st = Succeeded \<or> st = Failed) then ret l
        else bind (reads (\<lambda>w. case is_enabled (sc_name cfg) (w_runtimes w) of Inr b \<Rightarrow> b | Inl _ \<Rightarrow> False)) (\<lambda>en.
          if \<not> en then ret l
          else (case l_next l of
                  None \<Rightarrow> bind (deadline_after (secs (unat (lp_interval probe)))) (\<lambda>t. ret (l\<lparr>l_next := Some t\<rparr>))
                | Some t \<Rightarrow> bind (reads (\<lambda>w. w_now w \<ge> t)) (\<lambda>due. if \<not> due then ret l else probe_now cfg probe st l))))
        (reaches cfg (steps_to cfg l c))"
      unfolding cur option.case
      by (cases "l_next l"; intro hoare_if same seq_keep [OF keeps_reads [OF s]]; simp only: option.case)
        (rule timer, intro seq_keep [OF keeps_reads [OF s]] hoare_if same probe_now_refines [OF u Some])
  qed
qed

text \<open>A turn goes on with other locals or leaves the loop; then the service was stopped or its channel closed.\<close>

definition turn_to :: "service_config \<Rightarrow> locals \<Rightarrow> core \<Rightarrow> locals option \<Rightarrow> core \<Rightarrow> bool" where
  "turn_to cfg l c r c' =
     (case r of Some l' \<Rightarrow> steps_to cfg l c l' c' | None \<Rightarrow> c' = move Stopped None c \<or> c' = c)"

lemma turn_to_Some: "steps_to cfg l c l' c' \<Longrightarrow> turn_to cfg l c (Some l') c'"
  by (simp add: turn_to_def)

lemma step_stop_cases:
  "co_enabled c \<Longrightarrow> mon_step cfg (t, c) (None, move Stopped None (move Stopping None c))"
  "\<not> co_enabled c \<Longrightarrow> mon_step cfg (t, c) (None, move Disabled None (move Stopping None c))"
  using step_stop [of cfg t c] by simp_all

lemma start_again_refines:
  assumes u: "undisturbed e cfg"
  shows "hoare e (at cfg c) (bind (start_or_fail cfg force what None) (\<lambda>t.
    bind (schedule_liveness cfg) (\<lambda>nx. ret (Some \<lparr>l_tracked = t, l_next = nx, l_streak = 0\<rparr>)))) (reaches cfg (turn_to cfg l c))"
  by (intro seq_reaches [OF start_or_fail_refines [OF u]] seq_schedule [OF u] ret_reaches turn_to_Some steps_to_one)
    (simp add: step_start)

lemma on_message_refines:
  assumes u: "undisturbed e cfg"
  shows "hoare e (at cfg c) (on_message (sc_name cfg) msg l) (reaches cfg (turn_to cfg l c))"
proof -
  have s: "stable e (at cfg d)" for d using u by (rule undisturbedD)
  have quit: "hoare e (at cfg c) (on_quit cfg l) (reaches cfg (turn_to cfg l c))"
    unfolding on_quit_def
    by (intro seq_keep [OF at.keeps_stop_tracked [OF s]] seq_apply [OF u] ret_reaches) (simp add: turn_to_def)
  have stop: "hoare e (at cfg c) (on_stop cfg l) (reaches cfg (turn_to cfg l c))"
    unfolding on_stop_def Let_def
    by (intro seq_keep [OF at.keeps_log_init [OF s]] seq_apply [OF u] seq_keep [OF at.keeps_stop_tracked [OF s]]
        seq_read [OF s, where B = "\<lambda>x. x = co_enabled c"])
      (auto simp: is_enabled_at intro!: seq_apply [OF u] ret_reaches turn_to_Some steps_to_one
        intro: step_stop_cases)
  have restart: "hoare e (at cfg c) (on_restart cfg l) (reaches cfg (turn_to cfg l c))"
    unfolding on_restart_def Let_def
    by (intro seq_keep [OF at.keeps_log_init [OF s]] seq_keep [OF at.keeps_stop_tracked [OF s]])
      (auto intro!: start_again_refines [OF u] seq_keep [OF keeps_run_shell [OF s at_inert]] seq_apply [OF u]
        seq_schedule [OF u] ret_reaches turn_to_Some steps_to_one simp: step_restart_command split: sum.split)
  have start: "hoare e (at cfg c) (on_start cfg force l) (reaches cfg (turn_to cfg l c))" for force
    unfolding on_start_def
    by (cases "l_tracked l") (auto intro!: start_again_refines [OF u] ret_reaches turn_to_Some steps_to_refl)
  show ?thesis
    unfolding on_message_def
    by (rule seq_cfg [OF u]) (auto simp: quit stop restart start split: ctl_msg.split)
qed

lemma idle_tracked_refines:
  assumes u: "undisturbed e cfg" and t: "l_tracked l = Some pid"
  shows "hoare e (at cfg c) (idle_tracked (sc_name cfg) pid l) (reaches cfg (steps_to cfg l c))"
proof -
  have s: "stable e (at cfg d)" for d using u by (rule undisturbedD)
  have exit: "hoare e (at cfg c) (bind (service_cfg (sc_name cfg)) (\<lambda>r. case r of Inl _ \<Rightarrow> ret l1 | Inr cfg \<Rightarrow>
      bind (on_process_exit cfg code None) (\<lambda>tracked.
        bind (schedule_liveness cfg) (\<lambda>t. ret (upd tracked t))))) (reaches cfg (steps_to cfg l c))"
    if "\<And>x t. l_tracked (upd x t) = x" for code l1 upd
    by (rule seq_cfg [OF u], unfold sum.case, intro seq_reaches [OF on_process_exit_refines [OF u]] seq_schedule [OF u] ret_reaches
        steps_to_one) (simp add: t that exit_to_step)
  show ?thesis
    unfolding idle_tracked_def Let_def
    by (rule seq_keep [OF at.keeps_take_exit [OF s]])
      (auto intro!: exit ret_reaches steps_to_refl split: option.split)
qed

lemma idle_waiting_refines:
  assumes u: "undisturbed e cfg"
  shows "hoare e (at cfg c) (idle_waiting (sc_name cfg) l) (reaches cfg (steps_to cfg l c))"
proof -
  have s: "stable e (at cfg d)" for d using u by (rule undisturbedD)
  have "hoare e (at cfg c) (bind (start_or_fail cfg False what None) (\<lambda>tracked.
      bind (schedule_liveness cfg) (\<lambda>t. ret (l\<lparr>l_tracked := tracked, l_next := t\<rparr>)))) (reaches cfg (steps_to cfg l c))" for what
    by (intro seq_reaches [OF start_or_fail_refines [OF u]] seq_schedule [OF u] ret_reaches steps_to_one)
      (simp add: step_start)
  then have "hoare e (at cfg c) (bind (service_cfg (sc_name cfg)) (\<lambda>r. case r of Inl _ \<Rightarrow> ret l | Inr cfg \<Rightarrow>
      bind (start_or_fail cfg False what None) (\<lambda>tracked.
        bind (schedule_liveness cfg) (\<lambda>t. ret (l\<lparr>l_tracked := tracked, l_next := t\<rparr>))))) (reaches cfg (steps_to cfg l c))" for what
    by (intro seq_cfg [OF u]) simp
  then show ?thesis
    unfolding idle_waiting_def
    by (intro seq_keep [OF keeps_reads [OF s]] hoare_if ret_reaches steps_to_refl refl) simp_all
qed

lemma idle_liveness_refines:
  assumes u: "undisturbed e cfg"
  shows "hoare e (at cfg c) (idle_liveness (sc_name cfg) l) (reaches cfg (steps_to cfg l c))"
  unfolding idle_liveness_def
  by (intro seq_keep [OF keeps_reads [OF undisturbedD [OF u]]] hoare_if ret_reaches steps_to_refl refl seq_cfg [OF u])
    (simp add: maybe_liveness_refines [OF u])

lemma at_recv: "channel_inv (at cfg c) ch"
  by unfold_locales (simp add: frame_simps)

lemma monitor_turn_refines:
  assumes u: "undisturbed e cfg"
  shows "hoare e (at cfg c) (monitor_turn (sc_name cfg) ch l) (reaches cfg (turn_to cfg l c))"
proof -
  have s: "stable e (at cfg d)" for d using u by (rule undisturbedD)
  have idle: "hoare e (at cfg c) (case l_tracked l of Some pid \<Rightarrow> idle_tracked (sc_name cfg) pid l
      | None \<Rightarrow> idle_waiting (sc_name cfg) l) (reaches cfg (steps_to cfg l c))"
    by (auto intro: idle_tracked_refines [OF u] idle_waiting_refines [OF u] split: option.split)
  have live: "hoare e (at cfg d) (bind (idle_liveness (sc_name cfg) l1) (\<lambda>l2. ret (Some l2))) (reaches cfg (turn_to cfg l c))"
    if "steps_to cfg l c l1 d" for l1 d
    by (rule seq_reaches [OF idle_liveness_refines [OF u]]) (intro ret_reaches turn_to_Some steps_to_trans [OF that])
  have left: "hoare e (at cfg c) (ret None) (reaches cfg (turn_to cfg l c))"
    by (rule ret_reaches) (simp add: turn_to_def)
  have recv: "hoare e (at cfg c) (case r of RecvDisconnected \<Rightarrow> ret None | RecvMsg msg \<Rightarrow> on_message (sc_name cfg) msg l
       | RecvEmpty \<Rightarrow> bind (case l_tracked l of Some pid \<Rightarrow> idle_tracked (sc_name cfg) pid l
            | None \<Rightarrow> idle_waiting (sc_name cfg) l) (\<lambda>l1. bind (idle_liveness (sc_name cfg) l1) (\<lambda>l2. ret (Some l2))))
      (reaches cfg (turn_to cfg l c))" for r
    by (cases r) (auto intro: left on_message_refines [OF u] seq_reaches [OF idle live])
  show ?thesis
    unfolding monitor_turn_def
    by (rule seq_read [OF s, where B = "\<lambda>x. x = False"], simp add: not_stopping_at, simp only: if_False simp_thms)
      (intro seq_keep [OF channel_inv.keeps_recv_timeout [OF at_recv s]] recv)
qed

lemma monitor_loop_refines:
  assumes u: "undisturbed e cfg"
  shows "hoare e (at cfg c) (monitor_loop n (sc_name cfg) ch l) (reaches cfg (\<lambda>r c'. \<exists>l' d. steps_to cfg l c l' d \<and> turn_to cfg l' d r c'))"
proof (induction n arbitrary: l c)
  case 0
  show ?case
    unfolding monitor_loop.simps
    by (rule ret_reaches) (auto intro!: exI [of _ l] exI [of _ c] steps_to_refl turn_to_Some)
next
  case (Suc n)
  have s: "stable e (at cfg d)" for d using u by (rule undisturbedD)
  have close: "keeps e (at cfg d) (close_channel ch)" for d
    unfolding close_channel_def by (rule keeps_writes [OF s]) (simp add: frame_simps)
  show ?case
    unfolding monitor_loop.simps
  proof (rule seq_reaches [OF monitor_turn_refines [OF u]])
    fix r d
    assume r: "turn_to cfg l c r d"
    show "hoare e (at cfg d) (case r of None \<Rightarrow> bind (close_channel ch) (\<lambda>_. ret None)
        | Some l' \<Rightarrow> monitor_loop n (sc_name cfg) ch l')
        (reaches cfg (\<lambda>r c'. \<exists>l' d. steps_to cfg l c l' d \<and> turn_to cfg l' d r c'))"
    proof (cases r)
      case None
      then have "\<exists>l' d'. steps_to cfg l c l' d' \<and> turn_to cfg l' d' None d"
        using r steps_to_refl [OF refl] by blast
      then show ?thesis unfolding None option.case by (intro seq_keep [OF close] ret_reaches)
    next
      case (Some l1)
      then have "steps_to cfg l c l1 d" using r by (simp add: turn_to_def)
      then show ?thesis
        unfolding Some option.case
        by (intro reaches_weaken [OF Suc]) (blast intro: steps_to_trans)
    qed
  qed
qed

lemma monitor_loop_steps:
  assumes "undisturbed e cfg"
  shows "hoare e (at cfg c) (monitor_loop n (sc_name cfg) ch l) (\<lambda>r w. \<exists>c'. at cfg c' w \<and>
    (case r of
       Some l' \<Rightarrow> (mon_step cfg)\<^sup>*\<^sup>* (l_tracked l, c) (l_tracked l', c')
     | None \<Rightarrow> \<exists>t d. (mon_step cfg)\<^sup>*\<^sup>* (l_tracked l, c) (t, d) \<and> (c' = move Stopped None d \<or> c' = d)))"
proof (rule hoare_weaken [OF monitor_loop_refines [OF assms]])
  fix r w
  assume "reaches cfg (\<lambda>r c'. \<exists>l' d. steps_to cfg l c l' d \<and> turn_to cfg l' d r c') r w"
  then obtain c' l' d where "at cfg c' w" and steps: "steps_to cfg l c l' d" "turn_to cfg l' d r c'"
    by (auto simp: reaches_def)
  moreover have "case r of Some l' \<Rightarrow> (mon_step cfg)\<^sup>*\<^sup>* (l_tracked l, c) (l_tracked l', c')
     | None \<Rightarrow> \<exists>t d. (mon_step cfg)\<^sup>*\<^sup>* (l_tracked l, c) (t, d) \<and> (c' = move Stopped None d \<or> c' = d)"
  proof (cases r)
    case None
    then show ?thesis using steps by (auto simp: steps_to_def turn_to_def)
  next
    case (Some l'')
    then show ?thesis using steps steps_to_trans [OF steps(1), of l'' c'] by (simp add: steps_to_def turn_to_def)
  qed
  ultimately show "\<exists>c'. at cfg c' w \<and> (case r of
       Some l' \<Rightarrow> (mon_step cfg)\<^sup>*\<^sup>* (l_tracked l, c) (l_tracked l', c')
     | None \<Rightarrow> \<exists>t d. (mon_step cfg)\<^sup>*\<^sup>* (l_tracked l, c) (t, d) \<and> (c' = move Stopped None d \<or> c' = d))" by blast
qed

section \<open>Properties\<close>


definition demo_service :: service_config where
  "demo_service = (default_service_config ''web'')\<lparr>sc_start_cmd := Some ''run'', sc_restart_cmd := Some ''hup''\<rparr>"

lemma demo_names [simp]: "sc_name demo_service = ''web''" "l_tracked initial_locals = None"
  by (simp_all add: demo_service_def default_service_config_def initial_locals_def)

lemma demo_undisturbed: "undisturbed demo_env cfg"
  by (simp add: undisturbed_def stable_def demo_others at_def)



definition demo_running :: runtime where
  "demo_running = (new_runtime True)\<lparr>rt_state := Running, rt_pid := Some 42, rt_running_since := Some 0\<rparr>"

definition demo_run_world :: world where
  "demo_run_world = (demo_world (demo_config\<lparr>cfg_services := [demo_service]\<rparr>))
     \<lparr>w_runtimes := [(''web'', demo_running)], w_ctl := [(''web'', 0)], w_queues := [(0, [])]\<rparr>"

lemma demo_at: "at demo_service (core_of demo_running) demo_run_world"
  by (simp add: at_def demo_run_world_def demo_world_def get_def)

lemma bind_eq: "m e w = Ret x w' \<Longrightarrow> bind m f e w = f x e w'"
  by (simp add: bind_def)

lemma demo_cv_wait: "cv_wait d demo_env w = Ret True (w\<lparr>w_tick := Suc (w_tick w), w_now := w_now w + d\<rparr>)"
proof -
  have "e_wake demo_env n = 0" for n by (simp add: demo_env_def)
  then show ?thesis by (simp add: cv_wait_def atomic_simp demo_others Let_def)
qed

lemma demo_recv: "w_queues w = [(0, [])] \<Longrightarrow> w_ctl w = [(''web'', 0)] \<Longrightarrow> recv_timeout 0 CTL_POLL demo_env w =
    Ret RecvEmpty (w\<lparr>w_tick := w_tick w + 3, w_now := w_now w + CTL_POLL\<rparr>)"
  by (simp add: recv_timeout_def recv_loop.simps [of 0] try_recv_def demo_cv_wait demo_others CTL_POLL_def)

lemma demo_idle: "w_exits w = [] \<Longrightarrow> idle_tracked ''web'' 42 l demo_env w = Ret l (w\<lparr>w_tick := w_tick w + 1\<rparr>)"
  by (simp add: idle_tracked_def take_exit_def exits_take_def atomic_simp demo_others bind_def)

lemma demo_no_probe: "\<not> w_stop_all w \<Longrightarrow> get (w_config w) ''web'' = Some demo_service \<Longrightarrow> l_next l = None \<Longrightarrow>
    idle_liveness ''web'' l demo_env w = Ret l (w\<lparr>w_tick := w_tick w + 2\<rparr>)"
  by (simp add: idle_liveness_def service_cfg_def maybe_liveness_def demo_others demo_service_def default_service_config_def)

lemma demo_turn: "\<exists>w'. monitor_loop 1 ''web'' 0 \<lparr>l_tracked = Some 42, l_next = None, l_streak = 0\<rparr> demo_env demo_run_world
    = Ret (Some \<lparr>l_tracked = Some 42, l_next = None, l_streak = 0\<rparr>) w'"
  by (simp add: monitor_turn_def bind_eq demo_recv demo_idle demo_no_probe demo_others demo_run_world_def demo_world_def get_def)




end
