(* ===== verification/Monitor_Edges.thy ===== *)
theory Monitor_Edges
  imports Lifecycle
begin

text \<open>
  The monitor (\<open>src/src/supervisor.rs\<close>) at the edges of the state machine: the turn that sees the shutdown flag, the
  idle turn of a service whose start failed, a restart by the service's own restart command, and a start whose pid has an
  old exit code in the registry.
\<close>

section \<open>Shutdown\<close>

text \<open>The environments for the shutdown turn: others keep the flag, the definition, this service's state and sent signals.\<close>

definition winding_down :: "service_config \<Rightarrow> service_state \<Rightarrow> (i32 \<times> signal) set \<Rightarrow> world \<Rightarrow> bool" where
  "winding_down cfg st sent w =
     (w_stop_all w \<and> get (w_config w) (sc_name cfg) = Some cfg \<and> current_state (sc_name cfg) (w_runtimes w) = Some st
      \<and> sent \<subseteq> set (w_signals w))"

lemma winding_down_updates [frame_simps]:
  "winding_down cfg st sent (w\<lparr>w_hub := h\<rparr>) = winding_down cfg st sent w"
  "winding_down cfg st sent (w\<lparr>w_watch := wh\<rparr>) = winding_down cfg st sent w"
  "winding_down cfg st sent (w\<lparr>w_con_out := out\<rparr>) = winding_down cfg st sent w"
  by (simp_all add: winding_down_def)

interpretation down: shared_inv "winding_down cfg st sent" for cfg st sent
  by unfold_locales (simp_all add: frame_simps, auto simp: inert_def timeless_def exit_free_def winding_down_def)

lemma down_inert: "inert (winding_down cfg st sent)"
  by (rule down.P_inert)

lemma down_terminate:
  assumes s: "\<And>sent. stable e (winding_down cfg st sent)"
  shows "hoare e (winding_down cfg st sent) (terminate_pid pid grace) (\<lambda>_. winding_down cfg st (insert (pid, SIGTERM) sent))"
proof -
  have kill: "hoare e (winding_down cfg st sent) (kill pid SIGTERM) (\<lambda>_. winding_down cfg st (insert (pid, SIGTERM) sent))"
    unfolding kill_def by (rule hoare_writes [OF s]) (auto simp: winding_down_def)
  have loop: "keeps e P (terminate_loop pid d)" if "stable e P" "inert P" for d P
    using keeps_terminate_loop [OF that(1), of _ pid d] that(2) by (simp add: hoare_def inert_def)
  show ?thesis
    unfolding terminate_pid_def
    by (intro hoare_bind [OF kill] keeps_flow keeps_kill loop s down_inert)
qed

lemma down_stop_tracked:
  assumes s: "\<And>sent. stable e (winding_down cfg st sent)"
  shows "hoare e (winding_down cfg st {}) (stop_tracked cfg tracked)
    (\<lambda>_. winding_down cfg st (case tracked of Some pid \<Rightarrow> {(pid, SIGTERM)} | None \<Rightarrow> {}))"
proof (cases tracked)
  case None
  then show ?thesis using down.keeps_stop_tracked [OF s] by simp
next
  case (Some pid)
  have run: "keeps e (winding_down cfg st {}) (case resolve_stop cfg of Inr stop \<Rightarrow> bind (run_shell stop cfg []) (\<lambda>_. ret ()) | Inl _ \<Rightarrow> ret ())"
    by (intro keeps_flow keeps_run_shell s down_inert)
  show ?thesis
    unfolding stop_tracked_def Let_def Some option.case
    by (intro hoare_bind [OF run] hoare_bind [OF down_terminate [OF s]] keeps_flow keeps_wait_take s down_inert)
qed

section \<open>A service nobody asks for\<close>

lemma seq_value: "hoare e P m (\<lambda>x w. x = v \<and> P w) \<Longrightarrow> hoare e P (f v) Q \<Longrightarrow> hoare e P (bind m f) Q"
  by (rule hoare_bind, assumption) (auto simp: hoare_def)

text \<open>The record, with no message in the channel and a sender for it.\<close>

definition unasked :: "service_config \<Rightarrow> core \<Rightarrow> nat \<Rightarrow> world \<Rightarrow> bool" where
  "unasked cfg c ch w = (at cfg c w \<and> om_get (w_queues w) ch = Some [] \<and> ch \<in> snd ` set (w_ctl w))"

interpretation unasked: shared_inv "unasked cfg c ch" for cfg c ch
  by unfold_locales (auto simp: unasked_def inert_def timeless_def exit_free_def at_def)

lemma unasked_try_recv: "unasked cfg c ch w \<Longrightarrow> try_recv ch w = (RecvEmpty, w)"
  by (auto simp: unasked_def try_recv_def)

lemma unasked_recv_loop:
  assumes s: "stable e (unasked cfg c ch)" and "unasked cfg c ch w"
  shows "case recv_loop ch deadline e w of Ret r w' \<Rightarrow> r = RecvEmpty \<and> unasked cfg c ch w' | Panic _ \<Rightarrow> True"
  using assms(2)
proof (induction "deadline - w_now w" arbitrary: w rule: less_induct)
  case (less w)
  show ?case
  proof (cases "w_now w < deadline")
    case True
    obtain b w' where cv: "cv_wait (deadline - w_now w) e w = Ret b w'" by (simp add: cv_wait_def atomic_simp)
    have P': "unasked cfg c ch w'" using hoareD [OF unasked.keeps_cv_wait [OF s] less(2) cv] .
    show ?thesis
    proof (cases b)
      case False
      then have "deadline - w_now w' < deadline - w_now w"
        using cv_wait_False [of _ e w w'] cv True by (simp add: diff_less_mono2)
      then show ?thesis
        using less(1) [OF _ P'] cv True False unasked_try_recv [OF less(2)] by (simp add: recv_loop.simps [of ch deadline e w])
    qed (use unasked_try_recv [OF P'] unasked_try_recv [OF less(2)] P' cv True in \<open>simp add: recv_loop.simps [of ch deadline e w]\<close>)
  qed (use unasked_try_recv [OF less(2)] less(2) in \<open>simp add: recv_loop.simps [of ch deadline e w]\<close>)
qed

lemma unasked_recv:
  assumes "stable e (unasked cfg c ch)"
  shows "hoare e (unasked cfg c ch) (recv_timeout ch d) (\<lambda>r w. r = RecvEmpty \<and> unasked cfg c ch w)"
  unfolding recv_timeout_def
  by (intro seq_keep [OF keeps_reads [OF assms]]) (use unasked_recv_loop [OF assms] in \<open>simp add: hoare_def\<close>)

lemma unasked_turn:
  assumes s: "stable e (unasked cfg c ch)" and c: "co_state c \<noteq> WaitingForDependency" "sc_liveness_probe cfg = None"
    and l: "l_tracked l = None"
  shows "hoare e (unasked cfg c ch) (monitor_turn (sc_name cfg) ch l)
    (\<lambda>r w. (\<exists>l'. r = Some l' \<and> l_tracked l' = None) \<and> unasked cfg c ch w)"
proof -
  have cfg: "hoare e (unasked cfg c ch) (bind (service_cfg (sc_name cfg)) f) Q"
    if "hoare e (unasked cfg c ch) (f (Inr cfg)) Q" for f :: "service_config res \<Rightarrow> locals prog" and Q
    unfolding service_cfg_def
    by (rule seq_read [OF s, where B = "\<lambda>x. x = Inr cfg"]) (auto simp: unasked_def at_def that)
  have idle: "hoare e (unasked cfg c ch) (idle_waiting (sc_name cfg) l) (\<lambda>l' w. l' = l \<and> unasked cfg c ch w)"
    unfolding idle_waiting_def
    by (rule seq_keep [OF keeps_reads [OF s]], rule hoare_if, rule hoare_ret, simp,
        rule seq_read [OF s, where B = "\<lambda>x. x = Some (co_state c)"])
      (auto simp: unasked_def current_state_at c intro: hoare_ret)
  have live: "hoare e (unasked cfg c ch) (idle_liveness (sc_name cfg) l) (\<lambda>l' w. l_tracked l' = None \<and> unasked cfg c ch w)"
    unfolding idle_liveness_def
    by (rule seq_keep [OF keeps_reads [OF s]], rule hoare_if, rule hoare_ret, simp add: l, rule cfg)
      (simp add: maybe_liveness_def c hoare_def l)
  have turn: "hoare e (unasked cfg c ch) (bind (idle_waiting (sc_name cfg) l) (\<lambda>l1. bind (idle_liveness (sc_name cfg) l1) (\<lambda>l2. ret (Some l2))))
      (\<lambda>r w. (\<exists>l'. r = Some l' \<and> l_tracked l' = None) \<and> unasked cfg c ch w)"
    by (rule seq_value [OF idle], rule hoare_bind [OF live], rule hoare_ret) blast
  show ?thesis
    unfolding monitor_turn_def
    by (rule seq_read [OF s, where B = "\<lambda>x. x = False"], fastforce simp: unasked_def at_def, simp only: if_False simp_thms)
      (rule seq_value [OF unasked_recv [OF s]], use turn l in simp)
qed

lemma unasked_loop:
  assumes s: "stable e (unasked cfg c ch)" and c: "co_state c \<noteq> WaitingForDependency" "sc_liveness_probe cfg = None"
    and l: "l_tracked l = None"
  shows "hoare e (unasked cfg c ch) (monitor_loop n (sc_name cfg) ch l)
    (\<lambda>r w. (\<exists>l'. r = Some l' \<and> l_tracked l' = None) \<and> unasked cfg c ch w)"
  using l
proof (induction n arbitrary: l)
  case 0
  show ?case unfolding monitor_loop.simps by (rule hoare_ret) (simp add: 0)
next
  case (Suc n)
  show ?case
    unfolding monitor_loop.simps
  proof (rule hoare_bind [OF unasked_turn [OF s c Suc(2)]])
    fix r
    show "hoare e (\<lambda>w. (\<exists>l'. r = Some l' \<and> l_tracked l' = None) \<and> unasked cfg c ch w)
        (case r of None \<Rightarrow> bind (close_channel ch) (\<lambda>_. ret None) | Some l' \<Rightarrow> monitor_loop n (sc_name cfg) ch l')
        (\<lambda>r w. (\<exists>l'. r = Some l' \<and> l_tracked l' = None) \<and> unasked cfg c ch w)"
      using Suc(1) by (cases r) (auto simp: hoare_def)
  qed
qed

section \<open>Properties\<close>



text \<open>
  A service that is in state failed and has no liveness probe stays failed without a request, for any number of turns
  and whatever its restart policy; so a daemon that dies within its start window is not restarted.
\<close>

theorem failed_service_is_not_restarted:
  assumes "stable e (unasked cfg c ch)" "co_state c = Failed" "sc_liveness_probe cfg = None"
  shows "hoare e (unasked cfg c ch) (monitor_loop n (sc_name cfg) ch initial_locals)
    (\<lambda>r w. (\<exists>l'. r = Some l' \<and> l_tracked l' = None) \<and> at cfg c w)"
  using unasked_loop [OF assms(1) _ assms(3), of initial_locals n] assms(2)
  by (auto simp: unasked_def elim: hoare_weaken)

definition demo_failed :: core where
  "demo_failed = move Failed None (move Starting None (core_of (new_runtime True)))"

theorem failed_service_is_not_restarted_witness:
  "attempt (demo_service\<lparr>sc_restart_policy := Always\<rparr>) (core_of (new_runtime True)) None demo_failed
   \<and> hoare demo_env (unasked (demo_service\<lparr>sc_restart_policy := Always\<rparr>) demo_failed 0) (monitor_loop 100 ''web'' 0 initial_locals)
    (\<lambda>r w. (\<exists>l'. r = Some l' \<and> l_tracked l' = None) \<and> at (demo_service\<lparr>sc_restart_policy := Always\<rparr>) demo_failed w)"
proof
  have "starts (demo_service\<lparr>sc_restart_policy := Always\<rparr>) (core_of (new_runtime True))
      (Inl (ErrService ''web'' ''exited with code 1'')) None demo_failed"
    unfolding demo_failed_def
    by (rule starts_failed [where msg = "''exited with code 1''" and cfg = "demo_service\<lparr>sc_restart_policy := Always\<rparr>", simplified])
      (simp add: core_of_def new_runtime_def)
  moreover have "demo_failed = move Failed None demo_failed" by (simp add: demo_failed_def move_def keeps_pid_def)
  ultimately show "attempt (demo_service\<lparr>sc_restart_policy := Always\<rparr>) (core_of (new_runtime True)) None demo_failed"
    unfolding attempt_def by (metis sum.case(1))
  have "stable demo_env (unasked (demo_service\<lparr>sc_restart_policy := Always\<rparr>) demo_failed 0)"
    by (simp add: stable_def demo_others unasked_def at_def)
  from failed_service_is_not_restarted [OF this, of 100]
  show "hoare demo_env (unasked (demo_service\<lparr>sc_restart_policy := Always\<rparr>) demo_failed 0) (monitor_loop 100 ''web'' 0 initial_locals)
    (\<lambda>r w. (\<exists>l'. r = Some l' \<and> l_tracked l' = None) \<and> at (demo_service\<lparr>sc_restart_policy := Always\<rparr>) demo_failed w)"
    by (simp add: demo_failed_def) (simp add: demo_service_def default_service_config_def)
qed

text \<open>
  After a restart by the service's own restart command the status shows the pid of the process that was
  terminated: the monitor tracks nothing, but the record is running with the old pid. The concrete run: a
  service running as pid 42 is sent a restart, 42 gets \<open>SIGTERM\<close> and exits, the restart command (pid 43) succeeds.
\<close>

definition restart_env :: env where
  "restart_env = demo_env\<lparr>e_spawn := (\<lambda>_ _. Inr 43)\<rparr>"

definition restart_world :: world where
  "restart_world = demo_run_world\<lparr>w_exits := [(42, 143), (43, 0)]\<rparr>"

lemma restart_others: "others restart_env w = w\<lparr>w_tick := Suc (w_tick w)\<rparr>"
  by (simp add: others_def restart_env_def demo_env_def)

lemma restart_terminate: "w_now w = 0 \<Longrightarrow> terminate_pid 42 5 restart_env w =
    Ret () (w\<lparr>w_tick := w_tick w + 4, w_signals := w_signals w @ [(42, SIGTERM)]\<rparr>)"
proof -
  assume "w_now w = 0"
  moreover have "e_gone restart_env n p" for n p by (simp add: restart_env_def demo_env_def)
  ultimately show ?thesis
    by (simp add: terminate_pid_def kill_def bind_def deadline_after_def terminate_loop.simps restart_others Let_def INSTANT_LIMIT_def)
qed

lemma restart_wait_take: "w_now w = 0 \<Longrightarrow> d < INSTANT_LIMIT \<Longrightarrow> om_get (w_exits w) pid = Some code \<Longrightarrow>
    wait_take pid d restart_env w = Ret (Some code) (w\<lparr>w_tick := w_tick w + 2, w_exits := om_remove pid (w_exits w)\<rparr>)"
  by (simp add: wait_take_def deadline_after_def bind_def wait_take_loop.simps exits_take_def restart_others Let_def)

lemma restart_command: "w_now w = 0 \<Longrightarrow> om_get (w_exits w) 43 = Some 0 \<Longrightarrow>
    \<exists>w'. run_shell ''hup'' demo_service [] restart_env w = Ret (Inr 0) w' \<and> w_runtimes w' = w_runtimes w
      \<and> w_watch w' = w_watch w \<and> w_signals w' = w_signals w \<and> w_exits w' = om_remove 43 (w_exits w)"
proof -
  assume w: "w_now w = 0" "om_get (w_exits w) 43 = Some 0"
  have "CHILD_WAIT_SLICE < INSTANT_LIMIT" by (simp add: CHILD_WAIT_SLICE_def INSTANT_LIMIT_def)
  moreover have "resolve_sec (e_db restart_env) demo_service = Inr None"
    by (simp add: resolve_sec_def demo_service_def default_service_config_def)
  moreover have "e_spawn restart_env n c = Inr 43" for n c by (simp add: restart_env_def)
  ultimately show ?thesis
    using w by (auto simp: run_shell_def spawn_shell_cmd_def spawn_def atomic_simp bind_def restart_others restart_wait_take
        wait_forever.simps)
qed

theorem restart_command_leaves_stale_pid:
  "\<exists>l' w' rt. on_restart demo_service \<lparr>l_tracked = Some 42, l_next = None, l_streak = 0\<rparr> restart_env restart_world = Ret (Some l') w'
    \<and> l_tracked l' = None \<and> om_get (w_runtimes w') ''web'' = Some rt \<and> rt_state rt = Running \<and> rt_pid rt = Some 42
    \<and> w_signals w' = [(42, SIGTERM)] \<and> om_get (w_exits w') 42 = None"
proof -
  have cfg: "resolve_stop demo_service = Inl (ErrService ''web'' ''no stopCmd or cmd defined'')"
    "resolve_restart demo_service = Inr ''hup''" "sc_shutdown_wait_secs demo_service = 5" "sc_daemon demo_service"
    "is_success demo_service 0" "sc_liveness_probe demo_service = None"
    by (simp_all add: demo_service_def default_service_config_def resolve_stop_def resolve_restart_def is_success_def)
  define w1 where "w1 = (let v = restart_world\<lparr>w_tick := 1\<rparr> in v\<lparr>w_hub := emit (e_opens restart_env) (e_ts restart_env 1)
      INIT_SERVICE LvInfo ''restarting web'' (w_hub v)\<rparr>)"
  define w2 where "w2 = w1\<lparr>w_tick := 7, w_signals := [(42, SIGTERM)], w_exits := [(43, 0)]\<rparr>"
  have w1: "w_now w1 = 0" "w_exits w1 = [(42, 143), (43, 0)]" "w_signals w1 = []" "w_tick w1 = 1"
    "w_runtimes w1 = [(''web'', demo_running)]" "wh_count (w_watch w1) = 0"
    by (simp_all add: w1_def restart_world_def demo_run_world_def demo_world_def watch_new_def)
  have log: "log_init LvInfo ''restarting web'' restart_env restart_world = Ret () w1"
    by (simp add: log_init_def restart_others w1_def Let_def restart_world_def demo_run_world_def demo_world_def)
  have "6000 < INSTANT_LIMIT" by (simp add: INSTANT_LIMIT_def)
  then have stop: "stop_tracked demo_service (Some 42) restart_env w1 = Ret () w2"
    by (simp add: stop_tracked_def cfg bind_eq restart_terminate restart_wait_take w1 w2_def sat_succ_def)
  obtain w3 where hup: "run_shell ''hup'' demo_service [] restart_env w2 = Ret (Inr 0) w3"
    and w3: "w_runtimes w3 = [(''web'', demo_running)]" "wh_count (w_watch w3) = 0" "w_signals w3 = [(42, SIGTERM)]" "w_exits w3 = []"
    using restart_command [of w2] w1 by (auto simp: w2_def)
  have moved: "\<exists>w'. apply_state ''web'' Running None restart_env w3 = Ret () w' \<and> w_runtimes w' =
      [(''web'', demo_running)] \<and> w_signals w' = w_signals w3 \<and> w_exits w' = w_exits w3"
    using w3 by (simp add: apply_state_def notify_watchers_def restart_others put_state_def set_state_def update_runtime_def
        follower_count_def rt_set_state_def demo_running_def keeps_pid_def)
  then obtain w4 where w4: "apply_state ''web'' Running None restart_env w3 = Ret () w4" "w_runtimes w4 = [(''web'', demo_running)]"
    "w_signals w4 = w_signals w3" "w_exits w4 = w_exits w3" by blast
  have "on_restart demo_service \<lparr>l_tracked = Some 42, l_next = None, l_streak = 0\<rparr> restart_env restart_world
      = Ret (Some \<lparr>l_tracked = None, l_next = None, l_streak = 0\<rparr>) w4"
    by (simp add: on_restart_def Let_def cfg bind_eq log [simplified] stop hup w4(1) schedule_liveness_def)
  then show ?thesis using w4 w3 by (auto simp: demo_running_def)
qed

section \<open>A code left behind\<close>

definition held :: "i32 \<Rightarrow> i32 \<Rightarrow> world \<Rightarrow> bool" where
  "held pid code w = (om_get (w_exits w) pid = Some code)"

lemma held_take: "stable e (held pid code) \<Longrightarrow> hoare e (held pid code) (take_exit pid) (\<lambda>r _. r = Some code)"
  unfolding take_exit_def by (rule hoare_atomic) (simp_all add: held_def exits_take_def)

lemma held_wait_take:
  assumes "stable e (held pid code)"
  shows "hoare e (held pid code) (wait_take pid d) (\<lambda>r _. r = Some code)"
  unfolding wait_take_def
proof (intro hoare_bind [OF hoare_deadline [OF assms]] hoare_bind [OF hoare_reads [OF assms, where Q = "\<lambda>_. held pid code"]])
  show "hoare e (held pid code) (wait_take_loop pid deadline) (\<lambda>r _. r = Some code)" for deadline
    by (simp add: hoare_def wait_take_loop.simps held_def exits_take_def)
qed

lemma held_early_exit:
  assumes "stable e (held pid code)"
  shows "hoare e (held pid code) (early_exit_loop pid deadline) (\<lambda>r w. r = Some code \<or> r = None \<and> held pid code w)"
proof -
  have "take_exit pid e v = Ret (Some code) (v'\<lparr>w_exits := m\<rparr>)" if "held pid code v" "v' = others e v" "m = om_remove pid (w_exits v')" for v v' m
    using stableD [OF assms that(1)] that(2,3) by (simp add: take_exit_def atomic_simp held_def exits_take_def)
  then show ?thesis
    using stableD [OF assms] by (auto simp: hoare_def early_exit_loop.simps [of pid deadline e] Let_def split: outcome.splits)
qed

text \<open>
  The registry keeps the codes of processes nobody waits for, such as the orphans PID 1 reaps. If the pid of a new process is
  one of them, the code left behind is taken for the end of the new process: the daemon that was just
  spawned is reported as exited and never tracked, although it runs.
\<close>

theorem stale_exit_taken_for_new_process:
  assumes "stable e (held pid code)"
  shows "hoare e (held pid code) (settle_daemon cfg pid None)
    (\<lambda>(r, tracked) w. tracked = None
      \<and> r = (if sc_start_wait_secs cfg = 0 \<and> is_success cfg code then Inr ()
             else Inl (ErrService (sc_name cfg)
               (if sc_start_wait_secs cfg > 0 then ''exited during startWaitSecs (code '' @ int_str code @ '')''
                else ''exited with code '' @ int_str code))))"
proof -
  have early: "hoare e (\<lambda>w. r = Some code \<or> r = None \<and> held pid code w) (case r of Some c \<Rightarrow> ret (Some c) | None \<Rightarrow> take_exit pid)
      (\<lambda>x _. x = Some code)" for r
    using held_take [OF assms] by (cases r) (auto simp: hoare_def)
  show ?thesis
    unfolding settle_daemon_def Let_def
    by (rule hoare_bind [OF hoare_deadline [OF assms]], rule hoare_bind [OF held_early_exit [OF assms]], rule hoare_bind [OF early])
      (auto simp: hoare_def bind_def split: outcome.split option.split)
qed

theorem stale_exit_taken_for_new_process_witness:
  "hoare demo_env (held 42 1) (settle_daemon demo_service 42 None)
    (\<lambda>(r, tracked) w. tracked = None \<and> r = Inl (ErrService ''web'' ''exited with code 1''))
    \<and> held 42 1 (demo_run_world\<lparr>w_exits := [(42, 1)]\<rparr>)"
proof -
  have "stable demo_env (held 42 1)" by (simp add: stable_def demo_others held_def)
  moreover have "int_str 1 = ''1''" by code_simp
  ultimately show ?thesis
    using stale_exit_taken_for_new_process [of demo_env 42 1 demo_service]
    by (simp add: demo_service_def default_service_config_def is_success_def held_def)
qed

end
