(* ===== verification/Operations.thy ===== *)
theory Operations
  imports Monitor_Edges
begin

text \<open>
  What the operations of \<open>Supervisor\<close> (\<open>src/src/supervisor.rs\<close>) achieve: the initial state, the invariant of the shared
  state under any interleaving that keeps it, the separation of the monitors, the effect of a reload on the
  services, and the agreement of configuration, override file and runtime record after enabling or disabling.
\<close>

section \<open>The initial state\<close>

text \<open>\<open>Supervisor::new\<close>; the remaining arguments are the process-wide exit registry, env cache, files and clock.\<close>

definition sup_new :: "config \<Rightarrow> log_hub \<Rightarrow> bool \<Rightarrow> path \<Rightarrow> exits \<Rightarrow> env_map \<Rightarrow> files \<Rightarrow> millis \<Rightarrow> int \<Rightarrow> world" where
  "sup_new cfg hub mirrors override_path exits cache fs now utc =
     \<lparr>w_tick = 0, w_now = now, w_utc = utc, w_config = cfg,
      w_runtimes = om_of_list (map (\<lambda>s. (sc_name s, new_runtime (sc_enabled s))) (cfg_services cfg)),
      w_stop_all = False, w_ctl = [], w_queues = [], w_next_chan = 0, w_exits = exits, w_hub = hub,
      w_con_out = [], w_con_mirrors = mirrors, w_watch = watch_new, w_env_cache = cache, w_files = fs,
      w_override_path = override_path, w_signals = [], w_spawned = []\<rparr>"

lemma rts_ok_of_list: "rts_ok (om_of_list (map (\<lambda>s. (sc_name s, new_runtime (sc_enabled s))) ss))"
proof -
  have "rt_ok rt" if "map_of (rev (map (\<lambda>s. (sc_name s, new_runtime (sc_enabled s))) ss)) n = Some rt" for n rt
    using map_of_SomeD [OF that] new_runtime_ok by auto
  then show ?thesis by (simp add: rts_ok_def om_get_of_list)
qed

lemma sup_new_ok: "hub_ok hub \<Longrightarrow> exits_ok exits \<Longrightarrow> sup_ok (sup_new cfg hub mirrors p exits cache fs now utc)"
  by (simp add: sup_ok_def sup_new_def rts_ok_of_list watch_new_ok channels_ok_def)

section \<open>Reload\<close>

text \<open>The configuration, the services with a control channel and those with a record.\<close>

definition laid :: "config \<Rightarrow> string set \<Rightarrow> string set \<Rightarrow> world \<Rightarrow> bool" where
  "laid cfg N M w = (w_config w = cfg \<and> om_wf (w_ctl w) \<and> om_wf (w_runtimes w)
     \<and> set (om_keys (w_ctl w)) = N \<and> set (om_keys (w_runtimes w)) = M)"

definition sole_reloader :: "env \<Rightarrow> bool" where
  "sole_reloader e = (\<forall>cfg N M. stable e (laid cfg N M))"

lemma sole_reloaderD: "sole_reloader e \<Longrightarrow> stable e (laid cfg N M)"
  by (simp add: sole_reloader_def)

interpretation laid: control_inv "laid cfg N M" for cfg N M
  by unfold_locales (auto simp: laid_def inert_def timeless_def exit_free_def)

lemma laid_put_state: "laid cfg N M w \<Longrightarrow> laid cfg N M (put_state name st pid w)"
  by (simp add: laid_def put_state_def set_state_def del: set_map)
    (simp add: update_runtime_def split: option.split)

lemma laid_set_enabled: "laid cfg N M w \<Longrightarrow> laid cfg N M (w\<lparr>w_runtimes := fst (set_enabled_flag name b (w_runtimes w))\<rparr>)"
  by (auto simp: laid_def set_enabled_flag_def insert_absorb split: option.split dest!: map_of_SomeD intro: rev_image_eqI)

lemma laid_apply_enabled: "sole_reloader e \<Longrightarrow> keeps e (laid cfg N M) (apply_enabled name b)"
  unfolding apply_enabled_def
  by (intro laid.keeps_shared keeps_atomic keeps_writes sole_reloaderD laid_put_state)
    (auto simp: split_beta Let_def laid_set_enabled)

lemma om_get_None_keys: "om_get m k = None \<longleftrightarrow> k \<notin> set (om_keys m)"
  by (simp add: map_of_eq_None_iff)

lemma laid_remove:
  assumes s: "sole_reloader e"
  shows "hoare e (laid cfg N M) (remove_service name) (\<lambda>_. laid cfg (N - {name}) (M - {name}))"
proof -
  have ctl: "hoare e (laid cfg N M) (writes (\<lambda>e w. case om_get (w_ctl w) name of None \<Rightarrow> w
        | Some ch \<Rightarrow> let q = w_queues w in w\<lparr>w_ctl := om_remove name (w_ctl w),
            w_queues := (case om_get q ch of Some ms \<Rightarrow> om_insert ch (ms @ [CtlQuit]) q | None \<Rightarrow> q)\<rparr>))
      (\<lambda>_. laid cfg (N - {name}) M)"
    by (rule hoare_writes [OF sole_reloaderD [OF s]])
      (auto simp: laid_def Let_def set_keys_remove om_get_None_keys simp del: set_map split: option.split)
  have rts: "hoare e (laid cfg (N - {name}) M) (writes (\<lambda>e w. w\<lparr>w_runtimes := om_remove name (w_runtimes w)\<rparr>))
      (\<lambda>_. laid cfg (N - {name}) (M - {name}))"
    by (rule hoare_writes [OF sole_reloaderD [OF s]]) (simp add: laid_def set_keys_remove del: set_map)
  show ?thesis
    unfolding remove_service_def
    by (intro seq_keep [OF laid.keeps_log_init [OF sole_reloaderD [OF s]]] seq_keep [OF laid.keeps_send_ctl [OF sole_reloaderD [OF s]]]
        seq_keep [OF laid.keeps_sleep [OF sole_reloaderD [OF s]]] hoare_bind [OF ctl] rts)
qed

lemma laid_remove_all:
  assumes s: "sole_reloader e"
  shows "hoare e (laid cfg N M) (for_each remove_service ns) (\<lambda>_. laid cfg (N - set ns) (M - set ns))"
proof (induction ns arbitrary: N M)
  case (Cons n ns)
  have "A - set (n # ns) = A - {n} - set ns" for A by auto
  then show ?case
    unfolding for_each.simps using hoare_bind [OF laid_remove [OF s, of cfg N M n] Cons [of "N - {n}" "M - {n}"]] by metis
qed (simp add: hoare_def)

lemma laid_spawn_monitor:
  assumes "sole_reloader e"
  shows "hoare e (laid cfg N M) (spawn_monitor name) (\<lambda>_. laid cfg (insert name N) M)"
  unfolding spawn_monitor_def Let_def
  by (rule hoare_atomic [OF sole_reloaderD [OF assms]]) (auto simp: laid_def split: option.split)

lemma laid_reload_service:
  assumes s: "sole_reloader e"
  shows "hoare e (laid cfg N M) (reload_service old svc)
    (\<lambda>_. laid cfg (N \<union> ({sc_name svc} - set (map sc_name (cfg_services old)))) (M \<union> ({sc_name svc} - set (map sc_name (cfg_services old)))))"
proof (cases "sc_name svc \<in> set (map sc_name (cfg_services old))")
  case True
  have "keeps e (laid cfg N M) (reload_service old svc)"
    unfolding reload_service_def Let_def
    using True by (simp only: not_True_eq_False if_False simp_thms)
      (intro laid.keeps_shared laid.keeps_send_ctl laid_apply_enabled sole_reloaderD s)
  then show ?thesis using True by (simp add: insert_Diff_if del: set_map)
next
  case False
  let ?n = "sc_name svc"
  have add: "hoare e (laid cfg N M) (writes (\<lambda>e w. w\<lparr>w_runtimes := om_insert ?n (new_runtime (sc_enabled svc)) (w_runtimes w)\<rparr>))
      (\<lambda>_. laid cfg N (insert ?n M))"
    by (rule hoare_writes [OF sole_reloaderD [OF s]]) (simp add: laid_def)
  have "hoare e (laid cfg N M) (reload_service old svc) (\<lambda>_. laid cfg (insert ?n N) (insert ?n M))"
    unfolding reload_service_def Let_def
    using False by (simp only: not_False_eq_True if_True)
      (intro seq_keep [OF laid.keeps_log_init [OF sole_reloaderD [OF s]]] hoare_bind [OF add] hoare_bind [OF laid_spawn_monitor [OF s]]
        laid.keeps_shared laid.keeps_send_ctl sole_reloaderD s)
  then show ?thesis using False by (simp add: insert_Diff_if del: set_map)
qed

lemma laid_reload_services:
  assumes s: "sole_reloader e"
  shows "hoare e (laid cfg N M) (reload_services old ss) (\<lambda>r w. r = Inr () \<longrightarrow>
    laid cfg (N \<union> (sc_name ` set ss - set (map sc_name (cfg_services old)))) (M \<union> (sc_name ` set ss - set (map sc_name (cfg_services old)))) w)"
proof (induction ss arbitrary: N M)
  case (Cons svc ss)
  let ?o = "set (map sc_name (cfg_services old))"
  have eq: "A \<union> ({sc_name svc} - ?o) \<union> (sc_name ` set ss - ?o) = A \<union> (sc_name ` set (svc # ss) - ?o)" for A by auto
  show ?case
    unfolding reload_services.simps
  proof (rule hoare_bind [OF laid_reload_service [OF s]])
    fix r :: "unit res"
    show "hoare e (laid cfg (N \<union> ({sc_name svc} - ?o)) (M \<union> ({sc_name svc} - ?o)))
        (case r of Inl err \<Rightarrow> ret (Inl err) | Inr _ \<Rightarrow> reload_services old ss)
        (\<lambda>r w. r = Inr () \<longrightarrow> laid cfg (N \<union> (sc_name ` set (svc # ss) - ?o)) (M \<union> (sc_name ` set (svc # ss) - ?o)) w)"
      using Cons [of "N \<union> ({sc_name svc} - ?o)" "M \<union> ({sc_name svc} - ?o)"]
      unfolding eq by (cases r) (simp_all add: hoare_ret)
  qed
qed (simp add: hoare_def)

lemma laid_reload:
  assumes s: "sole_reloader e" and ho: "\<And>xs. set (e_ho e xs) = set xs"
  shows "hoare e (laid old (names_of (cfg_services old)) (names_of (cfg_services old))) (reload new_cfg) (\<lambda>r w. r = Inr () \<longrightarrow>
    laid (new_cfg\<lparr>cfg_socket := cfg_socket old, cfg_logs := cfg_logs old, cfg_console := cfg_console old\<rparr>)
      (names_of (cfg_services new_cfg)) (names_of (cfg_services new_cfg)) w)"
proof -
  let ?o = "names_of (cfg_services old)" and ?n = "names_of (cfg_services new_cfg)"
  let ?applied = "new_cfg\<lparr>cfg_socket := cfg_socket old, cfg_logs := cfg_logs old, cfg_console := cfg_console old\<rparr>"
  let ?gone = "filter (\<lambda>n. n \<notin> ?n) (remdups (map sc_name (cfg_services old)))"
  note st = sole_reloaderD [OF s]
  have "?o - set (e_ho e ?gone) = ?o \<inter> ?n" using ho [of ?gone] by auto
  then have rm: "hoare e (laid old ?o ?o) (\<lambda>e. for_each remove_service (e_ho e ?gone) e) (\<lambda>_. laid old (?o \<inter> ?n) (?o \<inter> ?n))"
    using laid_remove_all [OF s, of old ?o ?o "e_ho e ?gone"] by (simp add: hoare_def del: set_map)
  have conf: "hoare e (laid old N M) (writes (\<lambda>e w. w\<lparr>w_config := ?applied\<rparr>)) (\<lambda>_. laid ?applied N M)" for N M
    by (rule hoare_writes [OF st]) (simp add: laid_def)
  have "?o \<inter> ?n \<union> (sc_name ` set (cfg_services ?applied) - ?o) = ?n" by auto
  then have svcs: "hoare e (laid ?applied (?o \<inter> ?n) (?o \<inter> ?n)) (reload_services old (cfg_services ?applied))
      (\<lambda>r w. r = Inr () \<longrightarrow> laid ?applied ?n ?n w)"
    using laid_reload_services [OF s, of ?applied "?o \<inter> ?n" "?o \<inter> ?n" old "cfg_services ?applied"] by simp
  have rest: "hoare e (\<lambda>w. r = Inr () \<longrightarrow> laid ?applied ?n ?n w) (case r of Inl err \<Rightarrow> ret (Inl err)
      | Inr _ \<Rightarrow> bind (log_init LvInfo ''configuration reloaded'') (\<lambda>_. bind notify_watchers (\<lambda>_. ret (Inr ()))))
      (\<lambda>r w. r = Inr () \<longrightarrow> laid ?applied ?n ?n w)" for r
  proof (cases r)
    case (Inr u)
    have "keeps e (laid ?applied ?n ?n) (bind (log_init LvInfo ''configuration reloaded'') (\<lambda>_. bind notify_watchers (\<lambda>_. ret (Inr ()))))"
      by (intro laid.keeps_shared st)
    then show ?thesis using Inr by (auto simp: hoare_def split: outcome.splits)
  qed (simp add: hoare_def)
  show ?thesis
    unfolding reload_def Let_def
    by (rule seq_read [OF st, where B = "\<lambda>x. x = old"], simp add: laid_def, hypsubst,
        intro seq_keep [OF laid.keeps_warn_if [OF st]] hoare_bind [OF rm] hoare_bind [OF conf] hoare_bind [OF svcs] rest)
qed

section \<open>Enabling and disabling\<close>

text \<open>The flag of a service in the configuration, the text of the override file and the flag in the record.\<close>

definition told :: "string \<Rightarrow> path \<Rightarrow> bool option \<Rightarrow> string option \<Rightarrow> bool option \<Rightarrow> world \<Rightarrow> bool" where
  "told name p cv fv rv w =
     (map_option sc_enabled (get (w_config w) name) = cv \<and> om_get (w_files w) p = fv
      \<and> map_option rt_enabled (om_get (w_runtimes w) name) = rv \<and> om_wf (w_files w) \<and> w_override_path w = p)"

interpretation told: control_inv "told name p cv fv rv" for name p cv fv rv
  by unfold_locales (auto simp: told_def inert_def timeless_def exit_free_def)

lemma told_config:
  assumes "stable e (told name p cv fv rv)"
  shows "hoare e (told name p cv fv rv) (config_set_enabled name b)
    (\<lambda>r. case r of Inr _ \<Rightarrow> told name p (Some b) fv rv | Inl _ \<Rightarrow> told name p cv fv rv)"
  unfolding config_set_enabled_def
  by (rule hoare_atomic [OF assms]) (auto simp: told_def get_update_service split: option.split)

lemma told_write:
  assumes s: "stable e (told name p cv fv rv)" and p: "p \<noteq> with_extension p ''json.tmp''"
  shows "hoare e (told name p cv fv rv) (write_override m) (\<lambda>r.
    told name p cv (case r of Inr _ \<Rightarrow> Some (enc_override (e_json e) m @ [NL]) | Inl _ \<Rightarrow> fv) rv)"
  unfolding write_override_def
proof (rule hoare_atomic [OF s])
  fix w
  assume w: "told name p cv fv rv w"
  define out where "out = write_json_atomic (e_fault e (w_tick w)) p (enc_override (e_json e) m) (w_files w)"
  have "om_get (fst out) p = (case snd out of Inr _ \<Rightarrow> Some (enc_override (e_json e) m @ [NL]) | Inl _ \<Rightarrow> fv)" "om_wf (fst out)"
    using w write_json_atomic_target [OF _ p, of "w_files w"] write_json_atomic_wf [of "w_files w"]
    by (simp_all add: told_def out_def split: sum.split)
  then show "told name p cv (case fst (let (fs, r) = save_override (e_json e) (e_fault e (w_tick w)) (w_override_path w) m (w_files w)
        in (r, w\<lparr>w_files := fs\<rparr>)) of Inr _ \<Rightarrow> Some (enc_override (e_json e) m @ [NL]) | Inl _ \<Rightarrow> fv) rv
      (snd (let (fs, r) = save_override (e_json e) (e_fault e (w_tick w)) (w_override_path w) m (w_files w)
        in (r, w\<lparr>w_files := fs\<rparr>)))"
    using w by (simp add: told_def save_override_def split_beta Let_def out_def [symmetric])
qed

definition rewritten :: "env \<Rightarrow> string \<Rightarrow> bool \<Rightarrow> string option \<Rightarrow> unit res \<Rightarrow> string option \<Rightarrow> bool" where
  "rewritten e name b fv r fv' =
     (case r of Inr _ \<Rightarrow> \<exists>m. fv' = Some (enc_override (e_json e) (om_insert name b m) @ [NL]) | Inl _ \<Rightarrow> fv' = fv)"

lemma told_store:
  assumes s: "\<And>fv. stable e (told name p cv fv rv)" and p: "p \<noteq> with_extension p ''json.tmp''"
  shows "hoare e (told name p cv fv rv) (store_override name b) (\<lambda>r w. \<exists>fv'. told name p cv fv' rv w \<and> rewritten e name b fv r fv')"
  unfolding store_override_def
proof (rule seq_keep [OF keeps_asks [OF s]])
  fix ov :: "(string, bool) omap res"
  have "hoare e (told name p cv fv rv) (write_override (om_insert name b m))
      (\<lambda>r w. \<exists>fv'. told name p cv fv' rv w \<and> rewritten e name b fv r fv')" for m
    by (rule hoare_weaken [OF told_write [OF s p]], rule exI, rule conjI, assumption) (auto simp: rewritten_def split: sum.split)
  then show "hoare e (told name p cv fv rv) (case ov of Inl err \<Rightarrow> ret (Inl err) | Inr m \<Rightarrow> write_override (om_insert name b m))
      (\<lambda>r w. \<exists>fv'. told name p cv fv' rv w \<and> rewritten e name b fv r fv')"
    by (cases ov) (auto simp: rewritten_def hoare_ret)
qed

lemma told_apply_enabled:
  assumes s: "\<And>rv. stable e (told name p cv fv rv)"
  shows "hoare e (told name p cv fv (Some rv)) (apply_enabled name b) (\<lambda>_. told name p cv fv (Some b))"
proof -
  have flag: "hoare e (told name p cv fv (Some rv)) (atomic (\<lambda>e w. let (m, st) = set_enabled_flag name b (w_runtimes w)
      in (st, w\<lparr>w_runtimes := m\<rparr>))) (\<lambda>_. told name p cv fv (Some b))"
    by (rule hoare_atomic [OF s]) (auto simp: told_def set_enabled_flag_def)
  have put: "told name p cv fv r (put_state n st pid w) = told name p cv fv r w" for r n st pid w
    by (auto simp: told_def put_state_def set_state_def map_simps frame_simps option.map_comp comp_def)
  show ?thesis
    unfolding apply_enabled_def
    by (rule hoare_bind [OF flag], intro told.keeps_shared keeps_writes s) (simp add: put)
qed

lemma told_set_enabled:
  assumes s: "\<And>cv fv rv. stable e (told name p cv fv rv)" and p: "p \<noteq> with_extension p ''json.tmp''"
  shows "hoare e (told name p cv fv (Some rv)) (sup_set_enabled name b) (\<lambda>r w. r = Inr () \<longrightarrow>
    (\<exists>m. told name p (Some b) (Some (enc_override (e_json e) (om_insert name b m) @ [NL])) (Some b) w))"
proof -
  have tail: "hoare e (told name p (Some b) fv' (Some rv)) (bind (log_init LvInfo msg) (\<lambda>_.
      bind (apply_enabled name b) (\<lambda>_. send_ctl name (if b then CtlStart False else CtlStop))))
      (\<lambda>_. told name p (Some b) fv' (Some b))" for fv' msg
    by (intro seq_keep [OF told.keeps_log_init [OF s]] hoare_bind [OF told_apply_enabled [OF s]] told.keeps_send_ctl s)
  let ?Q = "\<lambda>r w. r = Inr () \<longrightarrow> (\<exists>m. told name p (Some b) (Some (enc_override (e_json e) (om_insert name b m) @ [NL])) (Some b) w)"
  let ?tail = "\<lambda>msg. bind (log_init LvInfo msg) (\<lambda>_. bind (apply_enabled name b) (\<lambda>_. send_ctl name (if b then CtlStart False else CtlStop)))"
  have stored: "hoare e (\<lambda>w. \<exists>fv'. told name p (Some b) fv' (Some rv) w \<and> rewritten e name b fv r fv')
      (case r of Inl err \<Rightarrow> ret (Inl err) | Inr _ \<Rightarrow> ?tail msg) ?Q" for r :: "unit res" and msg
  proof (cases r)
    case (Inr u)
    have "hoare e (told name p (Some b) (Some (enc_override (e_json e) (om_insert name b m) @ [NL])) (Some rv)) (?tail msg) ?Q" for m
      by (rule hoare_weaken [OF tail]) blast
    then show ?thesis using Inr by (auto simp: hoare_def rewritten_def)
  qed (simp add: hoare_ret)
  show ?thesis
    unfolding sup_set_enabled_def
  proof (rule hoare_bind [OF told_config [OF s]])
    fix r :: "unit res"
    have "hoare e (told name p (Some b) fv (Some rv)) (bind (store_override name b) (\<lambda>r. case r of Inl err \<Rightarrow> ret (Inl err) | Inr _ \<Rightarrow> ?tail msg)) ?Q" for msg
      by (rule hoare_bind [OF told_store [OF s p] stored])
    then show "hoare e ((case r of Inr _ \<Rightarrow> told name p (Some b) fv (Some rv) | Inl _ \<Rightarrow> told name p cv fv (Some rv)))
      (case r of Inl err \<Rightarrow> ret (Inl err) | Inr _ \<Rightarrow> bind (store_override name b) (\<lambda>r. case r of Inl err \<Rightarrow> ret (Inl err)
         | Inr _ \<Rightarrow> ?tail (''request: '' @ (if b then ''enable'' else ''disable'') @ '' '' @ name))) ?Q"
      by (cases r) (simp_all only: sum.case, rule hoare_ret, simp)
  qed
qed

section \<open>Properties\<close>

text \<open>
  C2: the invariant of the shared state (well-formed records with their event chains, bounded rings and registries, one
  channel per service) holds initially and is kept by every operation of the supervisor and by any number of turns of
  a monitor, as long as the other threads keep it between the critical sections, which is what this theorem says
  of each of them.
\<close>

theorem threads_keep_invariant:
  assumes "stable e sup_ok" "hub_ok hub" "exits_ok exits"
  shows "sup_ok (sup_new cfg hub mirrors p exits cache fs now utc)
    \<and> keeps e sup_ok (monitor_loop n name ch l) \<and> keeps e sup_ok boot \<and> keeps e sup_ok (reload new_cfg)
    \<and> keeps e sup_ok (start_service name force) \<and> keeps e sup_ok (stop_service name) \<and> keeps e sup_ok (restart_service name)
    \<and> keeps e sup_ok (sup_set_enabled name enabled) \<and> keeps e sup_ok (watch_subscribe ks) \<and> keeps e sup_ok stop_all_ordered"
  by (intro conjI sup_new_ok mon.keeps_monitor_loop keeps_boot keeps_reload sup.keeps_start_service sup.keeps_stop_service
      sup.keeps_restart_service keeps_sup_set_enabled keeps_watch_subscribe keeps_stop_all_ordered assms)

text \<open>Another thread that reports a state of a service at every chance.\<close>

definition busy_env :: env where
  "busy_env = demo_env\<lparr>e_other := (\<lambda>k. put_state ''db'' (if even k then Failed else Stopped) None)\<rparr>"

theorem threads_keep_invariant_witness:
  "sup_ok (sup_new demo_config (hub_new 10 True True None) True ''/o'' [] [] [] 0 0)
   \<and> keeps busy_env sup_ok (monitor_loop 9 ''web'' 0 initial_locals) \<and> keeps busy_env sup_ok (reload demo_config)"
proof -
  have "sup_ok (others busy_env w)" if "sup_ok w" for w
  proof -
    have "sup_ok (put_state ''db'' st None w)" for st using that by (rule sup_ok_put_state) simp
    then show ?thesis by (simp add: others_def busy_env_def Let_def sup_ok_def channels_ok_def)
  qed
  then have s: "stable busy_env sup_ok" by (simp add: stable_def)
  have x: "exits_ok []" by (simp add: exits_ok_def)
  note kept = threads_keep_invariant [OF s hub_new_ok x]
  show ?thesis using kept [THEN conjunct1] kept [THEN conjunct2, THEN conjunct1]
      kept [THEN conjunct2, THEN conjunct2, THEN conjunct2, THEN conjunct1] by (intro conjI)
qed

text \<open>
  C30: a monitor touches the record of its own service only: the configuration, the control channels, the set of records, the
  shutdown flag and the record of every other service are what the others made of them.
\<close>

theorem monitors_are_separate:
  assumes "\<And>x. stable e (\<lambda>w. layout w = x)" "stable e (\<lambda>w. name \<noteq> other \<and> om_get (w_runtimes w) other = r)"
  shows "hoare e (\<lambda>w. layout w = x) (monitor_loop n name ch l) (\<lambda>_ w. layout w = x)
    \<and> hoare e (\<lambda>w. name \<noteq> other \<and> om_get (w_runtimes w) other = r) (monitor_loop n name ch l)
        (\<lambda>_ w. name \<noteq> other \<and> om_get (w_runtimes w) other = r)"
  using lay.keeps_monitor_loop [OF assms(1)] apart.keeps_monitor_loop [OF assms(2)] by blast

theorem monitors_are_separate_witness:
  "hoare demo_env (\<lambda>w. layout w = layout demo_run_world) (monitor_loop 9 ''web'' 0 initial_locals)
     (\<lambda>_ w. layout w = layout demo_run_world)"
proof -
  have "stable demo_env (\<lambda>w. layout w = x)" "stable demo_env (\<lambda>w. ''web'' \<noteq> ''db'' \<and> om_get (w_runtimes w) ''db'' = None)" for x
    by (simp_all add: stable_def demo_others layout_def)
  from monitors_are_separate [OF this] show ?thesis by blast
qed

text \<open>
  C18: a reload that reports success leaves the supervisor with the new configuration except for socket, log and
  console settings, and with exactly one control channel and one record for each service of it, when it was in
  step with the old configuration and nobody else reloads.
\<close>

theorem reload_brings_in_step:
  assumes "sole_reloader e" "\<And>xs. set (e_ho e xs) = set xs" "reload new_cfg e w = Ret (Inr ()) w'"
    and "laid old (names_of (cfg_services old)) (names_of (cfg_services old)) w"
  shows "laid (new_cfg\<lparr>cfg_socket := cfg_socket old, cfg_logs := cfg_logs old, cfg_console := cfg_console old\<rparr>)
    (names_of (cfg_services new_cfg)) (names_of (cfg_services new_cfg)) w'"
  using hoareD [OF laid_reload [OF assms(1,2)] assms(4,3)] by blast

definition demo_new_config :: config where
  "demo_new_config = demo_config\<lparr>cfg_services := [demo_service]\<rparr>"

lemma demo_reload: "\<exists>w'. reload demo_new_config demo_env (demo_world (demo_new_config\<lparr>cfg_services := []\<rparr>)) = Ret (Inr ()) w'"
proof -
  have "e_ho demo_env = id" "e_thread demo_env n s = None" for n s by (simp_all add: demo_env_def)
  moreover have "sc_enabled demo_service" by (simp add: demo_service_def default_service_config_def)
  ultimately show ?thesis
    by (simp add: reload_def warn_if_def demo_world_def demo_others demo_new_config_def log_init_def reload_service_def
        spawn_monitor_def atomic_simp send_ctl_def bind_eq notify_watchers_def follower_count_def watch_new_def om_of_list_def Let_def)
qed

theorem reload_brings_in_step_witness:
  "\<exists>w'. reload demo_new_config demo_env (demo_world (demo_new_config\<lparr>cfg_services := []\<rparr>)) = Ret (Inr ()) w'
    \<and> laid demo_new_config {''web''} {''web''} w'"
proof -
  have s: "sole_reloader demo_env" by (simp add: sole_reloader_def stable_def demo_others laid_def)
  have ho: "set (e_ho demo_env xs) = set xs" for xs by (simp add: demo_env_def)
  obtain w' where run: "reload demo_new_config demo_env (demo_world (demo_new_config\<lparr>cfg_services := []\<rparr>)) = Ret (Inr ()) w'"
    using demo_reload by blast
  have old: "laid (demo_new_config\<lparr>cfg_services := []\<rparr>) {} {} (demo_world (demo_new_config\<lparr>cfg_services := []\<rparr>))"
    by (simp add: laid_def demo_world_def om_of_list_def)
  have "laid demo_new_config {''web''} {''web''} w'"
    using reload_brings_in_step [OF s ho run, of "demo_new_config\<lparr>cfg_services := []\<rparr>"] old
    by (simp add: demo_new_config_def)
  then show ?thesis using run by blast
qed

text \<open>
  C20: when enabling or disabling a service reports success, the configuration in memory, the runtime record and the
  override file on disk all have the new flag, so the choice survives a reload and a reboot.
\<close>

theorem enabled_flag_agrees:
  assumes "\<And>cv fv rv. stable e (told name p cv fv rv)" "p \<noteq> with_extension p ''json.tmp''"
    and "\<And>m. dec_override (e_json e) (enc_override (e_json e) m @ [NL]) = Inr m"
    and "told name p cv fv (Some rv) w" "sup_set_enabled name b e w = Ret (Inr ()) w'"
  shows "map_option sc_enabled (get (w_config w') name) = Some b
    \<and> map_option rt_enabled (om_get (w_runtimes w') name) = Some b
    \<and> (\<exists>m. load_override (e_json e) (\<lambda>_ _. None) (w_files w') p = Inr m \<and> om_get m name = Some b)"
proof -
  obtain m where "told name p (Some b) (Some (enc_override (e_json e) (om_insert name b m) @ [NL])) (Some b) w'"
    using hoareD [OF told_set_enabled [OF assms(1,2)] assms(4,5)] by blast
  then show ?thesis
    using assms(3) by (simp add: told_def load_override_def om_contains_def fs_read_def)
qed

text \<open>A codec of override maps with the property that is assumed of the JSON one.\<close>

definition enc_entry :: "string \<times> bool \<Rightarrow> string" where
  "enc_entry kb = (if snd kb then CHR ''1'' else CHR ''0'') # replicate (length (fst kb)) CHR ''x'' @ CHR '','' # fst kb"

function dec_entries :: "string \<Rightarrow> (string \<times> bool) list" where
  "dec_entries s =
     (case s of
        [] \<Rightarrow> []
      | c # r \<Rightarrow>
          if c = NL then []
          else let n = length (takeWhile ((=) CHR ''x'') r); t = drop (Suc n) r
               in (take n t, c = CHR ''1'') # dec_entries (drop n t))"
  by pat_completeness auto
termination by (relation "measure length") auto

declare dec_entries.simps [simp del]

lemma takeWhile_replicate: "y \<noteq> x \<Longrightarrow> takeWhile ((=) x) (replicate n x @ y # ys) = replicate n x"
  by (induction n) auto

lemma dec_enc_entries: "dec_entries (concat (map enc_entry m) @ [NL]) = m"
proof (induction m)
  case Nil
  then show ?case by (simp add: dec_entries.simps)
next
  case (Cons kb m)
  have "CHR ''1'' \<noteq> NL" "CHR ''0'' \<noteq> NL" by code_simp+
  then show ?case
    using Cons by (cases kb) (simp add: dec_entries.simps [of "_ # _"] enc_entry_def takeWhile_replicate Let_def)
qed

definition codec_env :: env where
  "codec_env = demo_env\<lparr>e_json := demo_json\<lparr>enc_override := (\<lambda>m. concat (map enc_entry m)), dec_override := (\<lambda>s. Inr (dec_entries s))\<rparr>\<rparr>"

lemma codec_others: "others codec_env w = w\<lparr>w_tick := Suc (w_tick w)\<rparr>"
  by (simp add: others_def codec_env_def demo_env_def)

definition demo_override_world :: world where
  "demo_override_world = demo_run_world\<lparr>w_override_path := ''/d/o.json''\<rparr>"

lemma demo_save: "save_override j (\<lambda>_ _. None) ''/d/o.json'' m [] = (om_insert ''/d/o.json'' (enc_override j m @ [NL]) [], Inr ())"
proof -
  have "with_extension ''/d/o.json'' ''json.tmp'' = ''/d/o.json.tmp''" by code_simp
  then show ?thesis
    by (simp add: save_override_def write_json_atomic_def fs_then_def at_path_def fs_mkdir_def fs_write_def fs_rename_def Let_def
        split: option.split)
qed

lemma demo_disable: "\<exists>w'. sup_set_enabled ''web'' False codec_env demo_override_world = Ret (Inr ()) w'"
proof -
  have e: "e_fault codec_env n = (\<lambda>_ _. None)" for n by (simp add: codec_env_def demo_env_def)
  show ?thesis
    by (simp add: sup_set_enabled_def config_set_enabled_def store_override_def write_override_def atomic_simp bind_eq
        codec_others demo_override_world_def demo_run_world_def demo_world_def get_def update_service_def e load_override_def om_contains_def demo_save
        log_init_def apply_enabled_def set_enabled_flag_def notify_watchers_def follower_count_def watch_new_def put_state_def
        set_state_def update_runtime_def send_ctl_def)
qed

theorem enabled_flag_agrees_witness:
  "\<exists>w' m. sup_set_enabled ''web'' False codec_env demo_override_world = Ret (Inr ()) w'
    \<and> map_option rt_enabled (om_get (w_runtimes w') ''web'') = Some False
    \<and> load_override (e_json codec_env) (\<lambda>_ _. None) (w_files w') ''/d/o.json'' = Inr m \<and> om_get m ''web'' = Some False"
proof -
  obtain w' where run: "sup_set_enabled ''web'' False codec_env demo_override_world = Ret (Inr ()) w'"
    using demo_disable by blast
  have s: "stable codec_env (told ''web'' ''/d/o.json'' cv fv rv)" for cv fv rv by (simp add: stable_def codec_others told_def)
  have p: "''/d/o.json'' \<noteq> with_extension ''/d/o.json'' ''json.tmp''" by code_simp
  have w: "told ''web'' ''/d/o.json'' (Some True) None (Some True) demo_override_world"
    by (simp add: told_def demo_override_world_def demo_run_world_def demo_world_def get_def demo_service_def default_service_config_def
        demo_running_def new_runtime_def)
  have j: "dec_override (e_json codec_env) (enc_override (e_json codec_env) m @ [NL]) = Inr m" for m
    by (simp add: codec_env_def dec_enc_entries)
  from enabled_flag_agrees [OF s p j w run] show ?thesis using run by auto
qed

text \<open>
  A failure to read the override file leaves enabling half done: the request reports the error, the configuration
  in memory already has the new flag, the runtime record and the running service do not.
\<close>

definition broken_disk :: env where
  "broken_disk = demo_env\<lparr>e_fault := (\<lambda>_ op _. if op = OpRead then Some ''EIO'' else None)\<rparr>"

theorem set_enabled_fails_halfway:
  "\<exists>w'. sup_set_enabled ''web'' False broken_disk (demo_override_world\<lparr>w_files := [(''/d/o.json'', ''x'')]\<rparr>) = Ret (Inl (ErrIo ''EIO'')) w'
    \<and> map_option sc_enabled (get (w_config w') ''web'') = Some False
    \<and> map_option rt_enabled (om_get (w_runtimes w') ''web'') = Some True"
proof -
  have o: "others broken_disk w = w\<lparr>w_tick := Suc (w_tick w)\<rparr>" for w by (simp add: others_def broken_disk_def demo_env_def)
  have e: "e_fault broken_disk n OpRead q = Some ''EIO''" for n q by (simp add: broken_disk_def)
  show ?thesis
    by (simp add: sup_set_enabled_def config_set_enabled_def store_override_def atomic_simp bind_eq o e
        demo_override_world_def demo_run_world_def demo_world_def get_def update_service_def load_override_def om_contains_def fs_read_def
        demo_running_def new_runtime_def)
qed

text \<open>
  \<open>list\<close> and \<open>status\<close> agree: the list has one row per configured service that has a record, in configuration order, and the
  row of a service is what a status request for it returns.
\<close>

lemma map_filter_names: "map st_name (List.map_filter (\<lambda>s. map_option (\<lambda>rt. make_status (sc_name s) rt (sc_labels s)) (om_get m (sc_name s))) ss)
    = filter (\<lambda>n. om_get m n \<noteq> None) (map sc_name ss)"
  by (induction ss) (auto simp: List.map_filter_simps make_status_def split: option.split)

theorem list_agrees_with_status:
  assumes "distinct (map sc_name (cfg_services (w_config w)))"
  shows "map st_name (list_services w) = filter (\<lambda>n. om_get (w_runtimes w) n \<noteq> None) (map sc_name (cfg_services (w_config w)))
    \<and> (s \<in> set (list_services w) \<longleftrightarrow> st_name s \<in> names_of (cfg_services (w_config w)) \<and> status (st_name s) w = Inr s)"
proof
  show "map st_name (list_services w) = filter (\<lambda>n. om_get (w_runtimes w) n \<noteq> None) (map sc_name (cfg_services (w_config w)))"
    unfolding list_services_def by (rule map_filter_names)
  have row: "status (sc_name svc) w = Inr (make_status (sc_name svc) rt (sc_labels svc))"
    if "svc \<in> set (cfg_services (w_config w))" "om_get (w_runtimes w) (sc_name svc) = Some rt" for svc rt
    using that get_distinct [OF assms, of "sc_name svc" svc] by (simp add: status_def)
  have mem: "s \<in> set (list_services w) \<longleftrightarrow> (\<exists>svc \<in> set (cfg_services (w_config w)). \<exists>rt.
      om_get (w_runtimes w) (sc_name svc) = Some rt \<and> s = make_status (sc_name svc) rt (sc_labels svc))"
    by (force simp: list_services_def List.map_filter_def)
  show "s \<in> set (list_services w) \<longleftrightarrow> st_name s \<in> names_of (cfg_services (w_config w)) \<and> status (st_name s) w = Inr s"
  proof
    assume "s \<in> set (list_services w)"
    then show "st_name s \<in> names_of (cfg_services (w_config w)) \<and> status (st_name s) w = Inr s"
      using row mem by (auto simp: make_status_def)
  next
    assume st: "st_name s \<in> names_of (cfg_services (w_config w)) \<and> status (st_name s) w = Inr s"
    then obtain svc where svc: "svc \<in> set (cfg_services (w_config w))" "sc_name svc = st_name s" by auto
    then obtain rt where rt: "om_get (w_runtimes w) (sc_name svc) = Some rt" using st by (auto simp: status_def split: option.splits)
    have "s = make_status (sc_name svc) rt (sc_labels svc)" using row [OF svc(1) rt] svc(2) st by simp
    then show "s \<in> set (list_services w)" unfolding mem using svc(1) rt by blast
  qed
qed

theorem list_agrees_with_status_witness:
  "map st_name (list_services demo_run_world) = [''web'']"
  using list_agrees_with_status [of demo_run_world] by (simp add: demo_run_world_def demo_world_def)

end
