(* ===== verification/Version.thy ===== *)
theory Version
  imports Rust_Strings
begin

text \<open>
  Release metadata (\<open>src/src/version.rs\<close>): the search for the section \<open>.microinit.version\<close> in an ELF image, the payload
  in it, and the host name. \<open>usize\<close> has 64 bits; the program is built with overflow checks, so a plain addition
  that overflows aborts, which is the result \<open>Aborts\<close>. The JSON decoder of the payload and the file system are
  arguments.
\<close>

section \<open>UTF-8\<close>

text \<open>
  One step of the decoder of \<open>core::str\<close>: how many bytes the next character has, or how many bytes form
  the next invalid sequence.
\<close>

abbreviation byte_in :: "char \<Rightarrow> nat \<Rightarrow> nat \<Rightarrow> bool" where
  "byte_in c lo hi \<equiv> lo \<le> (of_char c :: nat) \<and> (of_char c :: nat) \<le> hi"

definition is_cont :: "char list \<Rightarrow> bool" where
  "is_cont s = (case s of c # _ \<Rightarrow> byte_in c 0x80 0xBF | [] \<Rightarrow> False)"

definition second_of_3 :: "char \<Rightarrow> char list \<Rightarrow> bool" where
  "second_of_3 b s = (case s of [] \<Rightarrow> False | c # _ \<Rightarrow>
     byte_in b 0xE0 0xE0 \<and> byte_in c 0xA0 0xBF \<or> byte_in b 0xE1 0xEC \<and> byte_in c 0x80 0xBF
     \<or> byte_in b 0xED 0xED \<and> byte_in c 0x80 0x9F \<or> byte_in b 0xEE 0xEF \<and> byte_in c 0x80 0xBF)"

definition second_of_4 :: "char \<Rightarrow> char list \<Rightarrow> bool" where
  "second_of_4 b s = (case s of [] \<Rightarrow> False | c # _ \<Rightarrow>
     byte_in b 0xF0 0xF0 \<and> byte_in c 0x90 0xBF \<or> byte_in b 0xF1 0xF3 \<and> byte_in c 0x80 0xBF
     \<or> byte_in b 0xF4 0xF4 \<and> byte_in c 0x80 0x8F)"

definition utf8_step :: "char \<Rightarrow> char list \<Rightarrow> bool \<times> nat" where
  "utf8_step b s =
     (if byte_in b 0 0x7F then (True, 1)
      else if byte_in b 0xC2 0xDF then (if is_cont s then (True, 2) else (False, 1))
      else if byte_in b 0xE0 0xEF then
        (if \<not> second_of_3 b s then (False, 1) else if is_cont (drop 1 s) then (True, 3) else (False, 2))
      else if byte_in b 0xF0 0xF4 then
        (if \<not> second_of_4 b s then (False, 1) else if \<not> is_cont (drop 1 s) then (False, 2)
         else if is_cont (drop 2 s) then (True, 4) else (False, 3))
      else (False, 1))"

lemma utf8_step_pos: "0 < snd (utf8_step b s)"
  by (simp add: utf8_step_def)

function valid_utf8 :: "string \<Rightarrow> bool" where
  "valid_utf8 [] = True"
| "valid_utf8 (b # s) = (case utf8_step b s of (ok, n) \<Rightarrow> ok \<and> valid_utf8 (drop (n - 1) s))"
  by pat_completeness auto
termination by (relation "measure length") auto

text \<open>\<open>String::from_utf8_lossy\<close>: each invalid sequence becomes U+FFFD.\<close>

function utf8_lossy :: "string \<Rightarrow> string" where
  "utf8_lossy [] = []"
| "utf8_lossy (b # s) = (case utf8_step b s of (ok, n) \<Rightarrow>
     (if ok then take n (b # s) else [CHR 0xEF, CHR 0xBF, CHR 0xBD]) @ utf8_lossy (drop (n - 1) s))"
  by pat_completeness auto
termination by (relation "measure length") auto

lemma utf8_lossy_valid: "valid_utf8 s \<Longrightarrow> utf8_lossy s = s"
proof (induction s rule: valid_utf8.induct)
  case (2 b s)
  obtain ok n where st: "utf8_step b s = (ok, n)" by (cases "utf8_step b s")
  have n: "0 < n" using utf8_step_pos [of b s] st by simp
  have "ok" "utf8_lossy (drop (n - 1) s) = drop (n - 1) s" using 2 st by auto
  then show ?case using st n by (cases n) simp_all
qed simp

section \<open>Reading an image\<close>

datatype 'a scan = Aborts | Missing | Got 'a

definition scan_bind :: "'a scan \<Rightarrow> ('a \<Rightarrow> 'b scan) \<Rightarrow> 'b scan" where
  "scan_bind m f = (case m of Got x \<Rightarrow> f x | Missing \<Rightarrow> Missing | Aborts \<Rightarrow> Aborts)"

definition USIZE :: nat where "USIZE = 2 ^ 64"

text \<open>\<open>a + b\<close>, \<open>a.checked_add(b)?\<close> and \<open>a.checked_mul(b)?\<close>.\<close>

definition plain_add :: "nat \<Rightarrow> nat \<Rightarrow> nat scan" where
  "plain_add a b = (if a + b < USIZE then Got (a + b) else Aborts)"

definition checked_add :: "nat \<Rightarrow> nat \<Rightarrow> nat scan" where
  "checked_add a b = (if a + b < USIZE then Got (a + b) else Missing)"

definition checked_mul :: "nat \<Rightarrow> nat \<Rightarrow> nat scan" where
  "checked_mul a b = (if a * b < USIZE then Got (a * b) else Missing)"

text \<open>\<open>data.get(from..to)?\<close>\<close>

definition slice :: "string \<Rightarrow> nat \<Rightarrow> nat \<Rightarrow> string scan" where
  "slice data from to = (if from \<le> to \<and> to \<le> length data then Got (take (to - from) (drop from data)) else Missing)"

definition bytes_value :: "bool \<Rightarrow> string \<Rightarrow> nat" where
  "bytes_value le bs = foldr (\<lambda>c acc. of_char c + 256 * acc) (if le then bs else rev bs) 0"

definition uint_at :: "nat \<Rightarrow> string \<Rightarrow> nat \<Rightarrow> bool \<Rightarrow> nat scan" where
  "uint_at width data off le =
     scan_bind (plain_add off width) (\<lambda>end_off. scan_bind (slice data off end_off) (\<lambda>b. Got (bytes_value le b)))"

definition u16_at :: "string \<Rightarrow> nat \<Rightarrow> bool \<Rightarrow> nat scan" where "u16_at = uint_at 2"
definition u32_at :: "string \<Rightarrow> nat \<Rightarrow> bool \<Rightarrow> nat scan" where "u32_at = uint_at 4"
definition u64_at :: "string \<Rightarrow> nat \<Rightarrow> bool \<Rightarrow> nat scan" where "u64_at = uint_at 8"

definition cstr_at :: "string \<Rightarrow> nat \<Rightarrow> string scan" where
  "cstr_at data off =
     (if off \<le> length data then
        let s = takeWhile (\<lambda>b. b \<noteq> CHR 0x00) (drop off data) in if valid_utf8 s then Got s else Missing
      else Missing)"

section \<open>Sections\<close>

text \<open>
  The two searches differ in offsets and widths only: where the header has the table's offset, entry size, number and
  string index; the least entry size; where an entry has offset and size; the width of addresses.
\<close>

record elf_class =
  ec_shoff :: nat
  ec_entsize :: nat
  ec_num :: nat
  ec_strndx :: nat
  ec_min_entsize :: nat
  ec_sh_offset :: nat
  ec_sh_size :: nat
  ec_width :: nat

definition elf64 :: elf_class where
  "elf64 = \<lparr>ec_shoff = 40, ec_entsize = 58, ec_num = 60, ec_strndx = 62, ec_min_entsize = 64,
     ec_sh_offset = 24, ec_sh_size = 32, ec_width = 8\<rparr>"

definition elf32 :: elf_class where
  "elf32 = \<lparr>ec_shoff = 32, ec_entsize = 46, ec_num = 48, ec_strndx = 50, ec_min_entsize = 40,
     ec_sh_offset = 16, ec_sh_size = 20, ec_width = 4\<rparr>"

text \<open>The address of the header of section \<open>i\<close>, a field of a header, the contents a header describes.\<close>

definition header_at :: "nat \<Rightarrow> nat \<Rightarrow> nat \<Rightarrow> nat scan" where
  "header_at shoff entsize i = scan_bind (checked_mul i entsize) (checked_add shoff)"

definition field_at :: "elf_class \<Rightarrow> string \<Rightarrow> bool \<Rightarrow> nat \<Rightarrow> nat \<Rightarrow> nat scan" where
  "field_at ec data le hdr off = scan_bind (plain_add hdr off) (\<lambda>a. uint_at (ec_width ec) data a le)"

definition contents :: "elf_class \<Rightarrow> string \<Rightarrow> bool \<Rightarrow> nat \<Rightarrow> string scan" where
  "contents ec data le hdr =
     scan_bind (field_at ec data le hdr (ec_sh_offset ec)) (\<lambda>off.
     scan_bind (field_at ec data le hdr (ec_sh_size ec)) (\<lambda>size.
     scan_bind (checked_add off size) (slice data off)))"

definition section_name :: "string \<Rightarrow> string \<Rightarrow> bool \<Rightarrow> nat \<Rightarrow> string scan" where
  "section_name data strtab le hdr = scan_bind (u32_at data hdr le) (cstr_at strtab)"

text \<open>The loop over the sections from \<open>i\<close> on, \<open>k\<close> of them.\<close>

fun find_section :: "elf_class \<Rightarrow> string \<Rightarrow> string \<Rightarrow> bool \<Rightarrow> string \<Rightarrow> nat \<Rightarrow> nat \<Rightarrow> nat \<Rightarrow> nat \<Rightarrow> string scan" where
  "find_section ec data strtab le name shoff entsize i 0 = Missing"
| "find_section ec data strtab le name shoff entsize i (Suc k) =
     scan_bind (header_at shoff entsize i) (\<lambda>hdr.
     scan_bind (section_name data strtab le hdr) (\<lambda>sec_name.
     if sec_name \<noteq> name then find_section ec data strtab le name shoff entsize (Suc i) k
     else contents ec data le hdr))"

definition elf_section :: "elf_class \<Rightarrow> string \<Rightarrow> string \<Rightarrow> bool \<Rightarrow> string scan" where
  "elf_section ec data name le =
     scan_bind (uint_at (ec_width ec) data (ec_shoff ec) le) (\<lambda>shoff.
     scan_bind (u16_at data (ec_entsize ec) le) (\<lambda>shentsize.
     scan_bind (u16_at data (ec_num ec) le) (\<lambda>shnum.
     scan_bind (u16_at data (ec_strndx ec) le) (\<lambda>shstrndx.
     if shentsize < ec_min_entsize ec \<or> shnum = 0 \<or> shstrndx \<ge> shnum then Missing
     else scan_bind (header_at shoff shentsize shstrndx) (\<lambda>str_hdr.
          scan_bind (contents ec data le str_hdr) (\<lambda>strtab.
          find_section ec data strtab le name shoff shentsize 0 shnum))))))"

definition elf64_section :: "string \<Rightarrow> string \<Rightarrow> bool \<Rightarrow> string scan" where
  "elf64_section = elf_section elf64"

definition elf32_section :: "string \<Rightarrow> string \<Rightarrow> bool \<Rightarrow> string scan" where
  "elf32_section = elf_section elf32"

definition elf_section_data :: "string \<Rightarrow> string \<Rightarrow> string scan" where
  "elf_section_data data name =
     (if length data < 16 \<or> take 4 data \<noteq> [CHR 0x7F, CHR ''E'', CHR ''L'', CHR ''F''] then Missing
      else let class = data ! 4; endian = data ! 5; le = (endian = CHR 0x01) in
           if \<not> le \<and> endian \<noteq> CHR 0x02 then Missing
           else if class = CHR 0x01 then elf32_section data name le
           else if class = CHR 0x02 then elf64_section data name le
           else Missing)"

section \<open>Version information\<close>

definition SECTION_NAME :: string where "SECTION_NAME = ''.microinit.version''"

record version_info =
  vi_version :: string
  vi_tag_commit :: string
  vi_build_commit :: string
  vi_build_time :: string

text \<open>\<open>dec\<close> decodes the JSON payload to version and commit.\<close>

definition section_payload :: "(string \<Rightarrow> (string \<times> string) option) \<Rightarrow> string \<Rightarrow> (string \<times> string) option" where
  "section_payload dec raw =
     (if raw = [] then None
      else (case dec raw of
              Some (v, c) \<Rightarrow> if trim v = [] \<and> trim c = [] then None else Some (trim v, trim c)
            | None \<Rightarrow> let v = trim (utf8_lossy raw) in if v = [] then None else Some (v, [])))"

definition read_section_from :: "(string \<Rightarrow> (string \<times> string) option) \<Rightarrow> (string \<Rightarrow> string option) \<Rightarrow> string
    \<Rightarrow> (string \<times> string) scan" where
  "read_section_from dec read path =
     (case read path of
        None \<Rightarrow> Missing
      | Some data \<Rightarrow> scan_bind (elf_section_data data SECTION_NAME) (\<lambda>raw.
          case section_payload dec raw of Some vc \<Rightarrow> Got vc | None \<Rightarrow> Missing))"

definition binary_paths_for_version :: "string option \<Rightarrow> string option \<Rightarrow> string list" where
  "binary_paths_for_version exe lib =
     (let paths = (case exe of Some p \<Rightarrow> [p] | None \<Rightarrow> []) in
      case lib of Some p \<Rightarrow> if p \<notin> set paths then paths @ [p] else paths | None \<Rightarrow> paths)"

fun load_from :: "(string \<Rightarrow> (string \<times> string) option) \<Rightarrow> (string \<Rightarrow> string option) \<Rightarrow> string list \<Rightarrow> version_info
    \<Rightarrow> version_info scan" where
  "load_from dec read [] out = Got out"
| "load_from dec read (p # ps) out =
     (case read_section_from dec read p of
        Aborts \<Rightarrow> Aborts
      | Missing \<Rightarrow> load_from dec read ps out
      | Got (v, c) \<Rightarrow>
          let out1 = (if v \<noteq> [] then out\<lparr>vi_version := v\<rparr> else out);
              out2 = (if c \<noteq> [] then out1\<lparr>vi_tag_commit := c\<rparr> else out1)
          in if vi_version out2 \<noteq> [] \<and> vi_version out2 \<noteq> ''dev'' then Got out2 else load_from dec read ps out2)"

definition load_version :: "(string \<Rightarrow> (string \<times> string) option) \<Rightarrow> (string \<Rightarrow> string option) \<Rightarrow> string option
    \<Rightarrow> string option \<Rightarrow> string option \<Rightarrow> string option \<Rightarrow> version_info scan" where
  "load_version dec read exe lib git_commit build_time =
     load_from dec read (binary_paths_for_version exe lib)
       \<lparr>vi_version = ''dev'', vi_tag_commit = [],
        vi_build_commit = (case git_commit of Some c \<Rightarrow> c | None \<Rightarrow> ''unknown''),
        vi_build_time = (case build_time of Some t \<Rightarrow> t | None \<Rightarrow> [])\<rparr>"

definition hostname :: "(string \<Rightarrow> string option) \<Rightarrow> string" where
  "hostname read =
     (case (case read ''/proc/sys/kernel/hostname'' of Some s \<Rightarrow> Some s | None \<Rightarrow> read ''/etc/hostname'') of
        Some s \<Rightarrow> if trim s = [] then ''unknown'' else trim s
      | None \<Rightarrow> ''unknown'')"

section \<open>The search\<close>

lemma scan_bind_Got: "scan_bind m f = Got y \<longleftrightarrow> (\<exists>x. m = Got x \<and> f x = Got y)"
  by (cases m) (auto simp: scan_bind_def)

lemma scan_bind_Aborts: "scan_bind m f = Aborts \<longleftrightarrow> m = Aborts \<or> (\<exists>x. m = Got x \<and> f x = Aborts)"
  by (cases m) (auto simp: scan_bind_def)

text \<open>The section found is the first whose name is the one asked for; the names before it were read.\<close>

lemma find_section_first:
  "find_section ec data strtab le name shoff entsize i k = Got s \<Longrightarrow>
   \<exists>j hdr. i \<le> j \<and> j < i + k \<and> header_at shoff entsize j = Got hdr \<and> section_name data strtab le hdr = Got name
     \<and> contents ec data le hdr = Got s
     \<and> (\<forall>m. i \<le> m \<and> m < j \<longrightarrow> (\<exists>h n. header_at shoff entsize m = Got h \<and> section_name data strtab le h = Got n \<and> n \<noteq> name))"
proof (induction k arbitrary: i)
  case (Suc k)
  then obtain hdr n where h: "header_at shoff entsize i = Got hdr" "section_name data strtab le hdr = Got n"
    and rest: "(if n \<noteq> name then find_section ec data strtab le name shoff entsize (Suc i) k else contents ec data le hdr) = Got s"
    by (auto simp: scan_bind_Got)
  show ?case
  proof (cases "n = name")
    case True
    then show ?thesis using h rest by (intro exI [of _ i] exI [of _ hdr]) auto
  next
    case False
    then have "find_section ec data strtab le name shoff entsize (Suc i) k = Got s" using rest by simp
    from Suc.IH [OF this] obtain j g where j: "Suc i \<le> j" "j < Suc i + k" "header_at shoff entsize j = Got g"
      "section_name data strtab le g = Got name" "contents ec data le g = Got s"
      and before: "\<forall>m. Suc i \<le> m \<and> m < j \<longrightarrow> (\<exists>h n. header_at shoff entsize m = Got h \<and> section_name data strtab le h = Got n \<and> n \<noteq> name)"
      by blast
    have "\<exists>h n. header_at shoff entsize m = Got h \<and> section_name data strtab le h = Got n \<and> n \<noteq> name" if "i \<le> m \<and> m < j" for m
      using before h False that by (cases "m = i") auto
    then show ?thesis using j by (intro exI [of _ j] exI [of _ g]) auto
  qed
qed simp

lemma contents_part:
  "contents ec data le hdr = Got s \<Longrightarrow> \<exists>off. off + length s \<le> length data \<and> s = take (length s) (drop off data)"
  by (auto simp: contents_def scan_bind_Got slice_def checked_add_def split: if_splits intro!: exI)

lemma uint_at_aborts: "uint_at width data off le = Aborts \<Longrightarrow> USIZE \<le> off + width"
  by (auto simp: uint_at_def scan_bind_Aborts plain_add_def slice_def split: if_splits)

lemma header_at_bound: "header_at shoff entsize i = Got hdr \<Longrightarrow> hdr = shoff + i * entsize \<and> hdr < USIZE"
  by (auto simp: header_at_def scan_bind_Got checked_mul_def checked_add_def split: if_splits)

lemma header_at_aborts: "header_at shoff entsize i \<noteq> Aborts"
  by (auto simp: header_at_def scan_bind_Aborts checked_mul_def checked_add_def split: if_splits)

lemma contents_aborts:
  "contents ec data le hdr = Aborts \<Longrightarrow> USIZE \<le> hdr + max (ec_sh_offset ec) (ec_sh_size ec) + ec_width ec"
  by (auto simp: contents_def scan_bind_Aborts field_at_def plain_add_def slice_def checked_add_def
      dest!: uint_at_aborts split: if_splits)

lemma section_name_aborts: "section_name data strtab le hdr = Aborts \<Longrightarrow> USIZE \<le> hdr + 4"
  by (auto simp: section_name_def scan_bind_Aborts u32_at_def cstr_at_def Let_def dest!: uint_at_aborts split: if_splits)

lemma find_section_aborts:
  "find_section ec data strtab le name shoff entsize i k = Aborts \<Longrightarrow>
   \<exists>j. j < i + k \<and> USIZE \<le> shoff + j * entsize + max (ec_sh_offset ec) (ec_sh_size ec) + ec_width ec + 4"
proof (induction k arbitrary: i)
  case (Suc k)
  then consider h where "header_at shoff entsize i = Got h" "section_name data strtab le h = Aborts \<or> contents ec data le h = Aborts"
    | "find_section ec data strtab le name shoff entsize (Suc i) k = Aborts"
    using header_at_aborts by (auto simp: scan_bind_Aborts split: if_splits)
  then show ?case
  proof cases
    case 1
    then have "USIZE \<le> shoff + i * entsize + max (ec_sh_offset ec) (ec_sh_size ec) + ec_width ec + 4"
      using section_name_aborts contents_aborts header_at_bound by fastforce
    then show ?thesis by (intro exI [of _ i]) simp
  next
    case 2
    from Suc.IH [OF this] show ?thesis by auto
  qed
qed simp

lemma bytes_value_bound: "bytes_value le bs < 256 ^ length bs"
proof -
  have "foldr (\<lambda>c acc. of_char c + 256 * acc) cs (0::nat) < 256 ^ length cs" for cs :: string
  proof (induction cs)
    case (Cons c cs)
    let ?x = "foldr (\<lambda>c acc. of_char c + 256 * acc) cs (0 :: nat)"
    have "256 * (?x + 1) \<le> 256 * 256 ^ length cs" using Cons by (intro mult_le_mono2) simp
    moreover have "y + 256 * x < 256 * (x + 1)" if "y < 256" for x y :: nat using that by simp
    from this [OF nat_of_char_less_256] have "of_char c + 256 * ?x < 256 * (?x + 1)" .
    ultimately have "of_char c + 256 * ?x < 256 * 256 ^ length cs" by linarith
    then show ?case by simp
  qed simp
  from this [of "if le then bs else rev bs"] show ?thesis by (simp add: bytes_value_def split: if_splits)
qed

lemma uint_at_bound: "uint_at width data off le = Got v \<Longrightarrow> v < 256 ^ width"
  using bytes_value_bound [of le "take width (drop off data)"]
  by (auto simp: uint_at_def scan_bind_Got plain_add_def slice_def split: if_splits)

lemma elf_section_aborts:
  assumes "elf_section ec data name le = Aborts" "ec \<in> {elf32, elf64}"
  shows "\<exists>shoff. uint_at (ec_width ec) data (ec_shoff ec) le = Got shoff \<and> USIZE \<le> shoff + 2 ^ 33"
proof -
  have const: "ec_shoff ec + ec_width ec < USIZE" "ec_entsize ec + 2 < USIZE" "ec_num ec + 2 < USIZE" "ec_strndx ec + 2 < USIZE"
    and small: "max (ec_sh_offset ec) (ec_sh_size ec) + ec_width ec + 4 \<le> 44"
    using assms(2) by (auto simp: elf32_def elf64_def USIZE_def)
  have "uint_at (ec_width ec) data (ec_shoff ec) le \<noteq> Aborts" "u16_at data (ec_entsize ec) le \<noteq> Aborts"
    "u16_at data (ec_num ec) le \<noteq> Aborts" "u16_at data (ec_strndx ec) le \<noteq> Aborts"
    using const uint_at_aborts unfolding u16_at_def by (metis linorder_not_less)+
  then obtain shoff entsize num strndx where
    v: "uint_at (ec_width ec) data (ec_shoff ec) le = Got shoff" "u16_at data (ec_entsize ec) le = Got entsize"
      "u16_at data (ec_num ec) le = Got num" "u16_at data (ec_strndx ec) le = Got strndx"
    and rest: "\<not> (entsize < ec_min_entsize ec \<or> num = 0 \<or> strndx \<ge> num)"
      "scan_bind (header_at shoff entsize strndx) (\<lambda>h. scan_bind (contents ec data le h) (\<lambda>strtab.
         find_section ec data strtab le name shoff entsize 0 num)) = Aborts"
    using assms(1) by (auto simp: elf_section_def scan_bind_Aborts split: if_splits)
  have b: "entsize < 2 ^ 16" "num < 2 ^ 16" "strndx < 2 ^ 16"
    using v(2-4) uint_at_bound [of 2] by (force simp: u16_at_def)+
  obtain j where j: "j < 2 ^ 16" "USIZE \<le> shoff + j * entsize + 44"
  proof -
    from rest(2) consider h where "header_at shoff entsize strndx = Got h" "contents ec data le h = Aborts"
      | strtab where "find_section ec data strtab le name shoff entsize 0 num = Aborts"
      using header_at_aborts by (auto simp: scan_bind_Aborts)
    then show thesis
    proof cases
      case 1
      have "USIZE \<le> h + (max (ec_sh_offset ec) (ec_sh_size ec) + ec_width ec + 4)" using contents_aborts [OF 1(2)] by simp
      then show ?thesis using that [of strndx] header_at_bound [OF 1(1)] small b(3) by linarith
    next
      case 2
      from find_section_aborts [OF this] obtain i where "i < num"
        "USIZE \<le> shoff + i * entsize + (max (ec_sh_offset ec) (ec_sh_size ec) + ec_width ec + 4)" by (auto simp: add.assoc)
      then show ?thesis using that [of i] small b(2) by linarith
    qed
  qed
  have "j * entsize \<le> 2 ^ 16 * 2 ^ 16" using j(1) b(1) by (intro mult_mono) auto
  then have "USIZE \<le> shoff + 2 ^ 33" using j(2) by simp
  then show ?thesis using v(1) by blast
qed

section \<open>Properties\<close>

text \<open>
  The section returned is that of the first header in the table whose name is the one asked for, and its bytes
  are a contiguous part of the image.
\<close>

theorem elf_section_first_match:
  assumes "elf_section ec data name le = Got s"
  shows "\<exists>shoff entsize num strtab i hdr. i < num \<and> header_at shoff entsize i = Got hdr
    \<and> uint_at (ec_width ec) data (ec_shoff ec) le = Got shoff \<and> u16_at data (ec_num ec) le = Got num
    \<and> section_name data strtab le hdr = Got name \<and> contents ec data le hdr = Got s
    \<and> (\<forall>j < i. \<exists>h n. header_at shoff entsize j = Got h \<and> section_name data strtab le h = Got n \<and> n \<noteq> name)
    \<and> (\<exists>off. off + length s \<le> length data \<and> s = take (length s) (drop off data))"
proof -
  obtain shoff entsize num strtab where v: "uint_at (ec_width ec) data (ec_shoff ec) le = Got shoff" "u16_at data (ec_num ec) le = Got num"
    and f: "find_section ec data strtab le name shoff entsize 0 num = Got s"
    using assms by (auto simp: elf_section_def scan_bind_Got split: if_splits)
  from find_section_first [OF f] obtain i hdr where i: "i < num" "header_at shoff entsize i = Got hdr"
      "section_name data strtab le hdr = Got name" "contents ec data le hdr = Got s"
    and before: "\<forall>m. 0 \<le> m \<and> m < i \<longrightarrow> (\<exists>h n. header_at shoff entsize m = Got h \<and> section_name data strtab le h = Got n \<and> n \<noteq> name)"
    by auto
  show ?thesis
    using v i before contents_part [OF i(4)]
    by (intro exI [of _ shoff] exI [of _ entsize] exI [of _ num] exI [of _ strtab] exI [of _ i] exI [of _ hdr]) auto
qed

definition small_image :: string where
  "small_image =
     [CHR 0x7F, CHR 0x45, CHR 0x4C, CHR 0x46, CHR 0x01, CHR 0x01, CHR 0x00, CHR 0x00, CHR 0x00, CHR 0x00, CHR 0x00, CHR 0x00, CHR 0x00, CHR 0x00, CHR 0x00, CHR 0x00,
      CHR 0x00, CHR 0x00, CHR 0x00, CHR 0x00, CHR 0x00, CHR 0x00, CHR 0x00, CHR 0x00, CHR 0x00, CHR 0x00, CHR 0x00, CHR 0x00, CHR 0x00, CHR 0x00, CHR 0x00, CHR 0x00,
      CHR 0x34, CHR 0x00, CHR 0x00, CHR 0x00, CHR 0x00, CHR 0x00, CHR 0x00, CHR 0x00, CHR 0x00, CHR 0x00, CHR 0x00, CHR 0x00, CHR 0x00, CHR 0x00, CHR 0x28, CHR 0x00,
      CHR 0x01, CHR 0x00, CHR 0x00, CHR 0x00, CHR 0x00, CHR 0x00, CHR 0x00, CHR 0x00, CHR 0x00, CHR 0x00, CHR 0x00, CHR 0x00, CHR 0x00, CHR 0x00, CHR 0x00, CHR 0x00,
      CHR 0x00, CHR 0x00, CHR 0x00, CHR 0x00, CHR 0x5C, CHR 0x00, CHR 0x00, CHR 0x00, CHR 0x02, CHR 0x00, CHR 0x00, CHR 0x00, CHR 0x00, CHR 0x00, CHR 0x00, CHR 0x00,
      CHR 0x00, CHR 0x00, CHR 0x00, CHR 0x00, CHR 0x00, CHR 0x00, CHR 0x00, CHR 0x00, CHR 0x00, CHR 0x00, CHR 0x00, CHR 0x00, CHR 0x61, CHR 0x00]"

lemma small_image_section: "elf_section elf32 small_image ''a'' True = Got [CHR 0x61, CHR 0x00]"
proof -
  have f: "uint_at 4 small_image 32 True = Got 52" "uint_at 2 small_image 46 True = Got 40" "uint_at 2 small_image 48 True = Got 1"
    "uint_at 2 small_image 50 True = Got 0" "uint_at 4 small_image 52 True = Got 0" "uint_at 4 small_image 68 True = Got 92"
    "uint_at 4 small_image 72 True = Got 2" "slice small_image 92 94 = Got [CHR 0x61, CHR 0x00]"
    by (simp_all add: uint_at_def plain_add_def slice_def scan_bind_def bytes_value_def small_image_def USIZE_def)
  have "valid_utf8 ''a''" by code_simp
  then show ?thesis
    by (simp add: elf_section_def elf32_def u16_at_def u32_at_def scan_bind_def header_at_def checked_mul_def checked_add_def
        contents_def field_at_def plain_add_def USIZE_def section_name_def cstr_at_def f)
qed

theorem elf_section_first_match_witness:
  "\<exists>off. off + 2 \<le> length small_image \<and> [CHR 0x61, CHR 0x00] = take 2 (drop off small_image)"
  using elf_section_first_match [OF small_image_section] by (auto simp: numeral_2_eq_2)

text \<open>
  The search aborts on an overflowing addition only for an image whose section table is claimed to lie in the last
  eight gigabytes of the address space; in particular never for a 32-bit image.
\<close>

theorem elf_search_aborts_only_at_the_end:
  assumes "elf_section_data data name = Aborts"
  shows "data ! 4 = CHR 0x02 \<and> (\<exists>shoff le. uint_at 8 data 40 le = Got shoff \<and> 2 ^ 64 - 2 ^ 33 \<le> shoff)"
proof -
  consider le where "elf_section elf32 data name le = Aborts" | le where "data ! 4 = CHR 0x02" "elf_section elf64 data name le = Aborts"
    using assms by (auto simp: elf_section_data_def elf32_section_def elf64_section_def Let_def split: if_splits)
  then show ?thesis
  proof cases
    case 1
    then obtain shoff where "uint_at 4 data 32 le = Got shoff" "USIZE \<le> shoff + 2 ^ 33"
      using elf_section_aborts [OF 1] by (auto simp: elf32_def)
    then show ?thesis using uint_at_bound [of 4 data 32 le shoff] by (simp add: USIZE_def)
  next
    case 2
    then show ?thesis using elf_section_aborts [OF 2(2)] by (auto simp: elf64_def USIZE_def)
  qed
qed

text \<open>
  Such images exist: 64 bytes of header suffice to make the search abort the process.
\<close>

definition bad_image :: string where
  "bad_image =
     [CHR 0x7F, CHR ''E'', CHR ''L'', CHR ''F'', CHR 0x02, CHR 0x01, CHR 0x00, CHR 0x00, CHR 0x00, CHR 0x00, CHR 0x00, CHR 0x00, CHR 0x00, CHR 0x00, CHR 0x00, CHR 0x00,
      CHR 0x00, CHR 0x00, CHR 0x00, CHR 0x00, CHR 0x00, CHR 0x00, CHR 0x00, CHR 0x00, CHR 0x00, CHR 0x00, CHR 0x00, CHR 0x00, CHR 0x00, CHR 0x00, CHR 0x00, CHR 0x00,
      CHR 0x00, CHR 0x00, CHR 0x00, CHR 0x00, CHR 0x00, CHR 0x00, CHR 0x00, CHR 0x00, CHR 0xFF, CHR 0xFF, CHR 0xFF, CHR 0xFF, CHR 0xFF, CHR 0xFF, CHR 0xFF, CHR 0xFF,
      CHR 0x00, CHR 0x00, CHR 0x00, CHR 0x00, CHR 0x00, CHR 0x00, CHR 0x00, CHR 0x00, CHR 0x00, CHR 0x00, CHR 0x40, CHR 0x00, CHR 0x01, CHR 0x00, CHR 0x00, CHR 0x00]"

lemma bad_image_fields: "uint_at 8 bad_image 40 True = Got (2 ^ 64 - 1)" "u16_at bad_image 58 True = Got 64"
  "u16_at bad_image 60 True = Got 1" "u16_at bad_image 62 True = Got 0"
  by (simp_all add: uint_at_def u16_at_def plain_add_def slice_def scan_bind_def bytes_value_def bad_image_def USIZE_def)

theorem bad_image_aborts: "elf_section_data bad_image SECTION_NAME = Aborts"
proof -
  have "elf_section elf64 bad_image SECTION_NAME True = Aborts"
    by (simp add: elf_section_def elf64_def scan_bind_def header_at_def checked_mul_def checked_add_def contents_def field_at_def
        plain_add_def USIZE_def bad_image_fields [simplified])
  then show ?thesis by (simp add: elf_section_data_def elf64_section_def bad_image_def)
qed

theorem elf_search_aborts_only_at_the_end_witness: "bad_image ! 4 = CHR 0x02"
  using elf_search_aborts_only_at_the_end [of bad_image SECTION_NAME] by (simp add: bad_image_aborts)

end
