(* ===== verification/Describe.thy ===== *)
theory Describe
  imports Operations Version "HOL-Library.Multiset"
begin

text \<open>
  The snapshots of the supervisor for its clients: \<open>describe\<close> with the dependency graph around a service, \<open>info\<close> and
  the metrics (\<open>src/src/supervisor.rs\<close>). The maps of edges are built and searched as the code does. What the code asks of
  \<open>serde_json::Value\<close>, the time format and the contents of \<open>/proc\<close> are arguments; a \<open>f64\<close> number of seconds is
  given in milliseconds.
\<close>

section \<open>The graph around a service\<close>

type_synonym neighbours = "(string, string list) omap"

text \<open>\<open>map.entry(k).or_default().push(v)\<close>\<close>

definition push_entry :: "string \<Rightarrow> string \<Rightarrow> neighbours \<Rightarrow> neighbours" where
  "push_entry k v m = om_insert k ((case om_get m k of Some vs \<Rightarrow> vs | None \<Rightarrow> []) @ [v]) m"

text \<open>The pairs (service, dependency) in the order of the two nested loops.\<close>

definition dep_pairs :: "(string \<times> string list) list \<Rightarrow> (string \<times> string) list" where
  "dep_pairs services_deps = concat (map (\<lambda>(svc, deps). map (\<lambda>dep. (svc, dep)) deps) services_deps)"

definition forward_map :: "(string \<times> string list) list \<Rightarrow> neighbours" where
  "forward_map services_deps = fold (\<lambda>(svc, dep). push_entry dep svc) (dep_pairs services_deps) []"

definition reverse_map :: "(string \<times> string list) list \<Rightarrow> neighbours" where
  "reverse_map services_deps = fold (\<lambda>(svc, dep). push_entry svc dep) (dep_pairs services_deps) []"

text \<open>The variables of the search; the two hash sets are lists without repetition.\<close>

record search =
  sr_visited :: "string list"
  sr_edges :: "(string \<times> string) list"
  sr_queue :: "string list"

definition see :: "(string \<Rightarrow> string \<times> string) \<Rightarrow> string \<Rightarrow> search \<Rightarrow> search" where
  "see mk n s =
     (let s1 = s\<lparr>sr_edges := List.insert (mk n) (sr_edges s)\<rparr> in
      if n \<notin> set (sr_visited s1) then s1\<lparr>sr_visited := n # sr_visited s1, sr_queue := sr_queue s1 @ [n]\<rparr> else s1)"

definition neighbours_of :: "neighbours \<Rightarrow> string \<Rightarrow> string list" where
  "neighbours_of m n = (case om_get m n of Some ns \<Rightarrow> ns | None \<Rightarrow> [])"

definition expand :: "neighbours \<Rightarrow> neighbours \<Rightarrow> string \<Rightarrow> search \<Rightarrow> search" where
  "expand forward reverse cur s =
     fold (see (\<lambda>child. (cur, child))) (neighbours_of forward cur)
       (fold (see (\<lambda>dep. (dep, cur))) (neighbours_of reverse cur) s)"

definition values_of :: "neighbours \<Rightarrow> string set" where
  "values_of m = (\<Union>(k, vs) \<in> set m. set vs)"

lemma neighbours_in_values: "set (neighbours_of m n) \<subseteq> values_of m"
proof (cases "om_get m n")
  case (Some ns)
  then have "(n, ns) \<in> set m" by (rule map_of_SomeD)
  then show ?thesis using Some by (auto simp: neighbours_of_def values_of_def)
qed (simp add: neighbours_of_def)

text \<open>A step of the search keeps this measure: twice the nodes not visited yet, and the queue.\<close>

definition left :: "string set \<Rightarrow> search \<Rightarrow> nat" where
  "left N s = 2 * card (N - set (sr_visited s)) + length (sr_queue s)"

lemma left_see:
  assumes "finite N" "n \<in> N"
  shows "left N (see mk n s) \<le> left N s"
proof (cases "n \<in> set (sr_visited s)")
  case False
  have "N - set (sr_visited (see mk n s)) = (N - set (sr_visited s)) - {n}"
    using False by (auto simp: see_def Let_def)
  moreover have "card ((N - set (sr_visited s)) - {n}) < card (N - set (sr_visited s))"
    using assms False by (intro card_Diff1_less) auto
  moreover have "length (sr_queue (see mk n s)) = Suc (length (sr_queue s))"
    using False by (simp add: see_def Let_def)
  ultimately show ?thesis by (simp add: left_def)
qed (simp add: see_def left_def Let_def)

lemma left_fold_see: "finite N \<Longrightarrow> set ns \<subseteq> N \<Longrightarrow> left N (fold (see mk) ns s) \<le> left N s"
proof (induction ns arbitrary: s)
  case (Cons n ns)
  then have "left N (fold (see mk) ns (see mk n s)) \<le> left N (see mk n s)" by simp
  also have "\<dots> \<le> left N s" using Cons.prems by (intro left_see) auto
  finally show ?case by simp
qed simp

lemma finite_values: "finite (values_of m)"
  by (auto simp: values_of_def)

lemma left_expand: "left (values_of f \<union> values_of r) (expand f r cur s) \<le> left (values_of f \<union> values_of r) s"
proof -
  let ?N = "values_of f \<union> values_of r"
  have "left ?N (expand f r cur s) \<le> left ?N (fold (see (\<lambda>dep. (dep, cur))) (neighbours_of r cur) s)"
    unfolding expand_def using neighbours_in_values [of f cur] finite_values by (intro left_fold_see) auto
  also have "\<dots> \<le> left ?N s"
    using neighbours_in_values [of r cur] finite_values by (intro left_fold_see) auto
  finally show ?thesis .
qed

text \<open>\<open>while let Some(cur) = queue.pop_front()\<close>\<close>

function search_loop :: "neighbours \<Rightarrow> neighbours \<Rightarrow> search \<Rightarrow> search" where
  "search_loop f r s =
     (case sr_queue s of [] \<Rightarrow> s | cur # rest \<Rightarrow> search_loop f r (expand f r cur (s\<lparr>sr_queue := rest\<rparr>)))"
  by pat_completeness auto
termination
proof (relation "measure (\<lambda>(f, r, s). left (values_of f \<union> values_of r) s)", goal_cases)
  case (2 f r s cur rest)
  have "left (values_of f \<union> values_of r) (s\<lparr>sr_queue := rest\<rparr>) < left (values_of f \<union> values_of r) s"
    using 2 by (simp add: left_def)
  then show ?case using left_expand [of f r cur "s\<lparr>sr_queue := rest\<rparr>"] by simp
qed simp

declare search_loop.simps [simp del]

definition search_from :: "(string \<times> string list) list \<Rightarrow> string \<Rightarrow> search" where
  "search_from services_deps name =
     search_loop (forward_map services_deps) (reverse_map services_deps)
       \<lparr>sr_visited = [name], sr_edges = [], sr_queue = [name]\<rparr>"

section \<open>The source of a definition\<close>

record 'j value_ops =
  vo_parse :: "string \<Rightarrow> string + 'j"
  vo_services :: "'j \<Rightarrow> 'j list option"
  vo_name :: "'j \<Rightarrow> string option"

definition extract_service_json :: "'j value_ops \<Rightarrow> faults \<Rightarrow> files \<Rightarrow> path \<Rightarrow> string \<Rightarrow> 'j option res" where
  "extract_service_json vo fault fs p name =
     (if \<not> om_contains fs p then Inr None
      else (case fs_read fault fs p of
              Inl e \<Rightarrow> Inl (ErrIoPath p e)
            | Inr data \<Rightarrow> (case vo_parse vo data of
                Inl e \<Rightarrow> Inl (ErrJson e)
              | Inr root \<Rightarrow> (case vo_services vo root of
                  None \<Rightarrow> Inr None
                | Some svcs \<Rightarrow> Inr (find (\<lambda>svc. vo_name vo svc = Some name) svcs)))))"

fun last_source :: "'j value_ops \<Rightarrow> faults \<Rightarrow> files \<Rightarrow> path \<Rightarrow> string \<Rightarrow> rel_path list \<Rightarrow> 'j service_source option
    \<Rightarrow> 'j service_source option res" where
  "last_source vo fault fs root name [] found = Inr found"
| "last_source vo fault fs root name (rel # rels) found =
     (let p = join_path root rel in
      case extract_service_json vo fault fs p name of
        Inl e \<Rightarrow> Inl e
      | Inr None \<Rightarrow> last_source vo fault fs root name rels found
      | Inr (Some j) \<Rightarrow> last_source vo fault fs root name rels (Some \<lparr>src_path = p, src_json = j\<rparr>))"

definition find_service_source :: "'j value_ops \<Rightarrow> faults \<Rightarrow> files \<Rightarrow> path \<Rightarrow> dirent option \<Rightarrow> path \<Rightarrow> string
    \<Rightarrow> 'j service_source option res" where
  "find_service_source vo fault fs dropins_dir tree config_path name =
     res_bind (case collect_dropin_rel_paths tree of
         Inl _ \<Rightarrow> Inr None
       | Inr rels \<Rightarrow> last_source vo fault fs dropins_dir name rels None) (\<lambda>found.
     if found \<noteq> None then Inr found
     else res_bind (extract_service_json vo fault fs config_path name) (\<lambda>j.
       Inr (map_option (\<lambda>v. \<lparr>src_path = config_path, src_json = v\<rparr>) j)))"

section \<open>describe\<close>

text \<open>
  The fields of \<open>Supervisor\<close> that never change and the answers of the system that \<open>describe\<close> and \<open>info\<close> need.
\<close>

record 'j daemon =
  dm_config_path :: path
  dm_dropins_dir :: path
  dm_started_at :: millis
  dm_mode :: daemon_mode
  dm_pid :: nat
  dm_hostname :: string
  dm_version :: version_info
  dm_tree :: "nat \<Rightarrow> dirent option"
  dm_proc :: "nat \<Rightarrow> path \<Rightarrow> string + string"
  dm_fmt :: "int \<Rightarrow> string"
  dm_value :: "'j value_ops"
  dm_penv :: env_map
  dm_otel_file :: "nat \<Rightarrow> env_map"

text \<open>The first section: the record of the service, its newest events and the states of all services.\<close>

record described =
  ds_status :: service_status
  ds_uptime :: "nat option"
  ds_events :: "service_event list"
  ds_states :: "(string, service_state) omap"

definition describe_runtime :: "(int \<Rightarrow> string) \<Rightarrow> string \<Rightarrow> world \<Rightarrow> described res" where
  "describe_runtime fmt name w =
     (case om_get (w_runtimes w) name of
        None \<Rightarrow> Inl (ErrUnknownService name)
      | Some rt \<Rightarrow> Inr
          \<lparr>ds_status = make_status name rt [],
           ds_uptime = (if rt_state rt = Running then map_option (\<lambda>since. (w_now w - since) div 1000) (rt_running_since rt) else None),
           ds_events = map (to_protocol fmt) (drop (length (rt_events rt) - EVENT_RETURN) (rt_events rt)),
           ds_states = map (\<lambda>(n, r). (n, rt_state r)) (w_runtimes w)\<rparr>)"

definition dep_node_of :: "(string, service_state) omap \<Rightarrow> string \<Rightarrow> dep_node" where
  "dep_node_of states n = \<lparr>dn_name = n, dn_state = (case om_get states n of Some st \<Rightarrow> st | None \<Rightarrow> Pending)\<rparr>"

text \<open>\<open>nodes.sort_by(|a, b| a.name.cmp(&b.name))\<close> on the nodes of the given names.\<close>

definition sorted_nodes :: "(string, service_state) omap \<Rightarrow> string list \<Rightarrow> dep_node list" where
  "sorted_nodes states ns = sort_key dn_name (map (dep_node_of states) ns)"

text \<open>The part that runs without locks.\<close>

definition describe_graph :: "described \<Rightarrow> running_identity option \<Rightarrow> service_config \<Rightarrow> service_config list \<Rightarrow> 'j service_source option
    \<Rightarrow> 'j service_describe" where
  "describe_graph ds running_as svc services source =
     (let name = st_name (ds_status ds); services_deps = map (\<lambda>s. (sc_name s, sc_depends_on s)) services;
          found = search_from services_deps name
      in \<lparr>sd_status = (ds_status ds)\<lparr>st_labels := sc_labels svc\<rparr>, sd_uptime_secs = ds_uptime ds,
          sd_depends_on = sorted_nodes (ds_states ds) (sc_depends_on svc),
          sd_dependents = sorted_nodes (ds_states ds) (map fst (filter (\<lambda>(_, deps). list_ex (\<lambda>d. d = name) deps) services_deps)),
          sd_dep_nodes = sorted_nodes (ds_states ds) (sr_visited found),
          sd_dep_edges = sort (sr_edges found),
          sd_events = ds_events ds, sd_running_as = running_as, sd_security_context = sc_security_context svc,
          sd_source = source\<rparr>)"

definition describe :: "'j daemon \<Rightarrow> string \<Rightarrow> describe_output \<Rightarrow> 'j service_describe res prog" where
  "describe dm name out =
     bind (reads (describe_runtime (dm_fmt dm) name)) (\<lambda>r.
     case r of
       Inl err \<Rightarrow> ret (Inl err)
     | Inr ds \<Rightarrow>
         bind (atomic (\<lambda>e w. (Option.bind (st_pid (ds_status ds)) (read_running_identity (e_db e) (dm_proc dm (w_tick w))), w))) (\<lambda>running_as.
         bind (reads (\<lambda>w. map_option (\<lambda>svc. (svc, cfg_services (w_config w))) (get (w_config w) name))) (\<lambda>c.
         case c of
           None \<Rightarrow> ret (Inl (ErrUnknownService name))
         | Some (svc, services) \<Rightarrow>
             bind (atomic (\<lambda>e w.
                (if out = Json
                 then find_service_source (dm_value dm) (e_fault e (w_tick w)) (w_files w) (dm_dropins_dir dm) (dm_tree dm (w_tick w))
                        (dm_config_path dm) name
                 else Inr None, w))) (\<lambda>source.
             case source of
               Inl err \<Rightarrow> ret (Inl err)
             | Inr src \<Rightarrow> ret (Inr (describe_graph ds running_as svc services src))))))"

section \<open>info and metrics\<close>

definition open_telemetry :: "'j daemon \<Rightarrow> open_telemetry_config prog" where
  "open_telemetry dm =
     bind (reads (\<lambda>w. cfg_open_telemetry (w_config w))) (\<lambda>base.
     reads (\<lambda>w. overlay_config (dm_penv dm) (dm_otel_file dm (w_tick w)) base))"

definition info :: "'j daemon \<Rightarrow> daemon_info prog" where
  "info dm =
     bind (open_telemetry dm) (\<lambda>otel.
     reads (\<lambda>w.
       \<lparr>di_version = vi_version (dm_version dm), di_tag_commit = vi_tag_commit (dm_version dm),
        di_build_commit = vi_build_commit (dm_version dm), di_build_time = vi_build_time (dm_version dm),
        di_pid = dm_pid dm, di_hostname = dm_hostname dm, di_uptime_secs = (w_now w - dm_started_at dm) div 1000,
        di_socket = cfg_socket (w_config w), di_mode = dm_mode dm,
        di_services_total = length (w_runtimes w),
        di_services_running = length (filter (\<lambda>(_, rt). rt_state rt = Running) (w_runtimes w)),
        di_otel_enabled = ot_enable otel, di_otel_endpoint = ot_endpoint otel, di_otel_protocol = ot_protocol otel,
        di_otel_service_name = ot_service_name otel, di_otel_export_interval_secs = unat (ot_export_interval_secs otel)\<rparr>))"

record service_metrics =
  sm_name :: string
  sm_restarts :: u32
  sm_liveness_failures :: u32
  sm_pid :: "i32 option"
  sm_enabled :: bool
  sm_state :: service_state
  sm_uptime :: millis

definition metrics_snapshot :: "world \<Rightarrow> service_metrics list" where
  "metrics_snapshot w =
     sort_key sm_name (map (\<lambda>(name, rt).
       \<lparr>sm_name = name, sm_restarts = rt_restarts rt, sm_liveness_failures = rt_liveness_failures rt, sm_pid = rt_pid rt,
        sm_enabled = rt_enabled rt, sm_state = rt_state rt,
        sm_uptime = (case rt_running_since rt of Some t \<Rightarrow> w_now w - t | None \<Rightarrow> 0)\<rparr>) (w_runtimes w))"

section \<open>The search finds the connected component\<close>

definition component :: "service_config list \<Rightarrow> string \<Rightarrow> string set" where
  "component ss name = {n. (\<lambda>a b. edge ss a b \<or> edge ss b a)\<^sup>*\<^sup>* name n}"

lemma component_refl: "name \<in> component ss name"
  by (simp add: component_def)

lemma component_step: "a \<in> component ss name \<Longrightarrow> edge ss a b \<or> edge ss b a \<Longrightarrow> b \<in> component ss name"
  by (auto simp: component_def intro: rtranclp.rtrancl_into_rtrancl)

lemma component_least:
  assumes "name \<in> V" "\<And>a b. a \<in> V \<Longrightarrow> edge ss a b \<or> edge ss b a \<Longrightarrow> b \<in> V"
  shows "component ss name \<subseteq> V"
proof
  fix n
  assume "n \<in> component ss name"
  then have "(\<lambda>a b. edge ss a b \<or> edge ss b a)\<^sup>*\<^sup>* name n" by (simp add: component_def)
  then show "n \<in> V" by induction (use assms in blast)+
qed

lemma neighbours_push_entry:
  "set (neighbours_of (push_entry k v m) n) = set (neighbours_of m n) \<union> (if n = k then {v} else {})"
  by (auto simp: neighbours_of_def push_entry_def split: option.splits)

lemma neighbours_fold:
  "set (neighbours_of (fold (\<lambda>(a, b). push_entry (k a b) (v a b)) ps m) n) =
     set (neighbours_of m n) \<union> {v a b | a b. (a, b) \<in> set ps \<and> k a b = n}"
proof (induction ps arbitrary: m)
  case (Cons p ps)
  then show ?case by (cases p) (auto simp: neighbours_push_entry)
qed simp

lemma dep_pairs_edge: "(n, d) \<in> set (dep_pairs (map (\<lambda>s. (sc_name s, sc_depends_on s)) ss)) \<longleftrightarrow> edge ss d n"
  by (auto simp: dep_pairs_def edge_def)

lemma forward_edge: "n \<in> set (neighbours_of (forward_map (map (\<lambda>s. (sc_name s, sc_depends_on s)) ss)) d) \<longleftrightarrow> edge ss d n"
  using neighbours_fold [of "\<lambda>_ b. b" "\<lambda>a _. a" "dep_pairs (map (\<lambda>s. (sc_name s, sc_depends_on s)) ss)" "[]" d]
  by (simp add: forward_map_def dep_pairs_edge neighbours_of_def [of "[]"])

lemma reverse_edge: "d \<in> set (neighbours_of (reverse_map (map (\<lambda>s. (sc_name s, sc_depends_on s)) ss)) n) \<longleftrightarrow> edge ss d n"
  using neighbours_fold [of "\<lambda>a _. a" "\<lambda>_ b. b" "dep_pairs (map (\<lambda>s. (sc_name s, sc_depends_on s)) ss)" "[]" n]
  by (simp add: reverse_map_def dep_pairs_edge neighbours_of_def [of "[]"])

text \<open>What a loop over neighbours does to the three variables.\<close>

lemma fold_see:
  "set (sr_visited (fold (see mk) ns s)) = set (sr_visited s) \<union> set ns"
  "set (sr_edges (fold (see mk) ns s)) = set (sr_edges s) \<union> mk ` set ns"
  "set (sr_queue (fold (see mk) ns s)) = set (sr_queue s) \<union> (set ns - set (sr_visited s))"
  by (induction ns arbitrary: s) (auto simp: see_def Let_def)

lemma fold_see_distinct:
  "distinct (sr_visited s) \<Longrightarrow> distinct (sr_visited (fold (see mk) ns s))"
  "distinct (sr_edges s) \<Longrightarrow> distinct (sr_edges (fold (see mk) ns s))"
  by (induction ns arbitrary: s) (simp_all add: see_def Let_def)

definition searching :: "service_config list \<Rightarrow> string \<Rightarrow> search \<Rightarrow> bool" where
  "searching ss name s =
     (name \<in> set (sr_visited s) \<and> set (sr_visited s) \<subseteq> component ss name \<and> set (sr_queue s) \<subseteq> set (sr_visited s)
      \<and> (\<forall>(d, n) \<in> set (sr_edges s). edge ss d n \<and> d \<in> component ss name)
      \<and> (\<forall>d n. edge ss d n \<longrightarrow> d \<in> set (sr_visited s) - set (sr_queue s) \<or> n \<in> set (sr_visited s) - set (sr_queue s)
            \<longrightarrow> (d, n) \<in> set (sr_edges s) \<and> d \<in> set (sr_visited s) \<and> n \<in> set (sr_visited s))
      \<and> distinct (sr_visited s) \<and> distinct (sr_edges s))"

lemma searching_expand:
  fixes ss
  defines "sd \<equiv> map (\<lambda>s. (sc_name s, sc_depends_on s)) ss"
  assumes s: "searching ss name s" and q: "sr_queue s = cur # rest"
  shows "searching ss name (expand (forward_map sd) (reverse_map sd) cur (s\<lparr>sr_queue := rest\<rparr>))"
proof -
  let ?s1 = "s\<lparr>sr_queue := rest\<rparr>"
  let ?R = "{d. edge ss d cur}" and ?F = "{n. edge ss cur n}"
  let ?e = "expand (forward_map sd) (reverse_map sd) cur ?s1"
  have R: "set (neighbours_of (reverse_map sd) cur) = ?R" and F: "set (neighbours_of (forward_map sd) cur) = ?F"
    unfolding sd_def using reverse_edge forward_edge by blast+
  have v: "set (sr_visited ?e) = set (sr_visited s) \<union> ?R \<union> ?F"
    and e: "set (sr_edges ?e) = set (sr_edges s) \<union> (\<lambda>d. (d, cur)) ` ?R \<union> (\<lambda>n. (cur, n)) ` ?F"
    and qu: "set (sr_queue ?e) = set rest \<union> ((?R \<union> ?F) - set (sr_visited s))"
    unfolding expand_def by (auto simp: fold_see R F)
  have cur: "cur \<in> component ss name" "cur \<in> set (sr_visited s)"
    using s q by (auto simp: searching_def)
  show ?thesis
    unfolding searching_def
  proof (intro conjI)
    show "set (sr_visited ?e) \<subseteq> component ss name"
      using s cur(1) component_step unfolding v searching_def by blast
    show "set (sr_queue ?e) \<subseteq> set (sr_visited ?e)"
      using s q unfolding v qu searching_def by auto
    show "\<forall>(d, n) \<in> set (sr_edges ?e). edge ss d n \<and> d \<in> component ss name"
      using s cur(1) component_step unfolding e searching_def by blast
    show "\<forall>d n. edge ss d n \<longrightarrow> d \<in> set (sr_visited ?e) - set (sr_queue ?e) \<or> n \<in> set (sr_visited ?e) - set (sr_queue ?e)
        \<longrightarrow> (d, n) \<in> set (sr_edges ?e) \<and> d \<in> set (sr_visited ?e) \<and> n \<in> set (sr_visited ?e)"
    proof (intro allI impI)
      fix d n
      assume dn: "edge ss d n" "d \<in> set (sr_visited ?e) - set (sr_queue ?e) \<or> n \<in> set (sr_visited ?e) - set (sr_queue ?e)"
      then consider "d = cur" | "n = cur" | "d \<in> set (sr_visited s) - set (sr_queue s) \<or> n \<in> set (sr_visited s) - set (sr_queue s)"
        unfolding v qu q by auto
      then show "(d, n) \<in> set (sr_edges ?e) \<and> d \<in> set (sr_visited ?e) \<and> n \<in> set (sr_visited ?e)"
      proof cases
        case 3
        then have "(d, n) \<in> set (sr_edges s) \<and> d \<in> set (sr_visited s) \<and> n \<in> set (sr_visited s)"
          using s dn(1) unfolding searching_def by blast
        then show ?thesis unfolding v e by blast
      qed (use dn(1) cur(2) in \<open>auto simp: v e\<close>)
    qed
    show "name \<in> set (sr_visited ?e)" using s unfolding v searching_def by blast
    show "distinct (sr_visited ?e)" "distinct (sr_edges ?e)"
      using s unfolding expand_def searching_def by (auto intro!: fold_see_distinct)
  qed
qed

lemma searching_loop:
  fixes ss
  defines "sd \<equiv> map (\<lambda>s. (sc_name s, sc_depends_on s)) ss"
  shows "searching ss name s \<Longrightarrow>
    searching ss name (search_loop (forward_map sd) (reverse_map sd) s) \<and> sr_queue (search_loop (forward_map sd) (reverse_map sd) s) = []"
proof (induction "forward_map sd" "reverse_map sd" s rule: search_loop.induct)
  case (1 s)
  show ?case
  proof (cases "sr_queue s")
    case Nil
    then show ?thesis using 1(2) by (simp add: search_loop.simps [of _ _ s])
  next
    case (Cons cur rest)
    then show ?thesis
      using 1(1) [OF Cons] searching_expand [OF 1(2) Cons] by (simp add: search_loop.simps [of _ _ s] sd_def)
  qed
qed

lemma search_from_component:
  fixes ss
  defines "sd \<equiv> map (\<lambda>s. (sc_name s, sc_depends_on s)) ss"
  shows "set (sr_visited (search_from sd name)) = component ss name"
    "set (sr_edges (search_from sd name)) = {(d, n). edge ss d n \<and> d \<in> component ss name}"
    "distinct (sr_visited (search_from sd name))" "distinct (sr_edges (search_from sd name))"
proof -
  let ?r = "search_from sd name"
  have "searching ss name \<lparr>sr_visited = [name], sr_edges = [], sr_queue = [name]\<rparr>"
    by (simp add: searching_def component_refl)
  from searching_loop [OF this] have s: "searching ss name ?r" and q: "sr_queue ?r = []"
    by (simp_all add: search_from_def sd_def)
  show v: "set (sr_visited ?r) = component ss name"
  proof
    show "component ss name \<subseteq> set (sr_visited ?r)"
      using s q by (intro component_least) (auto simp: searching_def)
  qed (use s in \<open>simp add: searching_def\<close>)
  show "set (sr_edges ?r) = {(d, n). edge ss d n \<and> d \<in> component ss name}"
    using s q v by (fastforce simp: searching_def)
  show "distinct (sr_visited ?r)" "distinct (sr_edges ?r)" using s by (simp_all add: searching_def)
qed

lemma map_sort_key: "map f (sort_key f xs) = sort (map f xs)"
  by (rule properties_for_sort [symmetric]) (simp_all add: image_mset.compositionality)

lemma names_sorted_nodes: "map dn_name (sorted_nodes states ns) = sort ns"
  by (simp add: sorted_nodes_def map_sort_key comp_def dep_node_of_def)

lemma sort_distinct: "distinct xs \<Longrightarrow> sort xs = sorted_list_of_set (set xs)"
  by (simp add: sorted_list_of_set_sort_remdups distinct_remdups_id)

lemma dependents_edges:
  "fst ` {p \<in> set (map (\<lambda>s. (sc_name s, sc_depends_on s)) ss). (case p of (_, deps) \<Rightarrow> list_ex (\<lambda>d. d = name) deps)} = {n. edge ss name n}"
  by (force simp: edge_def list_ex_iff)

lemma describe_graph_spec:
  assumes "st_name (ds_status ds) = name"
  shows "map dn_name (sd_dep_nodes (describe_graph ds ra svc ss src)) = sorted_list_of_set (component ss name)"
    "sd_dep_edges (describe_graph ds ra svc ss src) = sorted_list_of_set {(d, n). edge ss d n \<and> d \<in> component ss name}"
    "map dn_name (sd_depends_on (describe_graph ds ra svc ss src)) = sort (sc_depends_on svc)"
    "dn_name ` set (sd_dependents (describe_graph ds ra svc ss src)) = {n. edge ss name n}"
    "sd_events (describe_graph ds ra svc ss src) = ds_events ds"
proof -
  note found = search_from_component [of ss name]
  show "map dn_name (sd_dep_nodes (describe_graph ds ra svc ss src)) = sorted_list_of_set (component ss name)"
    "sd_dep_edges (describe_graph ds ra svc ss src) = sorted_list_of_set {(d, n). edge ss d n \<and> d \<in> component ss name}"
    using assms by (simp_all only: describe_graph_def Let_def service_describe.simps names_sorted_nodes sort_distinct found)
  have "dn_name ` set (sd_dependents (describe_graph ds ra svc ss src)) = set (map dn_name (sd_dependents (describe_graph ds ra svc ss src)))"
    by simp
  also have "\<dots> = {n. edge ss name n}"
    unfolding describe_graph_def Let_def service_describe.simps names_sorted_nodes
    using assms by (simp add: dependents_edges [symmetric])
  finally show "dn_name ` set (sd_dependents (describe_graph ds ra svc ss src)) = {n. edge ss name n}" .
qed (simp_all add: describe_graph_def Let_def names_sorted_nodes)

lemma describe_runtime_Inr:
  "describe_runtime fmt name w = Inr ds \<Longrightarrow> st_name (ds_status ds) = name \<and> length (ds_events ds) \<le> EVENT_RETURN"
  by (auto simp: describe_runtime_def make_status_def split: option.splits)

lemma describe_result:
  assumes "stable e (\<lambda>w. w_config w = c)" "w_config w = c" "describe dm name out e w = Ret (Inr d) w'"
  shows "\<exists>ds ra svc src. describe_runtime (dm_fmt dm) name (others e w) = Inr ds \<and> get c name = Some svc
    \<and> d = describe_graph ds ra svc (cfg_services c) src"
proof -
  have c: "w_config (others e v) = c" if "w_config v = c" for v using assms(1) that by (simp add: stable_def)
  have w1: "w_config (others e w) = c" by (rule c) (rule assms(2))
  note w2 = c [OF w1] and w3 = c [OF c [OF w1]]
  show ?thesis
    using assms(3) w1 w2 w3
    by (auto simp: describe_def bind_def reads_def atomic_simp split: sum.splits option.splits)
qed

section \<open>Properties\<close>

text \<open>
  C17: \<open>describe\<close> shows the dependency graph around a service. While nobody reloads the configuration, the nodes are
  exactly the services connected to it by dependencies in either direction, sorted by name without repetition; the
  edges are all dependencies among them; the direct dependencies and dependents are those configured; and there are
  at most 16 events.
\<close>

theorem describe_shows_component:
  assumes "stable e (\<lambda>w. w_config w = c)" "w_config w = c" "describe dm name out e w = Ret (Inr d) w'"
  shows "map dn_name (sd_dep_nodes d) = sorted_list_of_set (component (cfg_services c) name)
    \<and> sd_dep_edges d = sorted_list_of_set {(a, b). edge (cfg_services c) a b \<and> a \<in> component (cfg_services c) name}
    \<and> (\<exists>svc. get c name = Some svc \<and> map dn_name (sd_depends_on d) = sort (sc_depends_on svc))
    \<and> dn_name ` set (sd_dependents d) = {n. edge (cfg_services c) name n}
    \<and> length (sd_events d) \<le> EVENT_RETURN"
proof -
  obtain ds ra svc src where ds: "describe_runtime (dm_fmt dm) name (others e w) = Inr ds" and svc: "get c name = Some svc"
    and d: "d = describe_graph ds ra svc (cfg_services c) src"
    using describe_result [OF assms] by blast
  show ?thesis
    unfolding d using describe_runtime_Inr [OF ds] describe_graph_spec [of ds name ra svc "cfg_services c" src] svc by simp
qed

definition demo_pair :: "service_config list" where
  "demo_pair = [demo_service\<lparr>sc_depends_on := [''db'']\<rparr>, default_service_config ''db'', default_service_config ''alone'']"

definition demo_pair_world :: world where
  "demo_pair_world = demo_run_world\<lparr>w_config := demo_config\<lparr>cfg_services := demo_pair\<rparr>\<rparr>"

definition demo_daemon :: "unit daemon" where
  "demo_daemon = \<lparr>dm_config_path = ''/c'', dm_dropins_dir = ''/d'', dm_started_at = 0, dm_mode = ModeInit, dm_pid = 1, dm_hostname = ''h'',
     dm_version = \<lparr>vi_version = ''1'', vi_tag_commit = [], vi_build_commit = [], vi_build_time = []\<rparr>, dm_tree = (\<lambda>_. None),
     dm_proc = (\<lambda>_ _. Inl ''none''), dm_fmt = int_str,
     dm_value = \<lparr>vo_parse = (\<lambda>_. Inr ()), vo_services = (\<lambda>_. None), vo_name = (\<lambda>_. None)\<rparr>,
     dm_penv = [], dm_otel_file = (\<lambda>_. [])\<rparr>"

lemma demo_pair_edges: "edge demo_pair a b \<longleftrightarrow> a = ''db'' \<and> b = ''web''"
  by (auto simp: edge_def demo_pair_def demo_service_def default_service_config_def)

lemma demo_pair_component: "component demo_pair ''web'' = {''db'', ''web''}"
proof
  show "component demo_pair ''web'' \<subseteq> {''db'', ''web''}" by (rule component_least) (auto simp: demo_pair_edges)
  show "{''db'', ''web''} \<subseteq> component demo_pair ''web''"
    using component_refl component_step [OF component_refl, of demo_pair "''web''" "''db''"] by (simp add: demo_pair_edges)
qed

lemma demo_describe: "\<exists>d w'. describe demo_daemon ''web'' Human demo_env demo_pair_world = Ret (Inr d) w'"
  by (simp add: describe_def demo_others demo_pair_world_def demo_run_world_def demo_world_def describe_runtime_def
      get_def demo_pair_def bind_def atomic_simp)

theorem describe_shows_component_witness:
  "\<exists>d w'. describe demo_daemon ''web'' Human demo_env demo_pair_world = Ret (Inr d) w'
    \<and> map dn_name (sd_dep_nodes d) = [''db'', ''web''] \<and> sd_dep_edges d = [(''db'', ''web'')]"
proof -
  obtain d w' where d: "describe demo_daemon ''web'' Human demo_env demo_pair_world = Ret (Inr d) w'"
    using demo_describe by blast
  have st: "stable demo_env (\<lambda>w. w_config w = demo_config\<lparr>cfg_services := demo_pair\<rparr>)"
    by (simp add: stable_def demo_others)
  have w: "w_config demo_pair_world = demo_config\<lparr>cfg_services := demo_pair\<rparr>" by (simp add: demo_pair_world_def)
  have "{(a, b). edge demo_pair a b \<and> a \<in> {''db'', ''web''}} = {(''db'', ''web'')}" by (auto simp: demo_pair_edges)
  moreover have "sorted_list_of_set {''db'', ''web''} = [''db'', ''web'']" by code_simp
  ultimately show ?thesis
    using describe_shows_component [OF st w d] d by (simp add: demo_pair_component)
qed

end
