(* ===== verification/Signals.thy ===== *)
theory Signals
  imports Protocol Reaper
begin

text \<open>
  Signals of PID 1 (\<open>src/src/signals.rs\<close>) and the final system calls (\<open>src/src/shutdown.rs\<close>). The two atomics are a
  record; a handler is one store, \<open>swap\<close> one step. \<open>waitpid\<close> is the list of its answers. A call that ends the process is
  an event of the trace \<open>final_call\<close>.
\<close>

section \<open>Pending requests\<close>

definition SHUT_NONE :: u8 where "SHUT_NONE = 0"
definition SHUT_REBOOT :: u8 where "SHUT_REBOOT = 1"
definition SHUT_POWEROFF :: u8 where "SHUT_POWEROFF = 2"
definition SHUT_HALT :: u8 where "SHUT_HALT = 3"

lemmas shut_defs = SHUT_NONE_def SHUT_REBOOT_def SHUT_POWEROFF_def SHUT_HALT_def

record sig_flags =
  sf_shutdown :: u8
  sf_sigchld :: bool

definition initial_flags :: sig_flags where
  "initial_flags = \<lparr>sf_shutdown = SHUT_NONE, sf_sigchld = False\<rparr>"

definition handle_sigchld :: "sig_flags \<Rightarrow> sig_flags" where
  "handle_sigchld f = f\<lparr>sf_sigchld := True\<rparr>"

definition handle_reboot :: "sig_flags \<Rightarrow> sig_flags" where
  "handle_reboot f = f\<lparr>sf_shutdown := SHUT_REBOOT\<rparr>"

definition handle_halt :: "sig_flags \<Rightarrow> sig_flags" where
  "handle_halt f = f\<lparr>sf_shutdown := SHUT_HALT\<rparr>"

definition handle_poweroff :: "sig_flags \<Rightarrow> sig_flags" where
  "handle_poweroff f = f\<lparr>sf_shutdown := SHUT_POWEROFF\<rparr>"

datatype os_signal = OsChld | OsTerm | OsInt | OsUsr1 | OsUsr2

datatype handler = HSigchld | HReboot | HHalt | HPoweroff

fun run_handler :: "handler \<Rightarrow> sig_flags \<Rightarrow> sig_flags" where
  "run_handler HSigchld = handle_sigchld"
| "run_handler HReboot = handle_reboot"
| "run_handler HHalt = handle_halt"
| "run_handler HPoweroff = handle_poweroff"

type_synonym dispositions = "(os_signal \<times> handler) list"

text \<open>Successive \<open>sigaction(..)?\<close>; \<open>refuse\<close> is the error of a call that fails.\<close>

fun install_all :: "(os_signal \<Rightarrow> string option) \<Rightarrow> (os_signal \<times> handler) list \<Rightarrow> dispositions \<Rightarrow> dispositions \<times> (string + unit)" where
  "install_all refuse [] d = (d, Inr ())"
| "install_all refuse ((s, h) # hs) d =
     (case refuse s of Some e \<Rightarrow> (d, Inl e) | None \<Rightarrow> install_all refuse hs ((s, h) # d))"

definition install_handlers :: "(os_signal \<Rightarrow> string option) \<Rightarrow> dispositions \<Rightarrow> dispositions \<times> (string + unit)" where
  "install_handlers refuse d =
     install_all refuse
       [(OsChld, HSigchld), (OsTerm, HReboot), (OsInt, HReboot), (OsUsr1, HHalt), (OsUsr2, HPoweroff)] d"

text \<open>A signal runs the handler installed for it; without one its default action applies, which is not ours.\<close>

definition deliver :: "dispositions \<Rightarrow> os_signal \<Rightarrow> sig_flags \<Rightarrow> sig_flags" where
  "deliver d s f = (case map_of d s of Some h \<Rightarrow> run_handler h f | None \<Rightarrow> f)"

fun mode_to_flag :: "shutdown_mode \<Rightarrow> u8" where
  "mode_to_flag Reboot = SHUT_REBOOT"
| "mode_to_flag Poweroff = SHUT_POWEROFF"
| "mode_to_flag Halt = SHUT_HALT"

definition flag_to_mode :: "u8 \<Rightarrow> shutdown_mode option" where
  "flag_to_mode flag =
     (if flag = SHUT_REBOOT then Some Reboot
      else if flag = SHUT_POWEROFF then Some Poweroff
      else if flag = SHUT_HALT then Some Halt
      else None)"

definition take_shutdown :: "sig_flags \<Rightarrow> shutdown_mode option \<times> sig_flags" where
  "take_shutdown f = (flag_to_mode (sf_shutdown f), f\<lparr>sf_shutdown := SHUT_NONE\<rparr>)"

definition request_shutdown :: "shutdown_mode \<Rightarrow> sig_flags \<Rightarrow> sig_flags" where
  "request_shutdown mode f = f\<lparr>sf_shutdown := mode_to_flag mode\<rparr>"

definition sigchld_pending :: "sig_flags \<Rightarrow> bool \<times> sig_flags" where
  "sigchld_pending f = (sf_sigchld f, f\<lparr>sf_sigchld := False\<rparr>)"

section \<open>Reaping\<close>

text \<open>\<open>128i32.saturating_add(sig as i32)\<close>\<close>

definition signal_exit_code :: "i32 \<Rightarrow> i32" where
  "signal_exit_code sig = min (128 + sig) (2 ^ 31 - 1)"

datatype wait_answer =
    WaitExited i32 i32
  | WaitSignaled i32 i32
  | WaitStillAlive
  | WaitOther
  | WaitError string

fun reap_zombies :: "wait_answer list \<Rightarrow> (i32 \<times> i32) list" where
  "reap_zombies [] = []"
| "reap_zombies (WaitExited pid code # ws) = (pid, code) # reap_zombies ws"
| "reap_zombies (WaitSignaled pid sig # ws) = (pid, signal_exit_code sig) # reap_zombies ws"
| "reap_zombies (WaitStillAlive # ws) = []"
| "reap_zombies (WaitOther # ws) = reap_zombies ws"
| "reap_zombies (WaitError e # ws) = []"

section \<open>The end of the process\<close>

datatype reboot_mode = RB_AUTOBOOT | RB_POWER_OFF | RB_HALT_SYSTEM

datatype final_call = CallSync | CallReboot reboot_mode | CallExit i32 | Stderr string

fun reboot_arg :: "shutdown_mode \<Rightarrow> reboot_mode" where
  "reboot_arg Reboot = RB_AUTOBOOT"
| "reboot_arg Poweroff = RB_POWER_OFF"
| "reboot_arg Halt = RB_HALT_SYSTEM"

definition invoke_reboot :: "shutdown_mode \<Rightarrow> final_call list" where
  "invoke_reboot mode = [CallReboot (reboot_arg mode)]"

text \<open>\<open>finalize\<close>; \<open>returns\<close> tells whether \<open>reboot(2)\<close> returns, that is, fails.\<close>

definition finalize :: "nat \<Rightarrow> bool \<Rightarrow> shutdown_mode \<Rightarrow> final_call list" where
  "finalize pid returns mode =
     [CallSync] @
     (if pid \<noteq> 1 then [CallExit 0]
      else invoke_reboot mode @
        (if returns
         then [Stderr (''microinit: reboot('' @ shutdown_mode_str mode @ '') failed; exiting''), CallExit 1]
         else []))"

section \<open>Requests are neither lost nor repeated\<close>

text \<open>What happens to the flags: a signal arrives or a client asks for a shutdown.\<close>

datatype flag_event = Arrives os_signal | Asked shutdown_mode

definition flag_step :: "dispositions \<Rightarrow> sig_flags \<Rightarrow> flag_event \<Rightarrow> sig_flags" where
  "flag_step d f ev = (case ev of Arrives s \<Rightarrow> deliver d s f | Asked mode \<Rightarrow> request_shutdown mode f)"

definition event_mode :: "flag_event \<Rightarrow> shutdown_mode option" where
  "event_mode ev =
     (case ev of
        Asked mode \<Rightarrow> Some mode
      | Arrives OsTerm \<Rightarrow> Some Reboot
      | Arrives OsInt \<Rightarrow> Some Reboot
      | Arrives OsUsr1 \<Rightarrow> Some Halt
      | Arrives OsUsr2 \<Rightarrow> Some Poweroff
      | Arrives OsChld \<Rightarrow> None)"

lemma flag_to_mode_simps [simp]:
  "flag_to_mode (mode_to_flag mode) = Some mode" "flag_to_mode SHUT_NONE = None"
  "flag_to_mode SHUT_REBOOT = Some Reboot" "flag_to_mode SHUT_HALT = Some Halt" "flag_to_mode SHUT_POWEROFF = Some Poweroff"
  by (cases mode; simp add: flag_to_mode_def shut_defs)+

lemma install_handlers_Inr:
  "install_handlers refuse d = (d', Inr ()) \<Longrightarrow>
     map_of d' OsChld = Some HSigchld \<and> map_of d' OsTerm = Some HReboot \<and> map_of d' OsInt = Some HReboot
     \<and> map_of d' OsUsr1 = Some HHalt \<and> map_of d' OsUsr2 = Some HPoweroff"
  by (auto simp: install_handlers_def split: option.splits)

lemma flag_step_mode:
  assumes "install_handlers refuse d = (d', Inr ())"
  shows "flag_to_mode (sf_shutdown (flag_step d' f ev)) =
    (case event_mode ev of Some mode \<Rightarrow> Some mode | None \<Rightarrow> flag_to_mode (sf_shutdown f))"
proof (cases ev)
  case (Arrives s)
  then show ?thesis
    using install_handlers_Inr [OF assms]
    by (cases s) (simp_all add: flag_step_def deliver_def event_mode_def handle_sigchld_def handle_reboot_def handle_halt_def
        handle_poweroff_def)
qed (simp add: flag_step_def request_shutdown_def event_mode_def)

lemma flags_mode:
  assumes "install_handlers refuse d = (d', Inr ())"
  shows "flag_to_mode (sf_shutdown (foldl (flag_step d') f evs)) =
    (case rev (List.map_filter event_mode evs) of mode # _ \<Rightarrow> Some mode | [] \<Rightarrow> flag_to_mode (sf_shutdown f))"
  by (induction evs rule: rev_induct) (simp_all add: List.map_filter_def flag_step_mode [OF assms] split: option.split)

text \<open>
  A shutdown request is neither lost nor taken twice. With the handlers installed, after any sequence of signals
  and client requests the next \<open>take_shutdown\<close> yields the mode of the last event that asked for a shutdown (SIGTERM and
  SIGINT reboot, SIGUSR1 halts, SIGUSR2 powers off), or what was pending before if none did; the one after it yields
  nothing.
\<close>

theorem shutdown_request_taken_once:
  assumes "install_handlers refuse d = (d', Inr ())"
  shows "let (r, f') = take_shutdown (foldl (flag_step d') f evs) in
    r = (case rev (List.map_filter event_mode evs) of mode # _ \<Rightarrow> Some mode | [] \<Rightarrow> flag_to_mode (sf_shutdown f))
    \<and> fst (take_shutdown f') = None"
  using flags_mode [OF assms, of f evs] by (simp add: take_shutdown_def)

theorem shutdown_request_taken_once_witness:
  "fst (take_shutdown (foldl (flag_step (fst (install_handlers (\<lambda>_. None) []))) initial_flags
     [Asked Reboot, Arrives OsUsr2, Arrives OsChld])) = Some Poweroff"
  using shutdown_request_taken_once [of "\<lambda>_. None" "[]" "fst (install_handlers (\<lambda>_. None) [])" initial_flags
    "[Asked Reboot, Arrives OsUsr2, Arrives OsChld]"]
  by (simp add: install_handlers_def List.map_filter_def event_mode_def split_beta)

section \<open>An exit reaches the monitor\<close>

lemma publish_all:
  "om_wf m \<Longrightarrow> length m + length kvs \<le> MAX_EXIT_REGISTRY_ENTRIES \<Longrightarrow> reaper_turn victim kvs m = om_insert_all kvs m"
proof (induction kvs arbitrary: m)
  case (Cons kv kvs)
  obtain pid code where kv: "kv = (pid, code)" by (cases kv)
  have p: "exits_publish victim pid code m = om_insert pid code m" using Cons.prems(2) by (simp add: exits_publish_def)
  have "length (om_insert pid code m) \<le> Suc (length m)"
    using Cons.prems(1) by (simp add: length_om_insert)
  then show ?case
    using Cons.IH [of "om_insert pid code m"] Cons.prems p by (simp add: kv reaper_turn_def)
qed (simp add: reaper_turn_def)

lemma length_reap: "length (reap_zombies ws) \<le> length ws"
  by (induction ws rule: reap_zombies.induct) simp_all



end
