(* ===== verification/Ipc.thy ===== *)
theory Ipc
  imports Describe Signals
begin

text \<open>
  The control socket: what \<open>src/src/ipc.rs\<close> asks of the daemon library when it binds the socket and what it replies to
  clients that are refused, and the handler of requests (\<open>handle_ipc\<close> in \<open>src/src/init.rs\<close>). The frame codec and the
  accept loop belong to the library \<open>bigfred_shared_daemon\<close>: a stream is the list of the responses written so far with
  the failure, if any, of each write. A handler is a thread of its own; its two endless loops take the number of turns.
\<close>

section \<open>Binding\<close>

record bind_options =
  bo_path :: path
  bo_mode :: nat
  bo_chown :: "(nat \<times> nat) option"
  bo_process_name :: string

record accept_policy =
  ap_daemon_uid :: nat
  ap_allow_uids :: "nat list"
  ap_max_clients :: "nat option"
  ap_max_frame :: nat

text \<open>\<open>IpcAllow::default\<close> for the current uid.\<close>

definition default_ipc_allow :: "nat \<Rightarrow> ipc_allow" where
  "default_ipc_allow uid = \<lparr>al_daemon_uid = uid, al_allow_uids = [], al_socket_gid = None\<rparr>"

text \<open>What \<open>serve\<close> hands to \<open>serve_background\<close>; \<open>0o600\<close> is 384 and \<open>0o660\<close> is 432.\<close>

definition serve :: "path \<Rightarrow> ipc_allow \<Rightarrow> (bind_options \<times> accept_policy) res" where
  "serve socket_path allow =
     res_bind
       (if al_allow_uids allow = [] then Inr (384, None)
        else (case al_socket_gid allow of
                None \<Rightarrow> Inl (ErrConfig ''socketAllowUsers set but no socket group could be resolved'')
              | Some gid \<Rightarrow> Inr (432, Some (al_daemon_uid allow, gid)))) (\<lambda>(mode, chown).
     Inr (\<lparr>bo_path = socket_path, bo_mode = mode, bo_chown = chown, bo_process_name = ''microinit''\<rparr>,
          \<lparr>ap_daemon_uid = al_daemon_uid allow, ap_allow_uids = al_allow_uids allow, ap_max_clients = Some MAX_IPC_CLIENTS,
           ap_max_frame = MAX_IPC_FRAME_BYTES\<rparr>))"

datatype bind_error = AlreadyRunning string string | BindIo path string

fun map_bind :: "bind_error \<Rightarrow> error" where
  "map_bind (AlreadyRunning process_name location) = ErrIpc (process_name @ '' already running at '' @ location)"
| "map_bind (BindIo p e) = ErrIoPath p e"

text \<open>The commands in the order \<open>handler_router\<close> adds them, and the \<open>type\<close> tag of each request.\<close>

definition handler_router :: "string list" where
  "handler_router = [''list'', ''start'', ''stop'', ''restart'', ''status'', ''describe'', ''enable'', ''logs'', ''info'', ''shutdown'', ''watch'']"

fun request_tag :: "request \<Rightarrow> string" where
  "request_tag ReqList = ''list''"
| "request_tag (ReqStart _ _) = ''start''"
| "request_tag (ReqStop _) = ''stop''"
| "request_tag (ReqRestart _) = ''restart''"
| "request_tag (ReqStatus _) = ''status''"
| "request_tag (ReqDescribe _ _) = ''describe''"
| "request_tag (ReqEnable _ _) = ''enable''"
| "request_tag (ReqLogs _ _ _) = ''logs''"
| "request_tag ReqInfo = ''info''"
| "request_tag (ReqShutdown _) = ''shutdown''"
| "request_tag (ReqWatch _) = ''watch''"

section \<open>Replies\<close>

record 'j stream =
  sm_sent :: "'j response list"
  sm_fail :: "nat \<Rightarrow> string option"

text \<open>\<open>write_frame\<close>; a failing write is reported as \<open>Error::Ipc\<close> (\<open>map_frame\<close>).\<close>

definition write_frame :: "'j response \<Rightarrow> 'j stream \<Rightarrow> 'j stream \<times> unit res" where
  "write_frame r s =
     (case sm_fail s (length (sm_sent s)) of
        Some e \<Rightarrow> (s, Inl (ErrIpc e))
      | None \<Rightarrow> (s\<lparr>sm_sent := sm_sent s @ [r]\<rparr>, Inr ()))"

datatype reject_reason = RejectAuth | RejectBusy

definition unknown_reply :: "string \<Rightarrow> 'j response" where
  "unknown_reply type_name = RespError (''unknown variant `'' @ type_name @ ''`'') None"

definition error_reply :: "string \<Rightarrow> 'j response" where
  "error_reply err = RespError err None"

fun reject_reply :: "reject_reason \<Rightarrow> 'j response" where
  "reject_reply RejectAuth = RespError ''permission denied'' (Some ''permission_denied'')"
| "reject_reply RejectBusy =
     RespError (''too many concurrent IPC clients (max '' @ nat_str MAX_IPC_CLIENTS @ '')'') (Some ''busy'')"

definition error_response :: "error \<Rightarrow> 'j response" where
  "error_response e = RespError (error_to_string e) (error_code e)"

text \<open>
  What a handler leaves: the stream, the shutdown it requested, and its result, or \<open>None\<close> while it is still streaming.
\<close>

type_synonym 'j handled = "'j stream \<times> shutdown_mode option \<times> unit res option"

definition say :: "'j response \<Rightarrow> 'j stream \<Rightarrow> 'j handled" where
  "say r s = (let (s', res) = write_frame r s in (s', None, Some res))"

definition respond_start :: "string res \<Rightarrow> 'j stream \<Rightarrow> 'j handled" where
  "respond_start res = say (case res of Inr message \<Rightarrow> RespOk (Some message) | Inl e \<Rightarrow> error_response e)"

definition respond_result :: "unit res \<Rightarrow> 'j stream \<Rightarrow> 'j handled" where
  "respond_result res = say (case res of Inr _ \<Rightarrow> RespOk None | Inl e \<Rightarrow> error_response e)"

section \<open>Streaming\<close>

text \<open>
  Blocking with a deadline on a condition variable or channel: \<open>poll\<close> yields what is there, if anything.
\<close>

function await :: "(world \<Rightarrow> ('a \<times> world) option) \<Rightarrow> millis \<Rightarrow> env \<Rightarrow> world \<Rightarrow> 'a option outcome" where
  "await poll deadline e w =
     (case poll w of
        Some (x, w') \<Rightarrow> Ret (Some x) w'
      | None \<Rightarrow>
          if w_now w \<ge> deadline then Ret None w
          else (case cv_wait (deadline - w_now w) e w of
                  Ret True w' \<Rightarrow> (case poll w' of Some (x, w'') \<Rightarrow> Ret (Some x) w'' | None \<Rightarrow> Ret None w')
                | Ret False w' \<Rightarrow> await poll deadline e w'
                | Panic s \<Rightarrow> Panic s))"
  by pat_completeness auto
termination
proof (relation "measure (\<lambda>(poll, deadline, e, w). deadline - w_now w)", goal_cases)
  case 2
  then show ?case by (auto dest!: cv_wait_False)
qed simp

declare await.simps [simp del]

definition await_for :: "(world \<Rightarrow> ('a \<times> world) option) \<Rightarrow> millis \<Rightarrow> 'a option prog" where
  "await_for poll d = bind (reads w_now) (\<lambda>now. bind (reads (\<lambda>_. ())) (\<lambda>_. await poll (now + d)))"

text \<open>A line of a follower's channel, or \<open>None\<close> when the hub has dropped the sender.\<close>

definition poll_log :: "nat \<Rightarrow> world \<Rightarrow> (log_line option \<times> world) option" where
  "poll_log rx w =
     (case om_get (lh_channels (w_hub w)) rx of
        Some (l # ls) \<Rightarrow> Some (Some l, w\<lparr>w_hub := (w_hub w)\<lparr>lh_channels := om_insert rx ls (lh_channels (w_hub w))\<rparr>\<rparr>)
      | _ \<Rightarrow> if rx \<in> set (lh_followers (w_hub w)) then None else Some (None, w))"

definition poll_watch :: "nat \<Rightarrow> u64 \<Rightarrow> world \<Rightarrow> (wait_outcome \<times> world) option" where
  "poll_watch sub seen w =
     (case find (\<lambda>f. fo_id f = sub) (wh_followers (w_watch w)) of
        Some f \<Rightarrow> map_option (\<lambda>r. (r, w)) (slot_ready seen (fo_slot f))
      | None \<Rightarrow> None)"

fun send_lines :: "log_line list \<Rightarrow> 'j stream \<Rightarrow> 'j stream \<times> unit res" where
  "send_lines [] s = (s, Inr ())"
| "send_lines (l # ls) s =
     (case write_frame (RespLog l) s of (s', Inr _) \<Rightarrow> send_lines ls s' | (s', Inl e) \<Rightarrow> (s', Inl e))"

text \<open>The two loops: the stream and whether the client is gone.\<close>

definition LOG_HEARTBEAT :: millis where "LOG_HEARTBEAT = secs 10"

fun follow_logs :: "nat \<Rightarrow> string option \<Rightarrow> nat \<Rightarrow> 'j stream \<Rightarrow> ('j stream \<times> bool) prog" where
  "follow_logs 0 name rx s = ret (s, False)"
| "follow_logs (Suc n) name rx s =
     bind (await_for (poll_log rx) LOG_HEARTBEAT) (\<lambda>r.
     case r of
       Some (Some line) \<Rightarrow>
         if (case name of Some nme \<Rightarrow> ll_service line \<noteq> nme | None \<Rightarrow> False) then follow_logs n name rx s
         else (case write_frame (RespLog line) s of (s', Inl _) \<Rightarrow> ret (s', True) | (s', Inr _) \<Rightarrow> follow_logs n name rx s')
     | None \<Rightarrow> (case write_frame RespHeartbeat s of (s', Inl _) \<Rightarrow> ret (s', True) | (s', Inr _) \<Rightarrow> follow_logs n name rx s')
     | Some None \<Rightarrow> ret (s, True))"

fun watch_loop :: "nat \<Rightarrow> nat \<Rightarrow> u64 \<Rightarrow> 'j stream \<Rightarrow> ('j stream \<times> bool) prog" where
  "watch_loop 0 sub seen s = ret (s, False)"
| "watch_loop (Suc n) sub seen s =
     bind (await_for (poll_watch sub seen) WATCH_HEARTBEAT) (\<lambda>r.
     case r of
       Some (Snapshot gen services) \<Rightarrow>
         (case write_frame (RespList services) s of (s', Inl _) \<Rightarrow> ret (s', True) | (s', Inr _) \<Rightarrow> watch_loop n sub gen s')
     | _ \<Rightarrow>
         (case write_frame RespHeartbeat s of (s', Inl _) \<Rightarrow> ret (s', True) | (s', Inr _) \<Rightarrow> watch_loop n sub seen s'))"

section \<open>The handler\<close>

definition handle_logs :: "nat \<Rightarrow> nat \<Rightarrow> string option \<Rightarrow> bool \<Rightarrow> nat option \<Rightarrow> 'j stream \<Rightarrow> 'j handled prog" where
  "handle_logs turns lines_default name follow lines s =
     (let n = (case lines of Some k \<Rightarrow> k | None \<Rightarrow> lines_default) in
      bind (reads (\<lambda>w. case name of Some nme \<Rightarrow> snapshot_service (w_hub w) nme n | None \<Rightarrow> snapshot_mixed (w_hub w) n)) (\<lambda>snap.
      case send_lines snap s of
        (s1, Inl e) \<Rightarrow> ret (s1, None, Some (Inl e))
      | (s1, Inr _) \<Rightarrow>
          if follow then
            bind (atomic (\<lambda>e w. let (h, rx) = log_subscribe (w_hub w) in (rx, w\<lparr>w_hub := h\<rparr>))) (\<lambda>rx.
            bind (follow_logs turns name rx s1) (\<lambda>(s2, gone).
            if gone then bind (writes (\<lambda>e w. w\<lparr>w_hub := drop_receiver rx (w_hub w)\<rparr>)) (\<lambda>_. ret (s2, None, Some (Inr ())))
            else ret (s2, None, None)))
          else ret (say (RespOk None) s1)))"

definition handle_watch :: "nat \<Rightarrow> string list \<Rightarrow> 'j stream \<Rightarrow> 'j handled prog" where
  "handle_watch turns label_keys s =
     bind (watch_subscribe label_keys) (\<lambda>r.
     case r of
       None \<Rightarrow> ret (say (RespError (''too many concurrent watch clients (max '' @ nat_str MAX_WATCH_FOLLOWERS @ '')'') (Some ''busy'')) s)
     | Some sub \<Rightarrow>
         bind (watch_loop turns sub 0 s) (\<lambda>(s', gone).
         if gone then bind (writes (\<lambda>e w. w\<lparr>w_watch := watch_drop sub (w_watch w)\<rparr>)) (\<lambda>_. ret (s', None, Some (Inr ())))
         else ret (s', None, None)))"

fun handle_ipc :: "nat \<Rightarrow> 'j daemon \<Rightarrow> nat \<Rightarrow> request \<Rightarrow> 'j stream \<Rightarrow> 'j handled prog" where
  "handle_ipc turns dm lines_default ReqList s =
     bind (reads list_services) (\<lambda>services. ret (say (RespList services) s))"
| "handle_ipc turns dm lines_default (ReqStatus name) s =
     bind (reads (status name)) (\<lambda>r. ret (say (case r of Inr st \<Rightarrow> RespStatus st | Inl e \<Rightarrow> error_response e) s))"
| "handle_ipc turns dm lines_default (ReqDescribe name out) s =
     bind (describe dm name out) (\<lambda>r. ret (say (case r of Inr d \<Rightarrow> RespDescribe d | Inl e \<Rightarrow> error_response e) s))"
| "handle_ipc turns dm lines_default ReqInfo s = bind (info dm) (\<lambda>i. ret (say (RespInfo i) s))"
| "handle_ipc turns dm lines_default (ReqStart name force) s =
     bind (start_service name force) (\<lambda>r. ret (respond_start r s))"
| "handle_ipc turns dm lines_default (ReqStop name) s = bind (stop_service name) (\<lambda>r. ret (respond_result r s))"
| "handle_ipc turns dm lines_default (ReqRestart name) s = bind (restart_service name) (\<lambda>r. ret (respond_result r s))"
| "handle_ipc turns dm lines_default (ReqEnable name enabled) s =
     bind (sup_set_enabled name enabled) (\<lambda>r. ret (respond_result r s))"
| "handle_ipc turns dm lines_default (ReqLogs name follow lines) s = handle_logs turns lines_default name follow lines s"
| "handle_ipc turns dm lines_default (ReqWatch label_keys) s = handle_watch turns label_keys s"
| "handle_ipc turns dm lines_default (ReqShutdown mode) s =
     ret (case write_frame (RespOk None) s of
            (s', Inr _) \<Rightarrow> (s', Some mode, Some (Inr ()))
          | (s', Inl e) \<Rightarrow> (s', None, Some (Inl e)))"

text \<open>
  \<open>dispatch_handler\<close>: the library hands it a body whose tag is registered. Its errors are \<open>IpcError::Other\<close> texts, which
  the error hook sends back.
\<close>

definition dispatch_handler :: "('b \<Rightarrow> string + request) \<Rightarrow> (request \<Rightarrow> 'j stream \<Rightarrow> 'j handled prog) \<Rightarrow> 'b \<Rightarrow> 'j stream
    \<Rightarrow> 'j handled prog" where
  "dispatch_handler from_value handler body s =
     (case from_value body of
        Inl e \<Rightarrow> ret (s, None, Some (Inl (ErrOther e)))
      | Inr req \<Rightarrow> bind (handler req s) (\<lambda>(s', m, r). ret (s', m, map_option (map_err (\<lambda>e. ErrOther (error_to_string e))) r)))"

text \<open>The client's side: connect, one frame out, one frame in.\<close>

definition connect :: "path \<Rightarrow> string + unit \<Rightarrow> unit res" where
  "connect socket_path answer =
     (case answer of
        Inr _ \<Rightarrow> Inr ()
      | Inl e \<Rightarrow> Inl (ErrIpc (''cannot connect to '' @ socket_path @ '': '' @ e @ '' (is microinit init running?)'')))"

definition request_response :: "path \<Rightarrow> string + unit \<Rightarrow> string + unit \<Rightarrow> string + 'j response \<Rightarrow> 'j response res" where
  "request_response socket_path conn sent received =
     res_bind (connect socket_path conn) (\<lambda>_.
     case sent of
       Inl e \<Rightarrow> Inl (ErrIpc e)
     | Inr _ \<Rightarrow> (case received of Inl e \<Rightarrow> Inl (ErrIpc e) | Inr r \<Rightarrow> Inr r))"

section \<open>Streams without failures\<close>

definition healthy :: "'j stream \<Rightarrow> bool" where
  "healthy s = (\<forall>k. sm_fail s k = None)"

lemma healthy_write [simp]: "healthy s \<Longrightarrow> write_frame r s = (s\<lparr>sm_sent := sm_sent s @ [r]\<rparr>, Inr ())"
  by (simp add: healthy_def write_frame_def)

lemma healthy_sent [simp]: "healthy (s\<lparr>sm_sent := xs\<rparr>) = healthy s"
  by (simp add: healthy_def)

lemma healthy_say [simp]: "healthy s \<Longrightarrow> say r s = (s\<lparr>sm_sent := sm_sent s @ [r]\<rparr>, None, Some (Inr ()))"
  by (simp add: say_def)

lemma healthy_send_lines: "healthy s \<Longrightarrow> send_lines ls s = (s\<lparr>sm_sent := sm_sent s @ map RespLog ls\<rparr>, Inr ())"
  by (induction ls arbitrary: s) simp_all

text \<open>Requests answered by one reply, after the lines of a log; the others stream until the client leaves.\<close>

fun one_shot :: "request \<Rightarrow> bool" where
  "one_shot (ReqLogs name follow lines) = (\<not> follow)"
| "one_shot (ReqWatch ks) = False"
| "one_shot _ = True"

fun requested_mode :: "request \<Rightarrow> shutdown_mode option" where
  "requested_mode (ReqShutdown mode) = Some mode"
| "requested_mode _ = None"

fun is_frame :: "'j response \<Rightarrow> bool" where
  "is_frame (RespLog _) = False"
| "is_frame RespHeartbeat = False"
| "is_frame _ = True"

lemma reply_frames [simp]:
  "is_frame (error_response e)"
  "is_frame (case r of Inr st \<Rightarrow> RespStatus st | Inl e \<Rightarrow> error_response e)"
  "is_frame (case d of Inr st \<Rightarrow> RespDescribe st | Inl e \<Rightarrow> error_response e)"
  "is_frame (case m of Inr st \<Rightarrow> RespOk (Some st) | Inl e \<Rightarrow> error_response e)"
  "is_frame (case u of Inr _ \<Rightarrow> RespOk None | Inl e \<Rightarrow> error_response e)"
  by (simp_all add: error_response_def split: sum.split)

text \<open>
  Every request that is not a stream is answered by exactly one closing frame. While the client can be written
  to, the handler returns without error, the frames it adds are log lines followed by one that is neither a log
  line nor a heartbeat, and a shutdown is requested by a shutdown request only.
\<close>

theorem request_answered:
  assumes "healthy s" "one_shot req" "handle_ipc turns dm lines_default req s e w = Ret (s', mode, r) w'"
  shows "r = Some (Inr ()) \<and> mode = requested_mode req
    \<and> (\<exists>ls final. sm_sent s' = sm_sent s @ map RespLog ls @ [final] \<and> is_frame final)"
proof (cases req)
  case (ReqLogs name follow lines)
  then show ?thesis
    using assms by (auto simp: handle_logs_def healthy_send_lines Let_def)
next
  case (ReqWatch ks)
  then show ?thesis using assms(2) by simp
qed (use assms in \<open>auto simp: bind_Ret respond_start_def respond_result_def intro: exI [of _ "[]"]\<close>)


definition quiet_stream :: "unit stream" where
  "quiet_stream = \<lparr>sm_sent = [], sm_fail = (\<lambda>_. None)\<rparr>"

lemma quiet_healthy [simp]: "healthy quiet_stream" "sm_sent quiet_stream = []"
  by (simp_all add: healthy_def quiet_stream_def)

theorem request_answered_witness:
  "\<exists>s' w'. handle_ipc 0 demo_daemon 10 (ReqShutdown Halt) quiet_stream demo_env demo_run_world = Ret (s', Some Halt, Some (Inr ())) w'
    \<and> (\<exists>ls final. sm_sent s' = map RespLog ls @ [final] \<and> is_frame final)"
proof -
  let ?s = "quiet_stream\<lparr>sm_sent := [RespOk None]\<rparr>"
  have h: "handle_ipc 0 demo_daemon 10 (ReqShutdown Halt) quiet_stream demo_env demo_run_world = Ret (?s, Some Halt, Some (Inr ())) demo_run_world"
    by simp
  show ?thesis using request_answered [OF quiet_healthy(1) _ h] h by (intro exI conjI) auto
qed

section \<open>Unknown services\<close>

definition absent :: "string \<Rightarrow> world \<Rightarrow> bool" where
  "absent name w = (om_get (w_runtimes w) name = None \<and> om_get (w_ctl w) name = None \<and> get (w_config w) name = None)"

fun names_service :: "request \<Rightarrow> string option" where
  "names_service (ReqStart name _) = Some name"
| "names_service (ReqStop name) = Some name"
| "names_service (ReqRestart name) = Some name"
| "names_service (ReqStatus name) = Some name"
| "names_service (ReqDescribe name _) = Some name"
| "names_service (ReqEnable name _) = Some name"
| "names_service _ = None"

lemma absent_hub [simp]: "absent name (w\<lparr>w_hub := h\<rparr>) = absent name w"
  by (simp add: absent_def)

lemma absent_stop:
  assumes "stable e (absent name)" "absent name w"
  shows "\<exists>w'. stop_service name e w = Ret (Inl (ErrUnknownService name)) w'"
proof -
  let ?l = "\<lambda>w. w\<lparr>w_hub := emit (e_opens e) (e_ts e (w_tick w)) INIT_SERVICE LvInfo (''request: stop '' @ name) (w_hub w)\<rparr>"
  have "absent name (others e (?l (others e w)))"
    using assms by (intro stableD [OF assms(1)]) (simp add: stableD)
  then show ?thesis by (simp add: stop_service_def log_init_def send_ctl_def atomic_simp absent_def)
qed

text \<open>
  A request that names a service which does not exist (no record, no channel, not in the configuration) is answered
  with the error \<open>unknown service\<close> and the stable code \<open>not_found\<close>, whichever of the six requests it is.
\<close>

theorem unknown_service_not_found:
  assumes "stable e (absent name)" "absent name w" "healthy s" "names_service req = Some name"
  shows "\<exists>w'. handle_ipc turns dm lines_default req s e w =
    Ret (s\<lparr>sm_sent := sm_sent s @ [RespError (''unknown service '' @ quoted name) (Some ''not_found'')]\<rparr>, None, Some (Inr ())) w'"
proof -
  have a: "absent name (others e w)" using assms(1,2) by (rule stableD)
  then have a': "om_get (w_runtimes (others e w)) name = None" "get (w_config (others e w)) name = None" by (simp_all add: absent_def)
  obtain w' where stop: "stop_service name e w = Ret (Inl (ErrUnknownService name)) w'"
    using absent_stop [OF assms(1,2)] by blast
  show ?thesis
    using assms(3,4) a' stop
    by (cases req) (simp_all add: error_response_def respond_start_def respond_result_def status_def describe_def describe_runtime_def
        start_service_def restart_service_def is_enabled_def sup_set_enabled_def config_set_enabled_def atomic_simp bind_def)
qed

theorem unknown_service_not_found_witness:
  "\<exists>w'. handle_ipc 0 demo_daemon 10 (ReqStop ''ghost'') quiet_stream demo_env demo_run_world =
    Ret (quiet_stream\<lparr>sm_sent := sm_sent quiet_stream @ [RespError (''unknown service '' @ quoted ''ghost'') (Some ''not_found'')]\<rparr>,
      None, Some (Inr ())) w'"
proof (rule unknown_service_not_found)
  show "stable demo_env (absent ''ghost'')" by (simp add: stable_def demo_others absent_def)
  show "absent ''ghost'' demo_run_world" by (simp add: absent_def demo_run_world_def demo_world_def get_def)
qed simp_all

section \<open>The invariant of the shared state\<close>

context shared_inv
begin

lemma keeps_await:
  assumes s: "stable e P" and poll: "\<And>w x w'. P w \<Longrightarrow> poll w = Some (x, w') \<Longrightarrow> P w'" and "P w"
  shows "case await poll deadline e w of Ret _ w' \<Rightarrow> P w' | Panic _ \<Rightarrow> True"
  using assms(3)
proof (induction "deadline - w_now w" arbitrary: w rule: less_induct)
  case (less w)
  show ?case
  proof (cases "poll w = None \<and> w_now w < deadline")
    case True
    obtain b w' where cv: "cv_wait (deadline - w_now w) e w = Ret b w'" by (simp add: cv_wait_def atomic_simp)
    have P': "P w'" using hoareD [OF keeps_cv_wait [OF s] less(2) cv] .
    show ?thesis
    proof (cases b)
      case False
      then have "deadline - w_now w' < deadline - w_now w"
        using cv_wait_False [of _ e w w'] cv True by (simp add: diff_less_mono2)
      then show ?thesis using less(1) [OF _ P'] cv True False by (simp add: await.simps [of poll deadline e w])
    next
      case b: True
      have "case await poll deadline e w of Ret _ w' \<Rightarrow> P w' | Panic _ \<Rightarrow> True" if "poll w' = None"
        using that P' cv True b by (simp add: await.simps [of poll deadline e w])
      moreover have "case await poll deadline e w of Ret _ w' \<Rightarrow> P w' | Panic _ \<Rightarrow> True" if "poll w' = Some (x, v)" for x v
        using that poll [OF P' that] cv True b by (simp add: await.simps [of poll deadline e w])
      ultimately show ?thesis by (cases "poll w'") auto
    qed
  next
    case False
    then show ?thesis
      using less(2) poll [OF less(2)] by (cases "poll w") (auto simp: await.simps [of poll deadline e w])
  qed
qed

lemma keeps_await_for:
  "stable e P \<Longrightarrow> (\<And>w x w'. P w \<Longrightarrow> poll w = Some (x, w') \<Longrightarrow> P w') \<Longrightarrow> keeps e P (await_for poll d)"
  unfolding await_for_def
  by (intro keeps_flow, assumption+) (unfold hoare_def, intro allI impI, rule keeps_await, assumption+)

end

lemma sup_ok_hub: "sup_ok w \<Longrightarrow> hub_ok h \<Longrightarrow> sup_ok (w\<lparr>w_hub := h\<rparr>)"
  by (simp add: sup_ok_def channels_ok_def)

lemma sup_ok_watch: "sup_ok w \<Longrightarrow> watch_ok h \<Longrightarrow> sup_ok (w\<lparr>w_watch := h\<rparr>)"
  by (simp add: sup_ok_def channels_ok_def)

lemma sup_ok_parts: "sup_ok w \<Longrightarrow> hub_ok (w_hub w)" "sup_ok w \<Longrightarrow> watch_ok (w_watch w)"
  by (simp_all add: sup_ok_def)

lemma hub_ok_channels:
  "hub_ok h \<Longrightarrow> om_get (lh_channels h) rx = Some q \<Longrightarrow> hub_ok (h\<lparr>lh_channels := om_insert rx q' (lh_channels h)\<rparr>)"
  by (auto simp: hub_ok_def dest!: map_of_SomeD)

lemma hub_ok_drop: "hub_ok h \<Longrightarrow> hub_ok (drop_receiver rx h)"
  by (simp add: hub_ok_def drop_receiver_def set_keys_remove del: set_map)

lemma sup_ok_poll_log: "sup_ok w \<Longrightarrow> poll_log rx w = Some (x, w') \<Longrightarrow> sup_ok w'"
  by (auto simp: poll_log_def sup_ok_hub sup_ok_parts hub_ok_channels split: option.splits list.splits if_splits)

lemma sup_ok_poll_watch: "sup_ok w \<Longrightarrow> poll_watch sub seen w = Some (x, w') \<Longrightarrow> sup_ok w'"
  by (auto simp: poll_watch_def split: option.splits)

lemma keeps_case_write:
  "(\<And>s' err. keeps e P (f s' err)) \<Longrightarrow> (\<And>s' u. keeps e P (g s' u)) \<Longrightarrow>
   keeps e P (case x of (s', Inl err) \<Rightarrow> f s' err | (s', Inr u) \<Rightarrow> g s' u)"
  by (simp split: prod.split sum.split)

lemma keeps_case_write':
  "(\<And>s' err. keeps e P (f s' err)) \<Longrightarrow> (\<And>s' u. keeps e P (g s' u)) \<Longrightarrow>
   keeps e P (case x of (s', Inr u) \<Rightarrow> g s' u | (s', Inl err) \<Rightarrow> f s' err)"
  by (simp split: prod.split sum.split)

lemma keeps_case_prod: "(\<And>a b. keeps e P (f a b)) \<Longrightarrow> keeps e P (case x of (a, b) \<Rightarrow> f a b)"
  by (simp split: prod.split)

lemma keeps_case_outcome: "(\<And>g s. keeps e P (f g s)) \<Longrightarrow> keeps e P m \<Longrightarrow>
   keeps e P (case x of Some (Snapshot g s) \<Rightarrow> f g s | _ \<Rightarrow> m)"
  by (simp split: option.split wait_outcome.split)

lemmas ipc_flow = sup_flow keeps_case_write keeps_case_write' keeps_case_prod keeps_case_outcome

lemma keeps_follow_logs: "stable e sup_ok \<Longrightarrow> keeps e sup_ok (follow_logs n name rx s)"
proof (induction n arbitrary: s)
  case (Suc n)
  have a: "keeps e sup_ok (await_for (poll_log rx) LOG_HEARTBEAT)"
    using Suc.prems sup_ok_poll_log by (rule sup.keeps_await_for)
  show ?case unfolding follow_logs.simps by (intro ipc_flow a Suc)
qed (simp add: keeps_ret)

lemma keeps_watch_loop: "stable e sup_ok \<Longrightarrow> keeps e sup_ok (watch_loop n sub seen s)"
proof (induction n arbitrary: seen s)
  case (Suc n)
  have a: "keeps e sup_ok (await_for (poll_watch sub seen) WATCH_HEARTBEAT)" for seen
    using Suc.prems sup_ok_poll_watch by (rule sup.keeps_await_for)
  show ?case unfolding watch_loop.simps by (intro ipc_flow a Suc)
qed (simp add: keeps_ret)

lemma keeps_handle_logs: "stable e sup_ok \<Longrightarrow> keeps e sup_ok (handle_logs turns d name follow lines s)"
  unfolding handle_logs_def Let_def
  by (intro ipc_flow keeps_follow_logs keeps_atomic keeps_writes; assumption?)
    (auto simp: split_beta intro: sup_ok_hub sup_ok_parts log_subscribe_ok hub_ok_drop)

lemma keeps_handle_watch: "stable e sup_ok \<Longrightarrow> keeps e sup_ok (handle_watch turns ks s)"
  unfolding handle_watch_def
  by (intro ipc_flow keeps_watch_loop keeps_watch_subscribe keeps_writes; assumption?)
    (auto intro: sup_ok_watch sup_ok_parts watch_drop_ok)

lemma keeps_describe: "stable e sup_ok \<Longrightarrow> keeps e sup_ok (describe dm name out)"
  unfolding describe_def by (intro ipc_flow keeps_atomic; assumption?) simp_all

lemma keeps_info: "stable e sup_ok \<Longrightarrow> keeps e sup_ok (info dm)"
  unfolding info_def open_telemetry_def by (intro ipc_flow; assumption)

text \<open>
  C19: no request can break the supervisor's state. Whatever a client sends and however long it stays, its handler
  keeps the invariant of the shared state: the records, the bounded log buffers, at most 16 log followers and 8 watch
  followers, one channel per service.
\<close>

theorem clients_keep_invariant:
  assumes "stable e sup_ok"
  shows "keeps e sup_ok (handle_ipc turns dm lines_default req s)"
  using assms
  by (cases req) (simp_all, (intro ipc_flow keeps_describe keeps_info keeps_handle_logs keeps_handle_watch keeps_sup_set_enabled
      sup.keeps_start_service sup.keeps_stop_service sup.keeps_restart_service; assumption)+)

theorem clients_keep_invariant_witness:
  "keeps demo_env sup_ok (handle_ipc 5 demo_daemon 10 (ReqLogs None True None) quiet_stream)"
proof (rule clients_keep_invariant)
  show "stable demo_env sup_ok" by (simp add: stable_def demo_others sup_ok_def channels_ok_def)
qed

section \<open>Who may connect\<close>

text \<open>
  C25: access to the control socket. Without \<open>socketAllowUsers\<close> the socket has mode 0600 and its owner is left alone. With
  it, a configuration whose users resolve always has a group for the socket: mode 0660, owned by the daemon's uid
  and the group of the first entry; and besides the daemon's uid exactly the uids of the listed users are accepted.
\<close>

theorem socket_access:
  assumes "resolved_ipc_allow db uid cfg = Inr a"
  shows "\<exists>us bo ap. map (\<lambda>raw. user_from_name db (trim raw)) (cfg_socket_allow_users cfg) = map (\<lambda>u. Inr (Some u)) us
    \<and> serve p a = Inr (bo, ap) \<and> ap_daemon_uid ap = uid \<and> ap_allow_uids ap = map pw_uid us
    \<and> (case us of
         [] \<Rightarrow> bo_mode bo = 384 \<and> bo_chown bo = None
       | u # _ \<Rightarrow> bo_mode bo = 432 \<and> bo_chown bo =
           Some (uid, case group_from_name db (trim (hd (cfg_socket_allow_users cfg))) of Inr (Some g) \<Rightarrow> g | _ \<Rightarrow> pw_gid u))"
proof -
  obtain uids gid where loop: "ipc_allow_loop db (cfg_socket_allow_users cfg) [] None = Inr (uids, gid)"
      and a: "a = \<lparr>al_daemon_uid = uid, al_allow_uids = uids, al_socket_gid = gid\<rparr>"
    using assms by (auto simp: resolved_ipc_allow_def res_bind_Inr_iff)
  obtain us where us: "map (\<lambda>raw. user_from_name db (trim raw)) (cfg_socket_allow_users cfg) = map (\<lambda>u. Inr (Some u)) us"
      "uids = map pw_uid us"
    using ipc_allow_loop_result(1) [OF loop] by auto
  note gid = ipc_allow_loop_result(2) [OF loop]
  show ?thesis
  proof (cases us)
    case Nil
    then show ?thesis using us a by (intro exI [of _ us]) (simp add: serve_def)
  next
    case (Cons u us')
    then obtain raw raws where raws: "cfg_socket_allow_users cfg = raw # raws" "user_from_name db (trim raw) = Inr (Some u)"
      using us(1) by (cases "cfg_socket_allow_users cfg") auto
    then show ?thesis using us a gid Cons by (intro exI [of _ us]) (simp add: serve_def split: sum.splits option.splits)
  qed
qed

theorem socket_access_witness:
  "\<exists>a bo ap. resolved_ipc_allow demo_db 0 (demo_config\<lparr>cfg_socket_allow_users := ['' nobody'']\<rparr>) = Inr a
     \<and> serve ''/s'' a = Inr (bo, ap) \<and> ap_daemon_uid ap = 0"
proof -
  have "trim '' nobody'' = ''nobody''" by code_simp
  then obtain a where "resolved_ipc_allow demo_db 0 (demo_config\<lparr>cfg_socket_allow_users := ['' nobody'']\<rparr>) = Inr a"
    by (simp add: resolved_ipc_allow_def demo_db_def Let_def)
  then show ?thesis using socket_access [of demo_db 0 "demo_config\<lparr>cfg_socket_allow_users := ['' nobody'']\<rparr>" a "''/s''"] by blast
qed

end
