(* ===== verification/Otel.thy ===== *)
theory Otel
  imports Ipc
begin

text \<open>
  The metrics exporter (\<open>src/src/otel.rs\<close>): the host's and the services' figures read from \<open>/proc\<close> and the supervisor, the
  OTLP document, the export loop with its pauses. Floating-point operations, the files under \<open>/proc\<close>, the wall clock and the
  HTTP client of the crate \<open>ureq\<close> are arguments. A \<open>u64\<close> is a natural number with its saturation written out.
\<close>

section \<open>The outside\<close>

text \<open>The operations on \<open>f64\<close>: conversion from an integer, division, parsing, \<open>Duration::as_secs_f64\<close>.\<close>

record 'f floats =
  fl_of :: "nat \<Rightarrow> 'f"
  fl_div :: "'f \<Rightarrow> 'f \<Rightarrow> 'f"
  fl_parse :: "string \<Rightarrow> string + 'f"
  fl_secs :: "millis \<Rightarrow> 'f"

datatype 'f jvalue =
    JStr string
  | JFloat 'f
  | JInt nat
  | JBool bool
  | JArr "'f jvalue list"
  | JObj "(string \<times> 'f jvalue) list"

text \<open>An answer of \<open>ureq\<close>: a response, its error for a status, or another error.\<close>

datatype http_answer = HttpOk u16 | HttpStatus u16 | HttpFail string

record 'f otel_sys =
  os_floats :: "'f floats"
  os_read :: "nat \<Rightarrow> path \<Rightarrow> string + string"
  os_ncpu :: "nat \<Rightarrow> nat option"
  os_nanos :: "nat \<Rightarrow> string + nat"
  os_post :: "nat \<Rightarrow> string \<Rightarrow> (string \<times> string) list \<Rightarrow> 'f jvalue \<Rightarrow> http_answer \<times> millis"

definition U64_MAX :: nat where "U64_MAX = 2 ^ 64 - 1"

definition sat_mul64 :: "nat \<Rightarrow> nat \<Rightarrow> nat" where "sat_mul64 a b = min (a * b) U64_MAX"

definition sat_add64 :: "nat \<Rightarrow> nat \<Rightarrow> nat" where "sat_add64 a b = min (a + b) U64_MAX"

text \<open>The operator \<open>?\<close> on computations.\<close>

definition then_ok :: "('e + 'a) prog \<Rightarrow> ('a \<Rightarrow> ('e + 'b) prog) \<Rightarrow> ('e + 'b) prog" where
  "then_ok m f = bind m (\<lambda>r. case r of Inl e \<Rightarrow> ret (Inl e) | Inr x \<Rightarrow> f x)"

definition read_proc :: "'f otel_sys \<Rightarrow> ((path \<Rightarrow> string + string) \<Rightarrow> 'a) \<Rightarrow> 'a prog" where
  "read_proc sys f = reads (\<lambda>w. f (os_read sys (w_tick w)))"

section \<open>Figures of the host\<close>

definition first_number :: "'f floats \<Rightarrow> string \<Rightarrow> string \<Rightarrow> string + 'f" where
  "first_number fl missing data = (case split_whitespace data of tok # _ \<Rightarrow> fl_parse fl tok | [] \<Rightarrow> Inl missing)"

definition read_uptime :: "'f floats \<Rightarrow> (path \<Rightarrow> string + string) \<Rightarrow> string + 'f" where
  "read_uptime fl read = (case read ''/proc/uptime'' of Inl e \<Rightarrow> Inl e | Inr data \<Rightarrow> first_number fl ''empty /proc/uptime'' data)"

definition read_loadavg1 :: "'f floats \<Rightarrow> (path \<Rightarrow> string + string) \<Rightarrow> string + 'f" where
  "read_loadavg1 fl read = (case read ''/proc/loadavg'' of Inl e \<Rightarrow> Inl e | Inr data \<Rightarrow> first_number fl ''empty /proc/loadavg'' data)"

record mem_info =
  mi_total :: nat
  mi_avail :: nat
  mi_free :: nat
  mi_swap_total :: nat
  mi_swap_free :: nat

definition meminfo_line :: "string \<Rightarrow> mem_info \<Rightarrow> mem_info" where
  "meminfo_line l m =
     (let parts = split_whitespace l;
          key = (case parts of k # _ \<Rightarrow> k | [] \<Rightarrow> []);
          val = sat_mul64 (case parts of _ # v # _ \<Rightarrow> (case parse_uint 64 v of Some n \<Rightarrow> n | None \<Rightarrow> 0) | _ \<Rightarrow> 0) 1024
      in if key = ''MemTotal:'' then m\<lparr>mi_total := val\<rparr>
         else if key = ''MemAvailable:'' then m\<lparr>mi_avail := val\<rparr>
         else if key = ''MemFree:'' then m\<lparr>mi_free := val\<rparr>
         else if key = ''SwapTotal:'' then m\<lparr>mi_swap_total := val\<rparr>
         else if key = ''SwapFree:'' then m\<lparr>mi_swap_free := val\<rparr>
         else m)"

definition read_meminfo :: "(path \<Rightarrow> string + string) \<Rightarrow> string + nat \<times> nat \<times> nat \<times> nat" where
  "read_meminfo read =
     (case read ''/proc/meminfo'' of
        Inl e \<Rightarrow> Inl e
      | Inr data \<Rightarrow>
          (let m = fold meminfo_line (str_lines data) \<lparr>mi_total = 0, mi_avail = 0, mi_free = 0, mi_swap_total = 0, mi_swap_free = 0\<rparr>;
               avail = (if mi_avail m = 0 then mi_free m else mi_avail m)
           in Inr (mi_total m, avail, mi_swap_total m, mi_swap_free m)))"

record 'f host_stats =
  hs_uptime :: 'f
  hs_load1 :: 'f
  hs_ncpu :: nat
  hs_mem_free :: nat
  hs_mem_used :: nat
  hs_swap_used :: nat
  hs_swap_free :: nat

definition host_stats :: "'f otel_sys \<Rightarrow> (string + 'f host_stats) prog" where
  "host_stats sys =
     then_ok (read_proc sys (read_uptime (os_floats sys))) (\<lambda>uptime.
     then_ok (read_proc sys (read_loadavg1 (os_floats sys))) (\<lambda>load1.
     bind (reads (\<lambda>w. case os_ncpu sys (w_tick w) of Some n \<Rightarrow> n | None \<Rightarrow> 1)) (\<lambda>ncpu.
     then_ok (read_proc sys read_meminfo) (\<lambda>(mem_total, mem_avail, swap_total, swap_free).
     ret (Inr \<lparr>hs_uptime = uptime, hs_load1 = load1, hs_ncpu = ncpu, hs_mem_free = mem_avail, hs_mem_used = mem_total - mem_avail,
               hs_swap_used = swap_total - swap_free, hs_swap_free = swap_free\<rparr>)))))"

section \<open>Figures of a service\<close>

fun find_rss :: "string list \<Rightarrow> nat option" where
  "find_rss [] = None"
| "find_rss (l # ls) =
     (case strip_prefix ''VmRSS:'' l of
        Some rest \<Rightarrow>
          (case split_whitespace rest of
             tok # _ \<Rightarrow> map_option (\<lambda>kb. sat_mul64 kb 1024) (parse_uint 64 tok)
           | [] \<Rightarrow> None)
      | None \<Rightarrow> find_rss ls)"

definition read_rss_bytes :: "i32 \<Rightarrow> (path \<Rightarrow> string + string) \<Rightarrow> nat option" where
  "read_rss_bytes pid read =
     (case read (''/proc/'' @ int_str pid @ ''/status'') of Inl _ \<Rightarrow> None | Inr data \<Rightarrow> find_rss (str_lines data))"

definition field_u64 :: "string list \<Rightarrow> nat \<Rightarrow> nat option" where
  "field_u64 toks i = (if i < length toks then parse_uint 64 (toks ! i) else None)"

definition stat_ticks :: "string \<Rightarrow> nat option" where
  "stat_ticks data =
     (case rsplit_once CHR '')'' data of
        None \<Rightarrow> None
      | Some (_, rest) \<Rightarrow>
          (let toks = split_whitespace rest in
           case (field_u64 toks 11, field_u64 toks 12) of
             (Some utime, Some stime) \<Rightarrow> Some (sat_add64 utime stime)
           | _ \<Rightarrow> None))"

definition read_cpu_ticks :: "i32 \<Rightarrow> (path \<Rightarrow> string + string) \<Rightarrow> nat option" where
  "read_cpu_ticks pid read = (case read (''/proc/'' @ int_str pid @ ''/stat'') of Inl _ \<Rightarrow> None | Inr data \<Rightarrow> stat_ticks data)"

definition TICKS_PER_SECOND :: nat where "TICKS_PER_SECOND = 100"

type_synonym cpu_samples = "(i32, nat \<times> millis) omap"

definition cpu_ratio :: "'f floats \<Rightarrow> (nat \<times> millis) option \<Rightarrow> nat \<Rightarrow> millis \<Rightarrow> 'f" where
  "cpu_ratio fl prev ticks now =
     (case prev of
        Some (prev_ticks, prev_t) \<Rightarrow>
          let dt = now - prev_t in
          if dt = 0 then fl_of fl 0
          else fl_div fl (fl_div fl (fl_of fl (ticks - prev_ticks)) (fl_of fl TICKS_PER_SECOND)) (fl_secs fl dt)
      | None \<Rightarrow> fl_of fl 0)"

definition service_cpu_ratio :: "'f otel_sys \<Rightarrow> i32 \<Rightarrow> cpu_samples \<Rightarrow> ('f option \<times> cpu_samples) prog" where
  "service_cpu_ratio sys pid samples =
     bind (read_proc sys (read_cpu_ticks pid)) (\<lambda>t.
     case t of
       None \<Rightarrow> ret (None, samples)
     | Some ticks \<Rightarrow>
         bind (reads w_now) (\<lambda>now.
         ret (Some (cpu_ratio (os_floats sys) (om_get samples pid) ticks now), om_insert pid (ticks, now) samples)))"

section \<open>The document\<close>

definition attrs_json :: "(string \<times> string) list \<Rightarrow> 'f jvalue list" where
  "attrs_json attrs = map (\<lambda>(k, v). JObj [(''key'', JStr k), (''value'', JObj [(''stringValue'', JStr v)])]) attrs"

definition gauge_point :: "'f \<Rightarrow> (string \<times> string) list \<Rightarrow> string \<Rightarrow> 'f jvalue" where
  "gauge_point v attrs ts = JObj [(''asDouble'', JFloat v), (''timeUnixNano'', JStr ts), (''attributes'', JArr (attrs_json attrs))]"

definition sum_point :: "'f \<Rightarrow> (string \<times> string) list \<Rightarrow> string \<Rightarrow> 'f jvalue" where
  "sum_point v attrs ts = JObj [(''asDouble'', JFloat v), (''timeUnixNano'', JStr ts), (''attributes'', JArr (attrs_json attrs))]"

definition gauge_metric :: "string \<Rightarrow> 'f jvalue list \<Rightarrow> 'f jvalue" where
  "gauge_metric name data_points = JObj [(''name'', JStr name), (''gauge'', JObj [(''dataPoints'', JArr data_points)])]"

definition gauge :: "string \<Rightarrow> 'f \<Rightarrow> (string \<times> string) list \<Rightarrow> string \<Rightarrow> 'f jvalue" where
  "gauge name v attrs ts = gauge_metric name [gauge_point v attrs ts]"

definition sum_metric :: "string \<Rightarrow> 'f jvalue list \<Rightarrow> 'f jvalue" where
  "sum_metric name data_points =
     JObj [(''name'', JStr name),
           (''sum'', JObj [(''aggregationTemporality'', JInt 2), (''isMonotonic'', JBool True), (''dataPoints'', JArr data_points)])]"

definition host_metrics :: "'f floats \<Rightarrow> 'f host_stats \<Rightarrow> string \<Rightarrow> 'f jvalue list" where
  "host_metrics fl host ts =
     [gauge ''microinit_system_uptime_seconds'' (hs_uptime host) [] ts,
      gauge ''microinit_cpu_count'' (fl_of fl (hs_ncpu host)) [] ts,
      gauge ''microinit_cpu_load_ratio''
        (if hs_ncpu host > 0 then fl_div fl (hs_load1 host) (fl_of fl (hs_ncpu host)) else fl_of fl 0) [] ts,
      gauge ''microinit_memory_free_bytes'' (fl_of fl (hs_mem_free host)) [] ts,
      gauge ''microinit_memory_used_bytes'' (fl_of fl (hs_mem_used host)) [] ts,
      gauge ''microinit_swap_used_bytes'' (fl_of fl (hs_swap_used host)) [] ts,
      gauge ''microinit_swap_free_bytes'' (fl_of fl (hs_swap_free host)) [] ts]"

record 'f points =
  pt_restart :: "'f jvalue list"
  pt_liveness :: "'f jvalue list"
  pt_uptime :: "'f jvalue list"
  pt_cpu :: "'f jvalue list"
  pt_mem :: "'f jvalue list"

definition no_points :: "'f points" where
  "no_points = \<lparr>pt_restart = [], pt_liveness = [], pt_uptime = [], pt_cpu = [], pt_mem = []\<rparr>"

definition attrs_of :: "service_metrics \<Rightarrow> (string \<times> string) list" where
  "attrs_of svc = [(''service'', sm_name svc)]"

text \<open>The points every service has, then those of a running process.\<close>

definition steady_points :: "'f floats \<Rightarrow> string \<Rightarrow> service_metrics \<Rightarrow> 'f points \<Rightarrow> 'f points" where
  "steady_points fl ts svc p =
     p\<lparr>pt_restart := pt_restart p @ [sum_point (fl_of fl (unat (sm_restarts svc))) (attrs_of svc) ts],
       pt_liveness := pt_liveness p @ [sum_point (fl_of fl (unat (sm_liveness_failures svc))) (attrs_of svc) ts],
       pt_uptime := pt_uptime p @ [gauge_point (fl_secs fl (sm_uptime svc)) (attrs_of svc) ts]\<rparr>"

definition process_points :: "'f otel_sys \<Rightarrow> string \<Rightarrow> service_metrics \<Rightarrow> 'f points \<Rightarrow> cpu_samples \<Rightarrow> ('f points \<times> cpu_samples) prog" where
  "process_points sys ts svc p samples =
     (case sm_pid svc of
        None \<Rightarrow> ret (p, samples)
      | Some pid \<Rightarrow>
          bind (read_proc sys (read_rss_bytes pid)) (\<lambda>rss.
          let p1 = (case rss of
                Some n \<Rightarrow> p\<lparr>pt_mem := pt_mem p @ [gauge_point (fl_of (os_floats sys) n) (attrs_of svc) ts]\<rparr> | None \<Rightarrow> p) in
          bind (service_cpu_ratio sys pid samples) (\<lambda>(ratio, samples').
          ret ((case ratio of Some r \<Rightarrow> p1\<lparr>pt_cpu := pt_cpu p1 @ [gauge_point r (attrs_of svc) ts]\<rparr> | None \<Rightarrow> p1), samples'))))"

fun service_points :: "'f otel_sys \<Rightarrow> string \<Rightarrow> service_metrics list \<Rightarrow> 'f points \<Rightarrow> cpu_samples \<Rightarrow> ('f points \<times> cpu_samples) prog" where
  "service_points sys ts [] p samples = ret (p, samples)"
| "service_points sys ts (svc # svcs) p samples =
     bind (process_points sys ts svc (steady_points (os_floats sys) ts svc p) samples) (\<lambda>(p', samples').
     service_points sys ts svcs p' samples')"

definition service_metrics_json :: "'f points \<Rightarrow> 'f jvalue list" where
  "service_metrics_json p =
     [sum_metric ''microinit_service_restarts_total'' (pt_restart p),
      sum_metric ''microinit_service_liveness_failures_total'' (pt_liveness p),
      gauge_metric ''microinit_service_uptime_seconds'' (pt_uptime p)]
     @ (if pt_cpu p \<noteq> [] then [gauge_metric ''microinit_service_cpu_ratio'' (pt_cpu p)] else [])
     @ (if pt_mem p \<noteq> [] then [gauge_metric ''microinit_service_memory_bytes'' (pt_mem p)] else [])"

definition document :: "string \<Rightarrow> string \<Rightarrow> 'f jvalue list \<Rightarrow> 'f jvalue" where
  "document pkg_version service_name metrics =
     JObj [(''resourceMetrics'', JArr [JObj [
       (''resource'', JObj [(''attributes'', JArr (attrs_json [(''service.name'', service_name)]))]),
       (''scopeMetrics'', JArr [JObj [
         (''scope'', JObj [(''name'', JStr ''microinit''), (''version'', JStr pkg_version)]),
         (''metrics'', JArr metrics)]])]])]"

section \<open>Sending it\<close>

definition METRICS_PATH :: string where "METRICS_PATH = ''/v1/metrics''"

definition metrics_url :: "string \<Rightarrow> string \<Rightarrow> string + string" where
  "metrics_url endpoint protocol =
     (if to_ascii_lowercase protocol = ''grpc'' then Inl ''protocol grpc not supported in this build (use http)''
      else
        let base = trim_end_matches (\<lambda>c. c = CHR ''/'') endpoint in
        Inr (if ends_with METRICS_PATH base then base else base @ METRICS_PATH))"

definition post_result :: "http_answer \<Rightarrow> string + unit" where
  "post_result a =
     (case a of
        HttpOk st \<Rightarrow> if 200 \<le> st \<and> st < 300 then Inr () else Inl (''HTTP '' @ nat_str (unat st))
      | HttpStatus code \<Rightarrow> Inl (''HTTP '' @ nat_str (unat code))
      | HttpFail err \<Rightarrow> Inl err)"

definition export_http :: "'f otel_sys \<Rightarrow> open_telemetry_config \<Rightarrow> 'f jvalue \<Rightarrow> (string + unit) prog" where
  "export_http sys cfg body =
     (case metrics_url (ot_endpoint cfg) (ot_protocol cfg) of
        Inl err \<Rightarrow> ret (Inl err)
      | Inr url \<Rightarrow>
          atomic (\<lambda>e w.
            let (answer, took) = os_post sys (w_tick w) url ((''Content-Type'', ''application/json'') # ot_headers cfg) body
            in (post_result answer, w\<lparr>w_now := w_now w + took\<rparr>)))"

definition collect_and_export :: "'f otel_sys \<Rightarrow> string \<Rightarrow> open_telemetry_config \<Rightarrow> cpu_samples \<Rightarrow> (cpu_samples \<times> (string + unit)) prog" where
  "collect_and_export sys pkg_version cfg samples =
     bind (reads (\<lambda>w. os_nanos sys (w_tick w))) (\<lambda>now.
     case now of
       Inl err \<Rightarrow> ret (samples, Inl err)
     | Inr nanos \<Rightarrow>
         bind (host_stats sys) (\<lambda>h.
         case h of
           Inl err \<Rightarrow> ret (samples, Inl err)
         | Inr host \<Rightarrow>
             bind (reads metrics_snapshot) (\<lambda>svcs.
             bind (service_points sys (nat_str nanos) svcs no_points samples) (\<lambda>(p, samples').
             bind (export_http sys cfg (document pkg_version (ot_service_name cfg)
                 (host_metrics (os_floats sys) host (nat_str nanos) @ service_metrics_json p))) (\<lambda>r.
             ret (samples', r))))))"

section \<open>The loop\<close>

definition INITIAL_SLEEP :: millis where "INITIAL_SLEEP = secs 10"
definition RETRY_SLEEP :: millis where "RETRY_SLEEP = secs 30"

text \<open>
  The two loops that sleep until a deadline. \<open>stop\<close> is the flag the thread shares with its creator, read at a section
  of the thread. The result tells whether the thread returns.
\<close>

function wait_until :: "(nat \<Rightarrow> bool) \<Rightarrow> millis \<Rightarrow> env \<Rightarrow> world \<Rightarrow> bool outcome" where
  "wait_until stop deadline e w =
     (let w1 = others e w in
      if w_now w1 < deadline then
        (let w2 = others e w1 in
         if stop (w_tick w2) then Ret True w2
         else (case sleep 200 e w2 of Ret _ w3 \<Rightarrow> wait_until stop deadline e w3 | Panic msg \<Rightarrow> Panic msg))
      else Ret False w1)"
  by pat_completeness auto
termination
proof (relation "measure (\<lambda>(stop, deadline, e, w). deadline - w_now w)", goal_cases)
  case (2 stop deadline e w w1 w2 u w3)
  have "w_now w \<le> w_now w1" "w_now w1 \<le> w_now w2" "w_now w2 \<le> w_now (others e w2)" using 2 by simp_all
  moreover have "w_now w3 = w_now (others e w2) + 200 + e_late e (w_tick (others e w2))" using 2 by (auto simp: sleep_def)
  ultimately have "w_now w < w_now w3" "w_now w < deadline" using 2 by linarith+
  then show ?case by (simp add: diff_less_mono2)
qed simp

declare wait_until.simps [simp del]

text \<open>
  One attempt to export, as the run records it: when it began and ended, the configuration it used and its result. The
  clock readings of this record are not part of the program.
\<close>

record attempt =
  at_start :: millis
  at_end :: millis
  at_config :: open_telemetry_config
  at_result :: "string + unit"

definition clock :: "millis prog" where "clock = (\<lambda>e w. Ret (w_now w) w)"

definition export_interval :: "open_telemetry_config \<Rightarrow> millis" where
  "export_interval cfg = secs (max (unat (ot_export_interval_secs cfg)) 1)"

definition after_export :: "(nat \<Rightarrow> bool) \<Rightarrow> open_telemetry_config \<Rightarrow> string + unit \<Rightarrow> bool prog" where
  "after_export stop cfg r =
     (case r of
        Inr _ \<Rightarrow> bind (deadline_after (export_interval cfg)) (\<lambda>deadline. wait_until stop deadline)
      | Inl err \<Rightarrow>
          bind (log_init LvWarn (''otel: export failed: '' @ err @ ''; retry in '' @ nat_str (RETRY_SLEEP div 1000) @ ''s'')) (\<lambda>_.
          bind (deadline_after RETRY_SLEEP) (\<lambda>deadline. wait_until stop deadline)))"

text \<open>\<open>n\<close> turns of the loop: the attempts made, and whether the thread has returned.\<close>

fun export_loop :: "nat \<Rightarrow> 'f otel_sys \<Rightarrow> 'j daemon \<Rightarrow> string \<Rightarrow> (nat \<Rightarrow> bool) \<Rightarrow> cpu_samples \<Rightarrow> (attempt list \<times> bool) prog" where
  "export_loop 0 sys dm pkg_version stop samples = ret ([], False)"
| "export_loop (Suc n) sys dm pkg_version stop samples =
     bind (reads (\<lambda>w. stop (w_tick w))) (\<lambda>stopped.
     if stopped then ret ([], True)
     else
       bind (open_telemetry dm) (\<lambda>cfg.
       if \<not> ot_enable cfg then bind (sleep RETRY_SLEEP) (\<lambda>_. export_loop n sys dm pkg_version stop samples)
       else
         bind clock (\<lambda>began.
         bind (collect_and_export sys pkg_version cfg samples) (\<lambda>(samples', r).
         bind clock (\<lambda>ended.
         bind (after_export stop cfg r) (\<lambda>gone.
         let a = \<lparr>at_start = began, at_end = ended, at_config = cfg, at_result = r\<rparr> in
         if gone then ret ([a], True)
         else bind (export_loop n sys dm pkg_version stop samples') (\<lambda>(as, b). ret (a # as, b))))))))"

definition run_loop :: "nat \<Rightarrow> 'f otel_sys \<Rightarrow> 'j daemon \<Rightarrow> string \<Rightarrow> (nat \<Rightarrow> bool) \<Rightarrow> (attempt list \<times> bool) prog" where
  "run_loop n sys dm pkg_version stop = bind (sleep INITIAL_SLEEP) (\<lambda>_. export_loop n sys dm pkg_version stop [])"

text \<open>\<open>maybe_spawn\<close>: whether the thread was started.\<close>

definition maybe_spawn :: "open_telemetry_config \<Rightarrow> bool prog" where
  "maybe_spawn cfg =
     (if \<not> ot_enable cfg then ret False
      else
        bind (atomic (\<lambda>e w. (e_thread e (w_tick w) ''otel-metrics'', w))) (\<lambda>r.
        case r of
          Some err \<Rightarrow> bind (log_init LvWarn (''otel: failed to spawn thread: '' @ err)) (\<lambda>_. ret False)
        | None \<Rightarrow>
            bind (log_init LvInfo (''otel: metrics thread started (endpoint '' @ ot_endpoint cfg @ '', initial sleep ''
              @ nat_str (INITIAL_SLEEP div 1000) @ ''s)'')) (\<lambda>_. ret True)))"

section \<open>Pauses\<close>

definition attempt_pause :: "open_telemetry_config \<Rightarrow> string + unit \<Rightarrow> millis" where
  "attempt_pause cfg r = (case r of Inr _ \<Rightarrow> export_interval cfg | Inl _ \<Rightarrow> RETRY_SLEEP)"

lemma wait_until_Ret: "wait_until stop deadline e w = Ret gone w' \<Longrightarrow> w_now w \<le> w_now w' \<and> (gone \<or> deadline \<le> w_now w')"
proof (induction stop deadline e w rule: wait_until.induct)
  case (1 stop deadline e w)
  let ?w1 = "others e w" and ?w2 = "others e (others e w)"
  obtain w3 where w3: "sleep 200 e ?w2 = Ret () w3" "w_now ?w2 \<le> w_now w3"
    using others_now [of ?w2 e] by (simp add: sleep_def)
  have t: "w_now w \<le> w_now ?w1" "w_now w \<le> w_now ?w2" using others_now order_trans by blast+
  consider "\<not> w_now ?w1 < deadline" | "w_now ?w1 < deadline" "stop (w_tick ?w2)" | "w_now ?w1 < deadline" "\<not> stop (w_tick ?w2)" by blast
  then show ?case
  proof cases
    case 3
    then have "wait_until stop deadline e w3 = Ret gone w'"
      using 1(2) w3(1) by (simp add: wait_until.simps [of stop deadline e w] Let_def)
    then have "w_now w3 \<le> w_now w' \<and> (gone \<or> deadline \<le> w_now w')" using 1(1) [OF refl _ refl _ w3(1)] 3 by simp
    then show ?thesis using t w3(2) by linarith
  qed (use 1(2) t in \<open>auto simp: wait_until.simps [of stop deadline e w] Let_def\<close>)
qed

lemma stable_now: "stable e (\<lambda>w. t \<le> w_now w)"
  using others_now by (auto simp: stable_def intro: order_trans)

lemma deadline_wait_Ret:
  assumes "bind (deadline_after d) (\<lambda>deadline. wait_until stop deadline) e w = Ret gone w'"
  shows "w_now w \<le> w_now w' \<and> (gone \<or> w_now w + d \<le> w_now w')"
proof -
  have "wait_until stop (w_now (others e w) + d) e (others e w) = Ret gone w'"
    using assms by (auto simp: bind_Ret deadline_after_def Let_def split: if_splits)
  from wait_until_Ret [OF this] show ?thesis using others_now [of w e] by linarith
qed

lemma log_init_now: "log_init level msg e w = Ret u w' \<Longrightarrow> w_now w \<le> w_now w'"
  by (auto simp: log_init_def)

lemma after_export_Ret:
  assumes "after_export stop cfg r e w = Ret gone w'"
  shows "w_now w \<le> w_now w' \<and> (gone \<or> w_now w + attempt_pause cfg r \<le> w_now w')"
proof (cases r)
  case (Inl err)
  then obtain msg u w1 where "log_init LvWarn msg e w = Ret u w1"
      "bind (deadline_after RETRY_SLEEP) (\<lambda>deadline. wait_until stop deadline) e w1 = Ret gone w'"
    using assms unfolding after_export_def Inl sum.case bind_Ret [of "log_init _ _"] by blast
  then show ?thesis using log_init_now [of LvWarn msg e w] deadline_wait_Ret [of RETRY_SLEEP stop e w1 gone w'] Inl
    by (auto simp: attempt_pause_def)
next
  case (Inr u)
  then show ?thesis using deadline_wait_Ret assms by (simp add: after_export_def attempt_pause_def)
qed

text \<open>Collecting and sending does not turn the clock back.\<close>

lemma keeps_then_ok: "keeps e P m \<Longrightarrow> (\<And>x. keeps e P (f x)) \<Longrightarrow> keeps e P (then_ok m f)"
  unfolding then_ok_def by (intro keeps_flow)

lemma keeps_process_points: "stable e P \<Longrightarrow> keeps e P (process_points sys ts svc p samples)"
  unfolding process_points_def service_cpu_ratio_def read_proc_def Let_def by (intro ipc_flow; assumption?)

lemma keeps_service_points: "stable e P \<Longrightarrow> keeps e P (service_points sys ts svcs p samples)"
  by (induction svcs arbitrary: p samples) (auto intro!: ipc_flow keeps_process_points)

lemma keeps_host_stats: "stable e P \<Longrightarrow> keeps e P (host_stats sys)"
  unfolding host_stats_def read_proc_def by (intro ipc_flow keeps_then_ok; assumption?)

lemma keeps_collect:
  assumes "stable e P" "\<And>w t. P w \<Longrightarrow> P (w\<lparr>w_now := w_now w + t\<rparr>)"
  shows "keeps e P (collect_and_export sys v cfg samples)"
  unfolding collect_and_export_def export_http_def
  by (intro ipc_flow keeps_host_stats keeps_service_points keeps_atomic; (rule assms(1))?) (simp_all add: split_beta Let_def assms(2))

section \<open>Properties\<close>

fun spaced :: "millis \<Rightarrow> attempt list \<Rightarrow> bool" where
  "spaced t [] = True"
| "spaced t (a # as) =
     (t \<le> at_start a \<and> at_start a \<le> at_end a \<and> spaced (at_end a + attempt_pause (at_config a) (at_result a)) as)"

lemma spaced_earlier: "spaced t as \<Longrightarrow> t' \<le> t \<Longrightarrow> spaced t' as"
  by (cases as) auto

lemma collect_now: "collect_and_export sys v cfg samples e w = Ret x w' \<Longrightarrow> w_now w \<le> w_now w'"
  using keeps_collect [OF stable_now, of "w_now w" e sys v cfg samples] by (auto dest!: hoareD [of e _ _ _ w])

lemma open_telemetry_now: "open_telemetry dm e w = Ret cfg w' \<Longrightarrow> w_now w \<le> w_now w'"
  by (auto simp: open_telemetry_def intro: order_trans [OF others_now others_now])

lemma sleep_Ret: "sleep d e w = Ret u w' \<Longrightarrow> w_now w + d \<le> w_now w'"
  using others_now [of w e] by (auto simp: sleep_def simp del: others_now)

lemma export_loop_spaced: "export_loop n sys dm v stop samples e w = Ret (as, b) w' \<Longrightarrow> spaced (w_now w) as"
proof (induction n arbitrary: samples w as b w')
  case (Suc n)
  let ?w0 = "others e w"
  show ?case
  proof (cases "stop (w_tick ?w0)")
    case True
    then show ?thesis using Suc(2) by simp
  next
    case False
    obtain cfg w1 where w1: "open_telemetry dm e ?w0 = Ret cfg w1" by (simp add: open_telemetry_def)
    have t1: "w_now w \<le> w_now w1" using open_telemetry_now [OF w1] others_now [of w e] by linarith
    show ?thesis
    proof (cases "ot_enable cfg")
      case off: False
      then obtain w2 where w2: "sleep RETRY_SLEEP e w1 = Ret () w2" "export_loop n sys dm v stop samples e w2 = Ret (as, b) w'"
        using Suc(2) False w1 by (auto simp: bind_Ret)
      from Suc(1) [OF w2(2)] show ?thesis by (rule spaced_earlier) (use t1 sleep_Ret [OF w2(1)] in linarith)
    next
      case on: True
      obtain samples' r w2 gone w3 where c: "collect_and_export sys v cfg samples e w1 = Ret (samples', r) w2"
        and g: "after_export stop cfg r e w2 = Ret gone w3"
        and tail: "(let a = \<lparr>at_start = w_now w1, at_end = w_now w2, at_config = cfg, at_result = r\<rparr> in
          if gone then ret ([a], True)
          else bind (export_loop n sys dm v stop samples') (\<lambda>(as, b). ret (a # as, b))) e w3 = Ret (as, b) w'"
        using Suc(2) False on w1 by (auto simp: bind_Ret clock_def)
      note times = t1 collect_now [OF c] after_export_Ret [OF g]
      show ?thesis
      proof (cases gone)
        case True
        then show ?thesis using tail times by (auto simp: Let_def)
      next
        case False
        then obtain as' b' where as: "as = \<lparr>at_start = w_now w1, at_end = w_now w2, at_config = cfg, at_result = r\<rparr> # as'"
          and l: "export_loop n sys dm v stop samples' e w3 = Ret (as', b') w'"
          using tail by (auto simp: Let_def bind_Ret)
        show ?thesis using False times spaced_earlier [OF Suc(1) [OF l]] by (simp add: as)
      qed
    qed
  qed
qed simp

text \<open>
  C39: the exporter keeps its distance. However the exports end and whatever the other threads do, the first
  attempt comes no earlier than ten seconds after the thread starts, and after each attempt the next one begins no
  earlier than the configured interval (at least a second) after a success, and thirty seconds after a failure.
\<close>

theorem exports_are_spaced:
  assumes "run_loop n sys dm v stop e w = Ret (as, b) w'"
  shows "spaced (w_now w + INITIAL_SLEEP) as"
proof -
  obtain w1 where w1: "sleep INITIAL_SLEEP e w = Ret () w1" "export_loop n sys dm v stop [] e w1 = Ret (as, b) w'"
    using assms by (auto simp: run_loop_def bind_Ret)
  from export_loop_spaced [OF w1(2)] show ?thesis by (rule spaced_earlier) (use sleep_Ret [OF w1(1)] in linarith)
qed

text \<open>
  An interval of \<open>2\<^sup>6\<^sup>3\<close> seconds or more, which the configuration accepts, ends the daemon: after the first successful export the
  deadline overflows.
\<close>

theorem huge_interval_aborts:
  assumes "2 ^ 63 \<le> unat (ot_export_interval_secs cfg)"
  shows "after_export stop cfg (Inr ()) e w = Panic ''overflow when adding duration to instant''"
  using assms by (simp add: after_export_def bind_def deadline_after_def Let_def export_interval_def INSTANT_LIMIT_def)

definition demo_floats :: "nat floats" where
  "demo_floats = \<lparr>fl_of = id, fl_div = (div), fl_parse = (\<lambda>t. case parse_uint 64 t of Some n \<Rightarrow> Inr n | None \<Rightarrow> Inl t), fl_secs = (\<lambda>t. t div 1000)\<rparr>"

text \<open>A system without \<open>/proc\<close>, so that an export fails, and one whose sleeps take half a minute.\<close>

definition demo_otel_sys :: "nat otel_sys" where
  "demo_otel_sys = \<lparr>os_floats = demo_floats, os_read = (\<lambda>_ _. Inl ''none''), os_ncpu = (\<lambda>_. None), os_nanos = (\<lambda>_. Inr 1),
     os_post = (\<lambda>_ _ _ _. (HttpOk 200, 5))\<rparr>"

definition demo_otel_world :: world where
  "demo_otel_world = demo_run_world\<lparr>w_config := demo_config\<lparr>cfg_open_telemetry := default_open_telemetry_config\<lparr>ot_enable := True\<rparr>\<rparr>\<rparr>"

definition demo_late :: env where "demo_late = demo_env\<lparr>e_late := (\<lambda>_. 30000)\<rparr>"

lemma demo_late_others: "others demo_late w = w\<lparr>w_tick := Suc (w_tick w)\<rparr>"
  by (simp add: others_def demo_late_def demo_env_def)

lemma demo_late_sleep: "sleep d demo_late w = Ret () (w\<lparr>w_tick := Suc (w_tick w), w_now := w_now w + d + 30000\<rparr>)"
  by (simp add: sleep_def demo_late_others) (simp add: demo_late_def)

lemma demo_late_wait:
  assumes "w_now w < deadline" "deadline \<le> w_now w + 30000"
  shows "\<exists>w'. wait_until (\<lambda>_. False) deadline demo_late w = Ret False w'"
proof -
  let ?w = "w\<lparr>w_tick := Suc (Suc (Suc (w_tick w))), w_now := w_now w + 200 + 30000\<rparr>"
  have "wait_until (\<lambda>_. False) deadline demo_late w = wait_until (\<lambda>_. False) deadline demo_late ?w"
    using assms by (subst wait_until.simps) (simp add: demo_late_others demo_late_sleep)
  also have "\<dots> = Ret False (others demo_late ?w)"
    using assms by (subst wait_until.simps) (simp add: demo_late_others)
  finally show ?thesis by blast
qed

lemma demo_late_pause:
  assumes "w_now w < 1000000"
  shows "\<exists>w'. after_export (\<lambda>_. False) cfg (Inl err) demo_late w = Ret False w'"
proof -
  obtain w1 where w1: "log_init LvWarn (''otel: export failed: '' @ err @ ''; retry in '' @ nat_str (RETRY_SLEEP div 1000) @ ''s'') demo_late w = Ret () w1"
      "w_now w1 = w_now w"
    by (simp add: log_init_def demo_late_others)
  let ?w2 = "others demo_late w1"
  have "deadline_after RETRY_SLEEP demo_late w1 = Ret (w_now ?w2 + RETRY_SLEEP) ?w2"
    using assms w1(2) by (simp add: deadline_after_def demo_late_others INSTANT_LIMIT_def RETRY_SLEEP_def)
  moreover obtain w3 where "wait_until (\<lambda>_. False) (w_now ?w2 + RETRY_SLEEP) demo_late ?w2 = Ret False w3"
    using demo_late_wait [of ?w2 "w_now ?w2 + RETRY_SLEEP"] by (auto simp: RETRY_SLEEP_def)
  ultimately show ?thesis by (simp only: after_export_def sum.case bind_def [of "log_init _ _"] w1(1) outcome.case) (simp add: bind_def)
qed

lemma demo_host_stats: "host_stats demo_otel_sys demo_late w = Ret (Inl ''none'') (w\<lparr>w_tick := Suc (w_tick w)\<rparr>)"
  by (simp add: host_stats_def then_ok_def read_proc_def read_uptime_def demo_late_others demo_otel_sys_def)

lemma demo_collect: "collect_and_export demo_otel_sys v cfg samples demo_late w = Ret (samples, Inl ''none'') (w\<lparr>w_tick := Suc (Suc (w_tick w))\<rparr>)"
proof -
  have "os_nanos demo_otel_sys t = Inr 1" for t by (simp add: demo_otel_sys_def)
  then show ?thesis by (simp add: collect_and_export_def demo_late_others bind_def [of "host_stats _"] demo_host_stats)
qed

lemma demo_otel_config: "ot_enable (overlay_config [] [] (default_open_telemetry_config\<lparr>ot_enable := True\<rparr>))"
  by code_simp

theorem exports_are_spaced_witness:
  "\<exists>a w'. run_loop 1 demo_otel_sys demo_daemon ''1'' (\<lambda>_. False) demo_late demo_otel_world = Ret ([a], False) w'
    \<and> at_result a = Inl ''none'' \<and> spaced 10000 [a]"
proof -
  let ?w1 = "demo_otel_world\<lparr>w_tick := Suc (w_tick demo_otel_world), w_now := w_now demo_otel_world + INITIAL_SLEEP + 30000\<rparr>"
  obtain cfg w2 where c: "open_telemetry demo_daemon demo_late (others demo_late ?w1) = Ret cfg w2" "ot_enable cfg" "w_now w2 = 40000"
    using demo_otel_config
    by (simp add: open_telemetry_def demo_late_others demo_otel_world_def demo_run_world_def demo_world_def demo_daemon_def INITIAL_SLEEP_def)
  obtain w3 where p: "after_export (\<lambda>_. False) cfg (Inl ''none'') demo_late (w2\<lparr>w_tick := Suc (Suc (w_tick w2))\<rparr>) = Ret False w3"
    using demo_late_pause [of "w2\<lparr>w_tick := Suc (Suc (w_tick w2))\<rparr>"] c(3) by auto
  let ?a = "\<lparr>at_start = 40000, at_end = 40000, at_config = cfg, at_result = Inl ''none''\<rparr>"
  have r: "run_loop 1 demo_otel_sys demo_daemon ''1'' (\<lambda>_. False) demo_late demo_otel_world = Ret ([?a], False) w3"
    using c(2,3) by (simp add: run_loop_def bind_def [of "sleep _"] demo_late_sleep bind_def [of "open_telemetry _"] c(1) bind_def [of "collect_and_export _ _ _ _"] demo_collect
        bind_def [of "after_export _ _ _"] p clock_def bind_def [of "\<lambda>e w. Ret (w_now w) w"])
  show ?thesis using exports_are_spaced [OF r] r by (auto simp: demo_otel_world_def demo_run_world_def demo_world_def INITIAL_SLEEP_def)
qed

section \<open>Reading the figures\<close>

definition graphic :: "char \<Rightarrow> bool" where
  "graphic c = (0x21 \<le> (of_char c :: nat) \<and> (of_char c :: nat) \<le> 0x7E)"

definition graphic_word :: "string \<Rightarrow> bool" where
  "graphic_word t = (t \<noteq> [] \<and> list_all graphic t)"

lemma ws_not_graphic: "list_all (\<lambda>p. p \<noteq> [] \<and> \<not> graphic (hd p)) ws_seqs"
  by code_simp

lemma graphic_not_headed: "graphic c \<Longrightarrow> \<not> headed ws_seqs (c # s)"
proof
  assume c: "graphic c" and "headed ws_seqs (c # s)"
  then obtain p where p: "p \<in> set ws_seqs" "starts_with p (c # s)" by (auto simp: headed_def)
  then have "p \<noteq> []" "\<not> graphic (hd p)" using ws_not_graphic by (auto simp: list_all_iff)
  then show False using p(2) c by (cases p) (auto simp: starts_with_def)
qed

lemma trim_start_word: "graphic_word t \<Longrightarrow> trim_start (t @ s) = t @ s"
proof -
  assume "graphic_word t"
  then have "strip_any ws_seqs (t @ s) = None" by (cases t) (auto simp: graphic_word_def strip_any_None graphic_not_headed)
  then show ?thesis by (simp add: trim_start_def trim_seqs.simps [of ws_seqs "t @ s"])
qed

lemma trim_start_space: "trim_start (CHR '' '' # s) = trim_start s"
  by (simp add: trim_start_def trim_seqs.simps [of ws_seqs "CHR '' '' # s"]) (simp add: ws_seqs_def strip_prefix_def starts_with_def)

lemma take_word_stop: "list_all graphic t \<Longrightarrow> s = [] \<or> headed ws_seqs s \<Longrightarrow> take_word (t @ s) = t"
  by (induction t) (auto simp: take_word.simps [of s] take_word.simps [of "_ # _"] graphic_not_headed)

definition fields_text :: "string list \<Rightarrow> string" where
  "fields_text toks = concat (map (\<lambda>t. CHR '' '' # t) toks) @ [NL]"

lemma fields_text_headed: "headed ws_seqs (fields_text toks)"
  by (cases toks) (auto simp: fields_text_def headed_def ws_seqs_def starts_with_def)

lemma split_fields_text: "list_all graphic_word toks \<Longrightarrow> split_whitespace (fields_text toks) = toks"
proof (induction toks)
  case Nil
  show ?case by code_simp
next
  case (Cons t toks)
  then have t: "graphic_word t" by simp
  have f: "fields_text (t # toks) = CHR '' '' # t @ fields_text toks" by (simp add: fields_text_def)
  have "trim_start (fields_text (t # toks)) = t @ fields_text toks" by (simp add: f trim_start_space trim_start_word [OF t])
  moreover have "take_word (t @ fields_text toks) = t"
    using t fields_text_headed by (intro take_word_stop) (auto simp: graphic_word_def)
  ultimately show ?case
    using Cons t by (subst split_whitespace.simps) (simp add: graphic_word_def)
qed

text \<open>
  The CPU time of a process is read correctly whatever its name. In a line of \<open>/proc/<pid>/stat\<close> the name stands in
  parentheses and may itself hold blanks and parentheses; for the fields after it, of visible characters without
  a closing parenthesis, the twelfth and thirteenth are user and system time, and the result is their sum, saturated.
\<close>

theorem cpu_ticks_any_name:
  assumes "list_all graphic_word toks" "CHR '')'' \<notin> set (concat toks)" "12 < length toks"
    "toks ! 11 = nat_str utime" "toks ! 12 = nat_str stime" "utime \<le> U64_MAX" "stime \<le> U64_MAX"
  shows "stat_ticks (int_str pid @ '' ('' @ comm @ '')'' @ fields_text toks) = Some (min (utime + stime) U64_MAX)"
proof -
  have "CHR '')'' \<notin> set (fields_text toks)" using assms(2) by (auto simp: fields_text_def)
  then have "rsplit_once CHR '')'' (int_str pid @ '' ('' @ comm @ '')'' @ fields_text toks) = Some (int_str pid @ '' ('' @ comm, fields_text toks)"
    by (subst rsplit_once_Some) simp
  moreover have "parse_uint 64 (nat_str utime) = Some utime" "parse_uint 64 (nat_str stime) = Some stime"
    using assms(6,7) by (auto intro!: parse_uint_nat_str simp: U64_MAX_def)
  ultimately show ?thesis
    using assms(3-5) split_fields_text [OF assms(1)] by (simp add: stat_ticks_def field_u64_def sat_add64_def)
qed

theorem cpu_ticks_any_name_witness:
  "stat_ticks (int_str 7 @ '' ('' @ ''a) (b'' @ '')'' @ fields_text (''S'' # replicate 10 ''0'' @ [''250'', ''17'', ''3''])) = Some 267"
proof -
  have toks: "list_all graphic_word (''S'' # replicate 10 ''0'' @ [''250'', ''17'', ''3''])" "nat_str 250 = ''250''" "nat_str 17 = ''17''"
    by code_simp+
  then show ?thesis
    using cpu_ticks_any_name [OF toks(1), of 250 17 7 "''a) (b''"] by (simp add: nth_append U64_MAX_def)
qed

section \<open>The URL\<close>

lemma trim_end_metrics: "trim_end_matches (\<lambda>c. c = CHR ''/'') (s @ METRICS_PATH) = s @ METRICS_PATH"
  by (simp add: trim_end_matches_def METRICS_PATH_def)

lemma ends_with_iff: "ends_with p s \<longleftrightarrow> (\<exists>t. s = t @ p)"
  unfolding ends_with_def by (metis rev_append rev_rev_ident starts_withE starts_with_append)

text \<open>
  The URL of the exporter is canonical. Unless the protocol is gRPC in any case, the request goes to a URL
  that ends in \<open>/v1/metrics\<close>, and giving that URL as the endpoint leads to the same URL.
\<close>

theorem metrics_url_canonical:
  assumes "metrics_url endpoint protocol = Inr url"
  shows "ends_with METRICS_PATH url \<and> metrics_url url protocol = Inr url"
proof -
  obtain s where "url = s @ METRICS_PATH"
    using assms by (auto simp: metrics_url_def Let_def ends_with_iff split: if_splits)
  then show ?thesis using assms by (auto simp: metrics_url_def Let_def trim_end_metrics ends_with_iff split: if_splits)
qed

theorem metrics_url_canonical_witness:
  "metrics_url ''http://h:4318//'' ''HTTP'' = Inr ''http://h:4318/v1/metrics'' \<and> metrics_url ''http://h:4318/v1/metrics'' ''HTTP'' = Inr ''http://h:4318/v1/metrics''"
proof -
  have u: "metrics_url ''http://h:4318//'' ''HTTP'' = Inr ''http://h:4318/v1/metrics''" by code_simp
  then show ?thesis using metrics_url_canonical [OF u] by blast
qed

section \<open>Bounds\<close>

definition fits :: "mem_info \<Rightarrow> bool" where
  "fits m = (\<forall>n \<in> {mi_total m, mi_avail m, mi_free m, mi_swap_total m, mi_swap_free m}. n \<le> U64_MAX)"

lemma fits_line: "fits m \<Longrightarrow> fits (meminfo_line l m)"
  by (simp add: fits_def meminfo_line_def Let_def sat_mul64_def)

lemma fits_lines: "fits m \<Longrightarrow> fits (fold meminfo_line ls m)"
  by (induction ls arbitrary: m) (simp_all add: fits_line)

lemma find_rss_fits: "find_rss ls = Some n \<Longrightarrow> n \<le> U64_MAX"
  by (induction ls) (auto simp: sat_mul64_def split: option.splits list.splits)

lemma stat_ticks_fits: "stat_ticks data = Some n \<Longrightarrow> n \<le> U64_MAX"
  by (auto simp: stat_ticks_def sat_add64_def Let_def split: option.splits)


section \<open>One point per service\<close>

definition tagged :: "string \<Rightarrow> (service_metrics \<times> 'f) list \<Rightarrow> 'f jvalue list" where
  "tagged ts vs = map (\<lambda>(svc, v). gauge_point v (attrs_of svc) ts) vs"

definition with_pid :: "service_metrics list \<Rightarrow> service_metrics list" where
  "with_pid svcs = filter (\<lambda>s. sm_pid s \<noteq> None) svcs"

definition extends :: "string \<Rightarrow> service_metrics list \<Rightarrow> 'f jvalue list \<Rightarrow> 'f jvalue list \<Rightarrow> bool" where
  "extends ts svcs ps ps' \<longleftrightarrow> (\<exists>vs. ps' = ps @ tagged ts vs \<and> subseq (map fst vs) (with_pid svcs))"

text \<open>What a run adds for some services: three points each, and at most one size and one ratio for those with a process.\<close>

definition adds :: "'f floats \<Rightarrow> string \<Rightarrow> service_metrics list \<Rightarrow> 'f points \<Rightarrow> 'f points \<Rightarrow> bool" where
  "adds fl ts svcs p p' \<longleftrightarrow>
     pt_restart p' = pt_restart p @ map (\<lambda>s. sum_point (fl_of fl (unat (sm_restarts s))) (attrs_of s) ts) svcs
     \<and> pt_liveness p' = pt_liveness p @ map (\<lambda>s. sum_point (fl_of fl (unat (sm_liveness_failures s))) (attrs_of s) ts) svcs
     \<and> pt_uptime p' = pt_uptime p @ map (\<lambda>s. gauge_point (fl_secs fl (sm_uptime s)) (attrs_of s) ts) svcs
     \<and> extends ts svcs (pt_mem p) (pt_mem p') \<and> extends ts svcs (pt_cpu p) (pt_cpu p')"

lemma extends_same: "extends ts svcs ps ps"
  by (auto simp: extends_def tagged_def intro: exI [of _ "[]"])

lemma extends_one: "sm_pid svc \<noteq> None \<Longrightarrow> extends ts [svc] ps (ps @ [gauge_point v (attrs_of svc) ts])"
  unfolding extends_def by (rule exI [of _ "[(svc, v)]"]) (simp add: tagged_def with_pid_def)

lemma extends_append:
  assumes "extends ts ss a b" "extends ts ss' b c"
  shows "extends ts (ss @ ss') a c"
proof -
  obtain vs vs' where "b = a @ tagged ts vs" "subseq (map fst vs) (with_pid ss)" "c = b @ tagged ts vs'" "subseq (map fst vs') (with_pid ss')"
    using assms unfolding extends_def by blast
  then show ?thesis
    unfolding extends_def by (intro exI [of _ "vs @ vs'"]) (simp add: tagged_def with_pid_def list_emb_append_mono)
qed

lemma adds_Nil: "adds fl ts [] p p"
  by (simp add: adds_def extends_same)

lemma adds_append: "adds fl ts ss p p' \<Longrightarrow> adds fl ts ss' p' p'' \<Longrightarrow> adds fl ts (ss @ ss') p p''"
  by (auto simp: adds_def intro: extends_append)

lemma service_cpu_ratio_Ret: "\<exists>r samples' w'. service_cpu_ratio sys pid samples e w = Ret (r, samples') w'
    \<and> set (om_keys samples) \<subseteq> set (om_keys samples')"
  by (auto simp: service_cpu_ratio_def read_proc_def split: option.split)

lemma process_points_Ret:
  "\<exists>p' samples' w'. process_points sys ts svc (steady_points (os_floats sys) ts svc p) samples e w = Ret (p', samples') w'
    \<and> adds (os_floats sys) ts [svc] p p' \<and> set (om_keys samples) \<subseteq> set (om_keys samples')"
proof (cases "sm_pid svc")
  case None
  then show ?thesis by (simp add: process_points_def adds_def steady_points_def extends_same)
next
  case (Some pid)
  obtain r samples' w' where "service_cpu_ratio sys pid samples e (others e w) = Ret (r, samples') w'"
    "set (om_keys samples) \<subseteq> set (om_keys samples')"
    using service_cpu_ratio_Ret by blast
  then show ?thesis using Some
    by (simp add: process_points_def read_proc_def Let_def bind_def [of "service_cpu_ratio _ _ _"] adds_def steady_points_def
        extends_same extends_one split: option.split)
qed

lemma service_points_Ret:
  "\<exists>p' samples' w'. service_points sys ts svcs p samples e w = Ret (p', samples') w'
    \<and> adds (os_floats sys) ts svcs p p' \<and> set (om_keys samples) \<subseteq> set (om_keys samples')"
proof (induction svcs arbitrary: p samples w)
  case (Cons svc svcs)
  obtain p1 samples1 w1 where 1: "process_points sys ts svc (steady_points (os_floats sys) ts svc p) samples e w = Ret (p1, samples1) w1"
      "adds (os_floats sys) ts [svc] p p1" "set (om_keys samples) \<subseteq> set (om_keys samples1)"
    using process_points_Ret by blast
  obtain p2 samples2 w2 where 2: "service_points sys ts svcs p1 samples1 e w1 = Ret (p2, samples2) w2"
      "adds (os_floats sys) ts svcs p1 p2" "set (om_keys samples1) \<subseteq> set (om_keys samples2)"
    using Cons by blast
  have "service_points sys ts (svc # svcs) p samples e w = Ret (p2, samples2) w2"
    by (simp add: bind_def [of "process_points _ _ _ _ _"] 1(1) 2(1))
  then show ?case using adds_append [OF 1(2) 2(2)] 1(3) 2(3) by auto
qed (simp add: adds_Nil)

text \<open>
  The metrics cover every service. Collecting always ends, and for the services of the snapshot, in its order,
  it yields exactly one point each for restarts, liveness failures and uptime, labelled with the service; memory and CPU
  points come only from services with a process, at most one each and in the same order. The samples of earlier
  processes are never dropped.
\<close>

theorem metrics_cover_services:
  "\<exists>p samples' w' ms cs. service_points sys ts svcs no_points samples e w = Ret (p, samples') w'
    \<and> pt_restart p = map (\<lambda>s. sum_point (fl_of (os_floats sys) (unat (sm_restarts s))) (attrs_of s) ts) svcs
    \<and> pt_liveness p = map (\<lambda>s. sum_point (fl_of (os_floats sys) (unat (sm_liveness_failures s))) (attrs_of s) ts) svcs
    \<and> pt_uptime p = map (\<lambda>s. gauge_point (fl_secs (os_floats sys) (sm_uptime s)) (attrs_of s) ts) svcs
    \<and> pt_mem p = tagged ts ms \<and> subseq (map fst ms) (with_pid svcs)
    \<and> pt_cpu p = tagged ts cs \<and> subseq (map fst cs) (with_pid svcs)
    \<and> set (om_keys samples) \<subseteq> set (om_keys samples')"
  using service_points_Ret [of sys ts svcs no_points samples e w] unfolding adds_def extends_def no_points_def by auto

section \<open>The shared state\<close>

lemma keeps_clock: "keeps e P clock"
  by (simp add: hoare_def clock_def)

context shared_inv
begin

lemma keeps_wait_until:
  assumes "stable e P" "P w"
  shows "case wait_until stop deadline e w of Ret _ w' \<Rightarrow> P w' | Panic _ \<Rightarrow> True"
  using assms
proof (induction stop deadline e w rule: wait_until.induct)
  case (1 stop deadline e w)
  let ?w1 = "others e w" and ?w2 = "others e (others e w)"
  have P: "P ?w1" "P ?w2" using 1(2,3) by (simp_all add: stableD)
  obtain w3 where w3: "sleep 200 e ?w2 = Ret () w3" by (simp add: sleep_def)
  have "P w3" using hoareD [OF keeps_sleep [OF 1(2)] P(2) w3] .
  then show ?case
    using 1(1) [OF refl _ refl _ w3 1(2)] P w3 by (simp add: wait_until.simps [of stop deadline e w] Let_def)
qed

lemma keeps_after_export: "stable e P \<Longrightarrow> keeps e P (after_export stop cfg r)"
  unfolding after_export_def
  by (intro keeps_shared; assumption?) (use keeps_wait_until in \<open>simp_all add: hoare_def\<close>)

lemma keeps_export_loop: "stable e P \<Longrightarrow> keeps e P (export_loop n sys dm v stop samples)"
proof (induction n arbitrary: samples)
  case (Suc n)
  have "P w \<Longrightarrow> P (w\<lparr>w_now := w_now w + t\<rparr>)" for w t using P_inert by (simp add: inert_def timeless_def)
  note collect = keeps_collect [OF Suc.prems this]
  show ?case
    unfolding export_loop.simps Let_def open_telemetry_def
    by (intro ipc_flow keeps_sleep collect keeps_after_export keeps_clock Suc.IH; (rule Suc.prems)?)
qed (simp add: keeps_ret)

end

text \<open>Whatever it meets, the metrics thread leaves the invariant of the shared state alone.\<close>

theorem exporter_keeps_invariant:
  assumes "stable e sup_ok"
  shows "keeps e sup_ok (run_loop n sys dm v stop)"
  unfolding run_loop_def using assms by (intro ipc_flow sup.keeps_sleep sup.keeps_export_loop)

end
