(* ===== verification/Boot_Scripts.thy ===== *)
theory Boot_Scripts
  imports Version Config_Load Logs
begin

text \<open>
  The two scripts PID 1 runs: early boot (\<open>src/src/early_boot.rs\<close>) and late unmount (\<open>src/src/unmount.rs\<close>). The
  answers of the system to one run of a script (whether a pipe could be made, whether the shell started, what was
  read from the pipe, how the shell ended) are a record, and what the run did outside (commands started, bytes put on
  stderr, children killed) is another. The embedded script texts and the data root are arguments. \<open>usize\<close> counters
  are natural numbers: the retained bytes are bounded below, and \<open>dropped\<close> counts lines that were read.
\<close>

section \<open>Script sources\<close>

datatype script_source = ScriptPath path | Embedded

definition early_boot_source :: "files \<Rightarrow> paths \<Rightarrow> script_source" where
  "early_boot_source fs ps =
     (if om_contains fs (ps_early_boot_override ps) then ScriptPath (ps_early_boot_override ps)
      else if om_contains fs (ps_early_boot ps) then ScriptPath (ps_early_boot ps)
      else Embedded)"

definition unmount_source :: "files \<Rightarrow> paths \<Rightarrow> script_source" where
  "unmount_source fs ps =
     (if om_contains fs (ps_unmount_override ps) then ScriptPath (ps_unmount_override ps)
      else if om_contains fs (ps_unmount ps) then ScriptPath (ps_unmount ps)
      else Embedded)"

section \<open>Capture\<close>

record early_boot_output =
  eo_lines :: "string list"
  eo_dropped :: nat
  eo_captured :: bool
  eo_source :: string
  eo_exit_code :: "i32 option"
  eo_signal :: "i32 option"

record collected =
  col_lines :: "string list"
  col_dropped :: nat

definition default_collected :: collected where
  "default_collected = \<lparr>col_lines = [], col_dropped = 0\<rparr>"

text \<open>The retained lines, the number evicted, and the retained bytes.\<close>

type_synonym kept = "string list \<times> nat \<times> nat"

fun evict :: "nat \<Rightarrow> kept \<Rightarrow> kept" where
  "evict add ([], dropped, bytes) = ([], dropped, bytes)"
| "evict add (old # lines, dropped, bytes) =
     (if length (old # lines) \<ge> MAX_EARLY_BOOT_CAPTURE_LINES \<or> bytes + add > MAX_EARLY_BOOT_CAPTURE_BYTES
      then evict add (lines, dropped + 1, bytes - length old)
      else (old # lines, dropped, bytes))"

definition push_captured_line :: "kept \<Rightarrow> string \<Rightarrow> kept" where
  "push_captured_line k raw =
     (let msg = utf8_lossy raw; add = length msg; (lines, dropped, bytes) = evict add k
      in (lines @ [msg], dropped, bytes + add))"

text \<open>The variables of \<open>collect_lines\<close> and one byte of a chunk.\<close>

record capture =
  cp_kept :: kept
  cp_cur :: string
  cp_overflowed :: bool
  cp_teed :: string

definition capture_byte :: "capture \<Rightarrow> char \<Rightarrow> capture" where
  "capture_byte c b =
     (if b = NL then
        c\<lparr>cp_kept := push_captured_line (cp_kept c) (cp_cur c), cp_cur := [], cp_overflowed := False\<rparr>
      else if \<not> cp_overflowed c then
        if length (cp_cur c) \<ge> MAX_EARLY_BOOT_LINE_BYTES then c\<lparr>cp_overflowed := True\<rparr>
        else c\<lparr>cp_cur := cp_cur c @ [b]\<rparr>
      else c)"

text \<open>Successive answers of \<open>fill_buf\<close>; no more answers or an empty chunk is the end of the stream.\<close>

datatype read_answer = Chunk string | Interrupted | ReadError

fun read_loop :: "read_answer list \<Rightarrow> capture \<Rightarrow> capture" where
  "read_loop [] c = c"
| "read_loop (Chunk bs # rs) c =
     (if bs = [] then c else read_loop rs (foldl capture_byte (c\<lparr>cp_teed := cp_teed c @ bs\<rparr>) bs))"
| "read_loop (Interrupted # rs) c = read_loop rs c"
| "read_loop (ReadError # rs) c = c"

definition collect_lines :: "read_answer list \<Rightarrow> collected \<times> string" where
  "collect_lines reads =
     (let c = read_loop reads \<lparr>cp_kept = ([], 0, 0), cp_cur = [], cp_overflowed = False, cp_teed = []\<rparr>;
          (lines, dropped, _) = (if cp_cur c \<noteq> [] then push_captured_line (cp_kept c) (cp_cur c) else cp_kept c)
      in (\<lparr>col_lines = lines, col_dropped = dropped\<rparr>, cp_teed c))"

section \<open>Running a script\<close>

datatype exit_status = ExitCode i32 | KilledBy i32

fun status_code :: "exit_status \<Rightarrow> i32 option" where
  "status_code (ExitCode c) = Some c"
| "status_code (KilledBy _) = None"

fun status_signal :: "exit_status \<Rightarrow> i32 option" where
  "status_signal (ExitCode _) = None"
| "status_signal (KilledBy s) = Some s"

text \<open>A command for \<open>/bin/sh\<close>: its arguments, whether its input is a pipe, the variables set for it.\<close>

record script_command =
  sk_args :: "string list"
  sk_stdin_piped :: bool
  sk_env :: "(string \<times> string) list"

record child_answers =
  ca_pipe :: bool
  ca_clone :: bool
  ca_spawn :: "string + unit"
  ca_stdin :: "(string + unit) option"
  ca_reads :: "read_answer list"
  ca_wait :: "string + exit_status"

record outside =
  os_spawned :: "script_command list"
  os_stderr :: string
  os_killed :: nat

record script_env =
  se_logs_tty :: string
  se_init_logs_tty :: string
  se_console :: string
  se_data_var :: string
  se_data_root :: path

definition script_vars :: "script_env \<Rightarrow> (string \<times> string) list" where
  "script_vars v =
     [(''MICROINIT_LOGS_TTY'', se_logs_tty v), (''MICROINIT_INIT_LOGS_TTY'', se_init_logs_tty v),
      (''MICROINIT_CONSOLE'', se_console v), (se_data_var v, se_data_root v)]"

definition path_command :: "script_env \<Rightarrow> path \<Rightarrow> script_command" where
  "path_command v script = \<lparr>sk_args = [script], sk_stdin_piped = False, sk_env = script_vars v\<rparr>"

definition embedded_command :: "script_env \<Rightarrow> script_command" where
  "embedded_command v = \<lparr>sk_args = [''-s''], sk_stdin_piped = True, sk_env = script_vars v\<rparr>"

definition try_stdio_capture :: "child_answers \<Rightarrow> read_answer list option" where
  "try_stdio_capture a = (if ca_pipe a \<and> ca_clone a then Some (ca_reads a) else None)"

text \<open>\<open>start_capture\<close> and \<open>join_capture\<close>: the reader thread runs to the end of the stream.\<close>

definition join_capture :: "read_answer list option \<Rightarrow> outside \<Rightarrow> collected \<times> outside" where
  "join_capture handle out =
     (case handle of
        Some reads \<Rightarrow> let (c, teed) = collect_lines reads in (c, out\<lparr>os_stderr := os_stderr out @ teed\<rparr>)
      | None \<Rightarrow> (default_collected, out))"

definition output_from_collected :: "string \<Rightarrow> collected \<Rightarrow> bool \<Rightarrow> early_boot_output" where
  "output_from_collected source c captured =
     \<lparr>eo_lines = col_lines c, eo_dropped = col_dropped c, eo_captured = captured, eo_source = source,
      eo_exit_code = None, eo_signal = None\<rparr>"

definition default_output :: "string \<Rightarrow> early_boot_output" where
  "default_output source =
     \<lparr>eo_lines = [], eo_dropped = 0, eo_captured = False, eo_source = source, eo_exit_code = None, eo_signal = None\<rparr>"

definition finish_wait :: "child_answers \<Rightarrow> read_answer list option \<Rightarrow> bool \<Rightarrow> string \<Rightarrow> outside
    \<Rightarrow> (early_boot_output \<times> unit res) \<times> outside" where
  "finish_wait a handle captured source os0 =
     (let (c, os1) = join_capture handle os0; out = output_from_collected source c captured in
      case ca_wait a of
        Inr st \<Rightarrow>
          ((out\<lparr>eo_exit_code := status_code st, eo_signal := status_signal st\<rparr>,
            case status_code st of
              Some code \<Rightarrow> if code = 0 then Inr () else Inl (ErrEarlyBoot code)
            | None \<Rightarrow> Inl (ErrEarlyBoot 1)), os1)
      | Inl e \<Rightarrow> ((out, Inl (ErrOther (''failed to wait for early-boot: '' @ e))), os1))"

definition run_command :: "child_answers \<Rightarrow> script_command \<Rightarrow> string \<Rightarrow> outside
    \<Rightarrow> (early_boot_output \<times> unit res) \<times> outside" where
  "run_command a cmd source os0 =
     (let handle = try_stdio_capture a in
      case ca_spawn a of
        Inl e \<Rightarrow> ((default_output source, Inl (ErrOther (''failed to exec '' @ source @ '': '' @ e))), os0)
      | Inr _ \<Rightarrow> finish_wait a handle (handle \<noteq> None) source (os0\<lparr>os_spawned := os_spawned os0 @ [cmd]\<rparr>))"

definition run_script :: "child_answers \<Rightarrow> script_env \<Rightarrow> path \<Rightarrow> outside
    \<Rightarrow> (early_boot_output \<times> unit res) \<times> outside" where
  "run_script a v script os0 = run_command a (path_command v script) script os0"

definition run_script_bytes :: "child_answers \<Rightarrow> script_env \<Rightarrow> outside
    \<Rightarrow> (early_boot_output \<times> unit res) \<times> outside" where
  "run_script_bytes a v os0 =
     (let handle = try_stdio_capture a; captured = (handle \<noteq> None) in
      case ca_spawn a of
        Inl e \<Rightarrow> ((default_output ''embedded'', Inl (ErrOther (''failed to exec /bin/sh -s: '' @ e))), os0)
      | Inr _ \<Rightarrow>
          let os1 = os0\<lparr>os_spawned := os_spawned os0 @ [embedded_command v]\<rparr>;
              write_err = (case ca_stdin a of
                  Some (Inr _) \<Rightarrow> None
                | Some (Inl e) \<Rightarrow> Some (ErrOther (''failed to write early-boot script: '' @ e))
                | None \<Rightarrow> Some (ErrOther ''failed to open sh stdin''))
          in case write_err of
               Some e \<Rightarrow>
                 let (c, os2) = join_capture handle (os1\<lparr>os_killed := os_killed os1 + 1\<rparr>)
                 in ((output_from_collected ''embedded'' c captured, Inl e), os2)
             | None \<Rightarrow> finish_wait a handle captured ''embedded'' os1)"

definition run_early_boot :: "child_answers \<Rightarrow> files \<Rightarrow> paths \<Rightarrow> script_env \<Rightarrow> outside
    \<Rightarrow> (early_boot_output \<times> unit res) \<times> outside" where
  "run_early_boot a fs ps v os0 =
     (case early_boot_source fs ps of
        ScriptPath script \<Rightarrow> run_script a v script os0
      | Embedded \<Rightarrow> run_script_bytes a v
          (os0\<lparr>os_stderr := os_stderr os0 @ ''microinit: using embedded early-boot.sh'' @ [NL]\<rparr>))"

section \<open>The log of early boot\<close>

definition exit_header :: "early_boot_output \<Rightarrow> string" where
  "exit_header out =
     (case (eo_exit_code out, eo_signal out) of
        (Some c, _) \<Rightarrow> int_str c
      | (None, Some sig) \<Rightarrow> ''signal:'' @ int_str sig
      | (None, None) \<Rightarrow> ''unknown'')"

definition captured_text :: "string \<Rightarrow> early_boot_output \<Rightarrow> string" where
  "captured_text ts out =
     ''# early-boot ts='' @ ts @ '' source='' @ eo_source out @ '' exit='' @ exit_header out @ [NL]
     @ (if eo_dropped out > 0 then ''... '' @ nat_str (eo_dropped out) @ '' earlier line(s) dropped'' @ [NL] else [])
     @ concat (map (\<lambda>line. line @ [NL]) (eo_lines out))"

text \<open>
  \<open>short\<close> says after how many bytes writing fails, and how; \<open>sync\<close> how \<open>sync_all\<close> fails. \<open>ts\<close> is the formatted time.
\<close>

definition write_captured :: "faults \<Rightarrow> (nat \<times> string) option \<Rightarrow> string option \<Rightarrow> string \<Rightarrow> path \<Rightarrow> early_boot_output
    \<Rightarrow> files \<Rightarrow> files \<times> nat res" where
  "write_captured fault short sync ts p out fs =
     fs_then (case path_parent p of
         Some parent \<Rightarrow> if parent \<noteq> [] then at_path parent (fs_mkdir fault parent fs) else (fs, Inr ())
       | None \<Rightarrow> (fs, Inr ())) (\<lambda>fs0.
     fs_then (at_path p (fs_write fault p [] fs0)) (\<lambda>fs1.
       let text = captured_text ts out in
       case short of
         Some (n, e) \<Rightarrow> (om_insert p (take n text) fs1, Inl (ErrIoPath p e))
       | None \<Rightarrow> (om_insert p text fs1,
           case sync of Some e \<Rightarrow> Inl (ErrIoPath p e) | None \<Rightarrow> Inr (length (eo_lines out)))))"

section \<open>Unmount\<close>

definition unmount_status :: "exit_status \<Rightarrow> unit res" where
  "unmount_status st =
     (case status_code st of
        Some code \<Rightarrow> if code = 0 then Inr () else Inl (ErrUnmount code)
      | None \<Rightarrow> Inl (ErrUnmount 1))"

text \<open>\<open>Command::status\<close> starts the command and waits for it; a failure of either is its error.\<close>

definition unmount_script :: "child_answers \<Rightarrow> script_env \<Rightarrow> path \<Rightarrow> outside \<Rightarrow> unit res \<times> outside" where
  "unmount_script a v script os0 =
     (case ca_spawn a of
        Inl e \<Rightarrow> (Inl (ErrOther (''failed to exec '' @ script @ '': '' @ e)), os0)
      | Inr _ \<Rightarrow>
          (case ca_wait a of
             Inl e \<Rightarrow> Inl (ErrOther (''failed to exec '' @ script @ '': '' @ e))
           | Inr st \<Rightarrow> unmount_status st,
           os0\<lparr>os_spawned := os_spawned os0 @ [path_command v script]\<rparr>))"

definition unmount_script_bytes :: "child_answers \<Rightarrow> script_env \<Rightarrow> outside \<Rightarrow> unit res \<times> outside" where
  "unmount_script_bytes a v os0 =
     (case ca_spawn a of
        Inl e \<Rightarrow> (Inl (ErrOther (''failed to exec /bin/sh -s: '' @ e)), os0)
      | Inr _ \<Rightarrow>
          (case ca_stdin a of
             None \<Rightarrow> Inl (ErrOther ''failed to open sh stdin'')
           | Some (Inl e) \<Rightarrow> Inl (ErrOther (''failed to write unmount script: '' @ e))
           | Some (Inr _) \<Rightarrow>
               (case ca_wait a of
                  Inl e \<Rightarrow> Inl (ErrOther (''failed to wait for unmount: '' @ e))
                | Inr st \<Rightarrow> unmount_status st),
           os0\<lparr>os_spawned := os_spawned os0 @ [embedded_command v]\<rparr>))"

definition run_unmount :: "child_answers \<Rightarrow> files \<Rightarrow> paths \<Rightarrow> script_env \<Rightarrow> outside \<Rightarrow> unit res \<times> outside" where
  "run_unmount a fs ps v os0 =
     (case unmount_source fs ps of
        ScriptPath script \<Rightarrow> unmount_script a v script os0
      | Embedded \<Rightarrow> unmount_script_bytes a v
          (os0\<lparr>os_stderr := os_stderr os0 @ ''microinit: using embedded unmount.sh'' @ [NL]\<rparr>))"

section \<open>What the capture retains\<close>

text \<open>
  The reference: the stream is cut at its newlines, a last piece without newline counts when it is not empty, every
  line is cut at 4096 bytes and decoded. Retained is the longest run of newest lines within both limits.
\<close>

definition fits :: "string list \<Rightarrow> bool" where
  "fits ls = (length ls \<le> MAX_EARLY_BOOT_CAPTURE_LINES \<and> sum_list (map length ls) \<le> MAX_EARLY_BOOT_CAPTURE_BYTES)"

definition newest :: "string list \<Rightarrow> nat" where
  "newest ls = (LEAST k. fits (drop k ls))"

fun delivered :: "read_answer list \<Rightarrow> string" where
  "delivered [] = []"
| "delivered (Chunk bs # rs) = (if bs = [] then [] else bs @ delivered rs)"
| "delivered (Interrupted # rs) = delivered rs"
| "delivered (ReadError # rs) = []"

definition ended_lines :: "string \<Rightarrow> string list" where
  "ended_lines s = butlast (split_char NL s)"

definition stream_lines :: "string \<Rightarrow> string list" where
  "stream_lines s = ended_lines s @ (if last (split_char NL s) = [] then [] else [last (split_char NL s)])"

definition decoded :: "string \<Rightarrow> string" where
  "decoded l = utf8_lossy (take MAX_EARLY_BOOT_LINE_BYTES l)"

lemma fits_Nil [simp]: "fits []"
  by (simp add: fits_def)

lemma fits_suffix: "fits (xs @ ys) \<Longrightarrow> fits ys"
  by (simp add: fits_def)

lemma fits_prefix: "fits (xs @ ys) \<Longrightarrow> fits xs"
  by (simp add: fits_def)

lemma fits_newest: "fits (drop (newest ls) ls)"
  unfolding newest_def by (rule LeastI [of "\<lambda>k. fits (drop k ls)" "length ls"]) simp

lemma not_fits_before: "k < newest ls \<Longrightarrow> \<not> fits (drop k ls)"
  unfolding newest_def by (rule not_less_Least)

lemma newest_eqI: "fits (drop k ls) \<Longrightarrow> (\<And>j. j < k \<Longrightarrow> \<not> fits (drop j ls)) \<Longrightarrow> newest ls = k"
  unfolding newest_def by (rule Least_equality) (auto simp: not_less [symmetric])

lemma newest_le: "newest ls \<le> length ls"
  unfolding newest_def by (rule Least_le) simp

lemma length_utf8_lossy: "length (utf8_lossy s) \<le> 3 * length s"
proof (induction s rule: utf8_lossy.induct)
  case (2 b s)
  obtain ok n where st: "utf8_step b s = (ok, n)" by (cases "utf8_step b s")
  have "length (utf8_lossy (drop (n - 1) s)) \<le> 3 * (length s - (n - 1))"
    using 2 [OF st [symmetric]] by simp
  then show ?case using st utf8_step_pos [of b s] by (auto simp: min_def)
qed simp

lemma length_decoded: "length (decoded l) \<le> 3 * MAX_EARLY_BOOT_LINE_BYTES"
  using length_utf8_lossy [of "take MAX_EARLY_BOOT_LINE_BYTES l"] by (simp add: decoded_def min_def split: if_splits)

lemma fits_decoded: "fits [decoded l]"
  using length_decoded [of l]
  by (simp add: fits_def MAX_EARLY_BOOT_CAPTURE_LINES_def MAX_EARLY_BOOT_CAPTURE_BYTES_def MAX_EARLY_BOOT_LINE_BYTES_def)

text \<open>The loop that evicts stops at the first suffix to which the new line can be appended.\<close>

lemma evict_first_fit:
  assumes "fits [x]"
  shows "\<exists>k \<le> length ls. evict (length x) (ls, d, sum_list (map length ls)) = (drop k ls, d + k, sum_list (map length (drop k ls)))
    \<and> fits (drop k ls @ [x]) \<and> (\<forall>j < k. \<not> fits (drop j ls @ [x]))"
proof (induction ls arbitrary: d)
  case Nil
  then show ?case using assms by simp
next
  case (Cons l ls)
  show ?case
  proof (cases "fits ((l # ls) @ [x])")
    case True
    then show ?thesis
      by (intro exI [of _ 0]) (auto simp: fits_def)
  next
    case False
    obtain k where k: "k \<le> length ls"
      "evict (length x) (ls, Suc d, sum_list (map length ls)) = (drop k ls, Suc d + k, sum_list (map length (drop k ls)))"
      "fits (drop k ls @ [x])" "\<forall>j < k. \<not> fits (drop j ls @ [x])"
      using Cons.IH [of "Suc d"] by blast
    show ?thesis
    proof (intro exI [of _ "Suc k"] conjI allI impI)
      show "evict (length x) (l # ls, d, sum_list (map length (l # ls))) =
          (drop (Suc k) (l # ls), d + Suc k, sum_list (map length (drop (Suc k) (l # ls))))"
        using False k(2) by (auto simp: fits_def)
      show "\<not> fits (drop j (l # ls) @ [x])" if "j < Suc k" for j
        using that False k(4) by (cases j) auto
    qed (use k in auto)
  qed
qed

definition retains :: "string list \<Rightarrow> kept \<Rightarrow> bool" where
  "retains ls k = (k = (drop (newest ls) ls, newest ls, sum_list (map length (drop (newest ls) ls))))"

lemma retains_Nil: "retains [] ([], 0, 0)"
  by (simp add: retains_def newest_eqI [of 0 "[]"])

lemma retains_push:
  assumes "retains ls k" "fits [utf8_lossy raw]"
  shows "retains (ls @ [utf8_lossy raw]) (push_captured_line k raw)"
proof -
  let ?x = "utf8_lossy raw" and ?m = "newest ls"
  let ?r = "drop ?m ls"
  obtain i where i: "i \<le> length ?r"
    "evict (length ?x) (?r, ?m, sum_list (map length ?r)) = (drop i ?r, ?m + i, sum_list (map length (drop i ?r)))"
    "fits (drop i ?r @ [?x])" "\<forall>j < i. \<not> fits (drop j ?r @ [?x])"
    using evict_first_fit [OF assms(2), of ?r ?m] by blast
  have le: "i + ?m \<le> length ls" using i(1) newest_le [of ls] by simp
  have "newest (ls @ [?x]) = ?m + i"
  proof (rule newest_eqI)
    show "fits (drop (?m + i) (ls @ [?x]))" using i(3) le by (simp add: add.commute)
    show "\<not> fits (drop j (ls @ [?x]))" if "j < ?m + i" for j
    proof (cases "j < ?m")
      case True
      then have "\<not> fits (drop j ls)" by (rule not_fits_before)
      then show ?thesis using True newest_le [of ls] fits_prefix by fastforce
    next
      case False
      then obtain j' where j: "j = ?m + j'" by (metis le_add_diff_inverse not_less)
      then have "\<not> fits (drop j' ?r @ [?x])" using i(4) that by simp
      then show ?thesis using j that le by (simp add: add.commute)
    qed
  qed
  then show ?thesis
    using assms(1) i(2) le by (simp add: retains_def push_captured_line_def Let_def add.commute)
qed

lemma split_char_snoc:
  "split_char c (s @ [b]) =
     (if b = c then split_char c s @ [[]] else butlast (split_char c s) @ [last (split_char c s) @ [b]])"
  by (induction s) (auto split: list.splits)

text \<open>The loop over the bytes, whatever the chunks: complete lines are pushed, the current one is cut.\<close>

definition captures :: "string \<Rightarrow> capture \<Rightarrow> bool" where
  "captures s c =
     (retains (map decoded (ended_lines s)) (cp_kept c)
      \<and> cp_cur c = take MAX_EARLY_BOOT_LINE_BYTES (last (split_char NL s))
      \<and> cp_overflowed c = (MAX_EARLY_BOOT_LINE_BYTES < length (last (split_char NL s))))"

lemma captures_byte:
  assumes "captures s c"
  shows "captures (s @ [b]) (capture_byte c b)"
proof (cases "b = NL")
  case True
  let ?l = "last (split_char NL s)"
  have "retains (map decoded (ended_lines s) @ [decoded ?l]) (push_captured_line (cp_kept c) (cp_cur c))"
    using assms fits_decoded [of ?l] retains_push [of "map decoded (ended_lines s)" "cp_kept c" "cp_cur c"]
    by (simp add: captures_def decoded_def)
  moreover have "ended_lines (s @ [b]) = ended_lines s @ [?l]"
    using True by (simp add: ended_lines_def split_char_snoc)
  ultimately show ?thesis using True by (simp add: captures_def capture_byte_def split_char_snoc)
next
  case False
  then have "ended_lines (s @ [b]) = ended_lines s" by (simp add: ended_lines_def split_char_snoc)
  then show ?thesis
    using assms False by (auto simp: captures_def capture_byte_def split_char_snoc)
qed

lemma captures_teed: "captures s (c\<lparr>cp_teed := t\<rparr>) = captures s c"
  by (simp add: captures_def)

lemma teed_bytes [simp]: "cp_teed (foldl capture_byte c bs) = cp_teed c"
  by (induction bs arbitrary: c) (simp_all add: capture_byte_def)

lemma captures_bytes: "captures s c \<Longrightarrow> captures (s @ bs) (foldl capture_byte c bs)"
proof (induction bs arbitrary: s c)
  case (Cons b bs)
  then show ?case using Cons.IH [OF captures_byte] by fastforce
qed simp

lemma captures_read_loop:
  "captures s c \<Longrightarrow> cp_teed c = s \<Longrightarrow> captures (s @ delivered rs) (read_loop rs c) \<and> cp_teed (read_loop rs c) = s @ delivered rs"
proof (induction rs c arbitrary: s rule: read_loop.induct)
  case (2 bs rs c)
  show ?case
  proof (cases "bs = []")
    case False
    have "captures (s @ bs) (foldl capture_byte (c\<lparr>cp_teed := cp_teed c @ bs\<rparr>) bs)"
      using 2(2) by (intro captures_bytes) (simp add: captures_teed)
    then show ?thesis using 2(1) [OF False, of "s @ bs"] 2(3) False by simp
  qed (use 2 in simp)
qed simp_all

lemma captures_initial:
  "captures [] \<lparr>cp_kept = ([], 0, 0), cp_cur = [], cp_overflowed = False, cp_teed = []\<rparr>"
  by (simp add: captures_def ended_lines_def retains_Nil MAX_EARLY_BOOT_LINE_BYTES_def)

lemma collect_lines_spec:
  "collect_lines reads =
     (let ls = map decoded (stream_lines (delivered reads))
      in (\<lparr>col_lines = drop (newest ls) ls, col_dropped = newest ls\<rparr>, delivered reads))"
proof -
  let ?c = "read_loop reads \<lparr>cp_kept = ([], 0, 0), cp_cur = [], cp_overflowed = False, cp_teed = []\<rparr>"
  let ?s = "delivered reads" and ?l = "last (split_char NL (delivered reads))"
  have c: "captures ?s ?c" and t: "cp_teed ?c = ?s"
    using captures_read_loop [OF captures_initial, of reads] by simp_all
  show ?thesis
  proof (cases "?l = []")
    case True
    then show ?thesis
      using c t by (simp add: collect_lines_def Let_def captures_def stream_lines_def retains_def)
  next
    case False
    then have "cp_cur ?c \<noteq> []" using c by (simp add: captures_def MAX_EARLY_BOOT_LINE_BYTES_def)
    moreover have "retains (map decoded (stream_lines ?s)) (push_captured_line (cp_kept ?c) (cp_cur ?c))"
      using c False fits_decoded [of ?l] retains_push [of "map decoded (ended_lines ?s)" "cp_kept ?c" "cp_cur ?c"]
      by (simp add: captures_def decoded_def stream_lines_def)
    ultimately show ?thesis using t by (simp add: collect_lines_def Let_def retains_def)
  qed
qed

section \<open>Properties\<close>

text \<open>
  C15: the early-boot capture. However the pipe delivers the script's output (chunks, interrupted reads, a read
  error), every byte read reaches stderr unchanged, and the capture holds the longest run of newest lines that has at
  most 2000 lines and at most 256 KiB, each line being the first 4096 bytes of the original decoded as UTF-8; the
  number of dropped lines is exactly that of the older ones.
\<close>

theorem capture_keeps_newest:
  "let (c, teed) = collect_lines reads; ls = map decoded (stream_lines (delivered reads)) in
     teed = delivered reads \<and> col_dropped c = (LEAST k. fits (drop k ls)) \<and> col_lines c = drop (col_dropped c) ls
     \<and> length (col_lines c) \<le> MAX_EARLY_BOOT_CAPTURE_LINES
     \<and> sum_list (map length (col_lines c)) \<le> MAX_EARLY_BOOT_CAPTURE_BYTES
     \<and> col_dropped c + length (col_lines c) = length ls"
proof -
  let ?ls = "map decoded (stream_lines (delivered reads))"
  have "fits (drop (newest ?ls) ?ls)" "newest ?ls \<le> length ?ls" by (rule fits_newest, rule newest_le)
  then show ?thesis
    unfolding newest_def [symmetric] by (simp add: collect_lines_spec Let_def fits_def del: drop_map)
qed

text \<open>
  The outcome of early boot. The script run is the override under the data root if that file exists, else the
  one in \<open>/etc\<close>, else the embedded one. It succeeds exactly when the shell started, an embedded script could be
  written to it, and it ended with code 0; a shell that was killed counts as exit code 1, and the output handed on
  carries the code or the signal whenever the wait succeeded.
\<close>

theorem early_boot_outcome:
  assumes "ca_spawn a = Inr ()" "early_boot_source fs ps = Embedded \<Longrightarrow> ca_stdin a = Some (Inr ())"
  shows "let ((out, r), os1) = run_early_boot a fs ps v os0 in
     os_spawned os1 = os_spawned os0 @
       [if om_contains fs (ps_early_boot_override ps) then path_command v (ps_early_boot_override ps)
        else if om_contains fs (ps_early_boot ps) then path_command v (ps_early_boot ps)
        else embedded_command v]
     \<and> eo_captured out = (ca_pipe a \<and> ca_clone a)
     \<and> (case ca_wait a of
          Inr (ExitCode c) \<Rightarrow> r = (if c = 0 then Inr () else Inl (ErrEarlyBoot c)) \<and> eo_exit_code out = Some c \<and> eo_signal out = None
        | Inr (KilledBy sig) \<Rightarrow> r = Inl (ErrEarlyBoot 1) \<and> eo_exit_code out = None \<and> eo_signal out = Some sig
        | Inl e \<Rightarrow> r = Inl (ErrOther (''failed to wait for early-boot: '' @ e)) \<and> exit_header out = ''unknown'')"
  using assms
  by (simp add: run_early_boot_def early_boot_source_def run_script_def run_command_def run_script_bytes_def finish_wait_def
      join_capture_def
      try_stdio_capture_def output_from_collected_def exit_header_def Let_def
      split: sum.splits exit_status.splits prod.splits)

definition demo_answers :: child_answers where
  "demo_answers = \<lparr>ca_pipe = True, ca_clone = True, ca_spawn = Inr (), ca_stdin = Some (Inr ()),
     ca_reads = [Chunk ''mount'', Interrupted, Chunk (''ed'' @ [NL])], ca_wait = Inr (KilledBy 9)\<rparr>"

theorem early_boot_outcome_witness:
  "snd (fst (run_early_boot demo_answers [] (default_paths (join ''/'')) \<lparr>se_logs_tty = [], se_init_logs_tty = [],
     se_console = [], se_data_var = ''DATA_DIR'', se_data_root = ''/data''\<rparr> \<lparr>os_spawned = [], os_stderr = [], os_killed = 0\<rparr>))
   = Inl (ErrEarlyBoot 1)"
  using early_boot_outcome [of demo_answers "[]" "default_paths (join ''/'')"
    "\<lparr>se_logs_tty = [], se_init_logs_tty = [], se_console = [], se_data_var = ''DATA_DIR'', se_data_root = ''/data''\<rparr>"
    "\<lparr>os_spawned = [], os_stderr = [], os_killed = 0\<rparr>"]
  by (simp add: demo_answers_def split_beta)

end
