(* ===== verification/Init.thy ===== *)
theory Init
  imports Otel Boot_Scripts
begin

text \<open>
  The procedure of PID 1 (\<open>src/src/init.rs\<close>, with the option tables of \<open>src/src/main.rs\<close>): early boot and the
  loading of the configuration, bringing the supervisor up, the main loop and the shutdown sequence. Built with
  the features \<open>init\<close> and \<open>otel\<close>. What the early-boot script does to the files is an argument. Until the
  supervisor exists there is one thread, so this phase is a function on a record; from then on the computation acts on
  the shared state like every other thread. The inotify watcher and the accept loop are not modelled:
  the watcher's effect is the number of reload signals a turn of the main loop sees.
\<close>

section \<open>Options\<close>

record init_opts =
  io_logs_tty :: string
  io_init_logs_tty :: string
  io_console :: string
  io_paths :: paths
  io_skip_early_boot :: bool
  io_require_early_boot :: bool
  io_log_to_files :: bool
  io_early_boot_logs_path :: "path option"
  io_spawn_getty :: bool
  io_attach_ttys :: bool
  io_socket :: string
  io_machine_shutdown :: bool

definition default_opts :: "data_dir \<Rightarrow> init_opts" where
  "default_opts dd =
     \<lparr>io_logs_tty = DEFAULT_LOGS_TTY, io_init_logs_tty = DEFAULT_INIT_LOGS_TTY, io_console = DEFAULT_CONSOLE,
      io_paths = default_paths dd, io_skip_early_boot = False, io_require_early_boot = True, io_log_to_files = False,
      io_early_boot_logs_path = None, io_spawn_getty = True, io_attach_ttys = True, io_socket = default_socket_path dd,
      io_machine_shutdown = True\<rparr>"

definition supervise_opts :: "string \<Rightarrow> paths \<Rightarrow> string \<Rightarrow> bool \<Rightarrow> init_opts" where
  "supervise_opts console ps socket log_to_files =
     \<lparr>io_logs_tty = DEFAULT_LOGS_TTY, io_init_logs_tty = DEFAULT_INIT_LOGS_TTY, io_console = console,
      io_paths = ps, io_skip_early_boot = True, io_require_early_boot = False, io_log_to_files = log_to_files,
      io_early_boot_logs_path = None, io_spawn_getty = False, io_attach_ttys = False, io_socket = socket,
      io_machine_shutdown = False\<rparr>"

text \<open>\<open>Path::join\<close> with a relative path.\<close>

definition path_join :: "path \<Rightarrow> string \<Rightarrow> path" where
  "path_join p rel = (if p = [] then rel else if ends_with ''/'' p then p @ rel else p @ ''/'' @ rel)"

definition paths_for_config :: "data_dir \<Rightarrow> path \<Rightarrow> paths" where
  "paths_for_config dd config_path =
     (let ps = (default_paths dd)\<lparr>ps_config := config_path\<rparr> in
      case path_parent config_path of
        None \<Rightarrow> ps
      | Some parent \<Rightarrow>
          ps\<lparr>ps_example := path_join parent ''microinit.json.example'',
             ps_override_file := path_join parent ''microinit.services.enabled-override.json'',
             ps_dropins_dir := path_join (path_join parent ''microinit.d'') ''services''\<rparr>)"

definition default_init_opts :: "data_dir \<Rightarrow> string \<Rightarrow> init_opts" where
  "default_init_opts dd socket =
     (default_opts dd)\<lparr>io_paths := paths_for_config dd (default_config_path dd), io_socket := socket\<rparr>"

text \<open>The options of \<open>microinit init\<close> with its arguments.\<close>

record init_args =
  ar_logs_tty :: string
  ar_init_logs_tty :: string
  ar_console :: string
  ar_config :: path
  ar_no_early_boot :: bool
  ar_allow_no_early_boot :: bool
  ar_log_to_files :: bool
  ar_early_boot_logs_path :: "path option"

definition init_command_opts :: "data_dir \<Rightarrow> string \<Rightarrow> init_args \<Rightarrow> init_opts" where
  "init_command_opts dd socket a =
     \<lparr>io_logs_tty = ar_logs_tty a, io_init_logs_tty = ar_init_logs_tty a, io_console = ar_console a,
      io_paths = paths_for_config dd (ar_config a), io_skip_early_boot = ar_no_early_boot a,
      io_require_early_boot = (\<not> ar_allow_no_early_boot a \<and> \<not> ar_no_early_boot a), io_log_to_files = ar_log_to_files a,
      io_early_boot_logs_path = ar_early_boot_logs_path a, io_spawn_getty = True, io_attach_ttys = True,
      io_socket = socket, io_machine_shutdown = True\<rparr>"

text \<open>\<open>Path::file_name\<close>: the last component, unless it is \<open>..\<close>; empty components and \<open>.\<close> do not count.\<close>

fun path_parts :: "path \<Rightarrow> string list" where
  "path_parts [] = [[]]"
| "path_parts (c # cs) =
     (if c = CHR ''/'' then [] # path_parts cs
      else (case path_parts cs of p # ps \<Rightarrow> (c # p) # ps | [] \<Rightarrow> [[c]]))"

definition file_name :: "path \<Rightarrow> string option" where
  "file_name p =
     (case rev (filter (\<lambda>c. c \<noteq> [] \<and> c \<noteq> ''.'') (path_parts p)) of
        [] \<Rightarrow> None
      | c # _ \<Rightarrow> if c = ''..'' then None else Some c)"

definition should_auto_init :: "nat \<Rightarrow> string list \<Rightarrow> bool" where
  "should_auto_init pid argv =
     (if pid = 1 then True else (case argv of arg0 # _ \<Rightarrow> file_name arg0 = Some ''init'' | [] \<Rightarrow> False))"

section \<open>Before the supervisor\<close>

record pid1 =
  p1_files :: files
  p1_cache :: env_map
  p1_penv :: env_map
  p1_stderr :: "string list"
  p1_tty :: "string list"
  p1_outside :: outside
  p1_handlers :: dispositions

record init_answers =
  ia_refuse :: "os_signal \<Rightarrow> string option"
  ia_script :: child_answers
  ia_script_files :: "files \<Rightarrow> files"
  ia_opens :: "string \<Rightarrow> bool"
  ia_fault :: faults
  ia_short :: "(nat \<times> string) option"
  ia_sync :: "string option"
  ia_ts :: string
  ia_json :: json
  ia_db :: user_db
  ia_uid :: nat
  ia_data_dir :: data_dir
  ia_data_var :: string
  ia_data_root :: path
  ia_tree :: "dirent option"
  ia_otel_missing :: "path \<Rightarrow> bool"

definition boot_note :: "(string \<Rightarrow> bool) \<Rightarrow> string option \<Rightarrow> string \<Rightarrow> pid1 \<Rightarrow> pid1" where
  "boot_note opens init_logs_tty msg p =
     (let line = ''microinit: '' @ msg; p1 = p\<lparr>p1_stderr := p1_stderr p @ [line]\<rparr> in
      case init_logs_tty of
        Some tty \<Rightarrow> if opens tty then p1\<lparr>p1_tty := p1_tty p1 @ [line]\<rparr> else p1
      | None \<Rightarrow> p1)"

definition fatal_early_boot_logs_path :: "json \<Rightarrow> faults \<Rightarrow> files \<Rightarrow> init_opts \<Rightarrow> path option" where
  "fatal_early_boot_logs_path j fault fs opts =
     (case io_early_boot_logs_path opts of
        Some p \<Rightarrow> Some p
      | None \<Rightarrow> (case peek_early_boot_capture j fault fs (ps_config (io_paths opts)) of
          PeekEnabled p \<Rightarrow> Some p
        | PeekDisabled \<Rightarrow> None
        | Absent \<Rightarrow> (case path_parent (ps_early_boot (io_paths opts)) of
            None \<Rightarrow> None
          | Some parent \<Rightarrow> (case peek_early_boot_capture j fault fs (path_join parent ''microinit.json'') of
              PeekEnabled p \<Rightarrow> Some p
            | _ \<Rightarrow> None))))"

definition persist_early_boot_logs :: "init_answers \<Rightarrow> string option \<Rightarrow> init_opts \<Rightarrow> early_boot_output \<Rightarrow> pid1 \<Rightarrow> pid1" where
  "persist_early_boot_logs a preview opts out p =
     (let note = boot_note (ia_opens a) preview in
      if \<not> eo_captured out then note ''early-boot log capture: stdio was not captured; nothing to write'' p
      else (case fatal_early_boot_logs_path (ia_json a) (ia_fault a) (p1_files p) opts of
        None \<Rightarrow> note (''early-boot logs not written (no --early-boot-logs-path and captureLogs not enabled in an existing config)'') p
      | Some path \<Rightarrow>
          let (fs, r) = write_captured (ia_fault a) (ia_short a) (ia_sync a) (ia_ts a) path out (p1_files p);
              p1 = p\<lparr>p1_files := fs\<rparr>
          in case r of
               Inr n \<Rightarrow> note (''early-boot logs written to '' @ path @ '' ('' @ nat_str n @ '' lines)'') p1
             | Inl e \<Rightarrow> note (''early-boot logs not written to '' @ path @ '': '' @ error_to_string e) p1))"

definition load_config_after_early_boot :: "init_answers \<Rightarrow> init_opts \<Rightarrow> pid1 \<Rightarrow> pid1 \<times> config res" where
  "load_config_after_early_boot a opts p =
     (let ps = io_paths opts;
          (fs, cache, r) = load_or_create_with_dropins (ia_json a) (ia_fault a) (ia_db a) (ia_uid a) (ia_data_dir a) (ia_data_root a)
            (ps_config ps) (ps_example ps) (ps_override_file ps) (ps_dropins_dir ps) (ia_tree a) (p1_files p) (p1_cache p)
      in (p\<lparr>p1_files := fs, p1_cache := cache\<rparr>, res_bind r (\<lambda>cfg. Inr (cfg\<lparr>cfg_socket := io_socket opts\<rparr>))))"

definition early_boot_step :: "init_answers \<Rightarrow> string option \<Rightarrow> init_opts \<Rightarrow> pid1 \<Rightarrow> pid1 \<times> early_boot_output option res" where
  "early_boot_step a preview opts p =
     (let note = boot_note (ia_opens a) preview in
      if io_skip_early_boot opts then (note ''skipping early-boot (--no-early-boot / supervise)'' p, Inr None)
      else
        let v = \<lparr>se_logs_tty = io_logs_tty opts, se_init_logs_tty = io_init_logs_tty opts, se_console = io_console opts,
                 se_data_var = ia_data_var a, se_data_root = ia_data_root a\<rparr>;
            ((out, r), os1) = run_early_boot (ia_script a) (p1_files p) (io_paths opts) v (p1_outside p);
            p1 = p\<lparr>p1_files := ia_script_files a (p1_files p), p1_outside := os1\<rparr>
        in case r of
             Inr _ \<Rightarrow> (note ''early-boot finished; loading configuration from disk'' p1, Inr (Some out))
           | Inl e \<Rightarrow>
               let p2 = note (''early-boot failed: '' @ error_to_string e) p1 in
               if io_require_early_boot opts then (persist_early_boot_logs a preview opts out p2, Inl e)
               else (note ''continuing without early-boot; loading configuration from disk'' p2, Inr (Some out)))"

text \<open>\<open>run\<close> up to the loaded configuration; \<open>otel.env\<close> is read at \<open>$DATA_DIR/etc/otel.env\<close>.\<close>

definition prepare :: "init_answers \<Rightarrow> init_opts \<Rightarrow> pid1 \<Rightarrow> pid1 \<times> (config \<times> early_boot_output option) res" where
  "prepare a opts p =
     (let preview = (if io_attach_ttys opts then Some (io_init_logs_tty opts) else None);
          note = boot_note (ia_opens a) preview;
          (handlers, installed) = install_handlers (ia_refuse a) (p1_handlers p);
          p0 = p\<lparr>p1_handlers := handlers\<rparr>;
          p1 = (case installed of Inl e \<Rightarrow> note (''warning: could not install signal handlers: '' @ e) p0 | Inr _ \<Rightarrow> p0);
          (p2, eb) = early_boot_step a preview opts p1
      in case eb of
           Inl e \<Rightarrow> (p2, Inl e)
         | Inr early_boot_out \<Rightarrow>
             let (p3, c) = load_config_after_early_boot a opts p2 in
             case c of
               Inl e \<Rightarrow>
                 ((case early_boot_out of Some out \<Rightarrow> persist_early_boot_logs a preview opts out p3 | None \<Rightarrow> p3), Inl e)
             | Inr cfg \<Rightarrow>
                 ((case otel_load (ia_otel_missing a) (fs_read (ia_fault a) (p1_files p3)) (ia_data_dir a [''etc'', ''otel.env'']) (p1_penv p3) of
                     Inl e \<Rightarrow> note (''otel.env load failed (continuing): '' @ error_to_string e) p3
                   | Inr penv \<Rightarrow> p3\<lparr>p1_penv := penv\<rparr>),
                  Inr (if io_log_to_files opts then cfg\<lparr>cfg_logs := (cfg_logs cfg)\<lparr>lg_to_files := True\<rparr>\<rparr> else cfg, early_boot_out)))"

section \<open>Bringing the supervisor up\<close>

definition effective_logs_tty :: "init_opts \<Rightarrow> config \<Rightarrow> string" where
  "effective_logs_tty opts cfg =
     (if io_logs_tty opts \<noteq> DEFAULT_LOGS_TTY then io_logs_tty opts else lg_tty (cfg_logs cfg))"

definition effective_init_logs_tty :: "init_opts \<Rightarrow> config \<Rightarrow> string" where
  "effective_init_logs_tty opts cfg =
     (if io_init_logs_tty opts \<noteq> DEFAULT_INIT_LOGS_TTY then io_init_logs_tty opts else lg_init_tty (cfg_logs cfg))"

definition init_hub :: "(string \<Rightarrow> bool) \<Rightarrow> init_opts \<Rightarrow> config \<Rightarrow> log_hub" where
  "init_hub opens opts cfg =
     hub_new (lg_lines (cfg_logs cfg))
       (io_attach_ttys opts \<and> opens (effective_logs_tty opts cfg))
       (io_attach_ttys opts \<and> opens (effective_init_logs_tty opts cfg))
       (effective_log_dir (cfg_logs cfg))"

text \<open>The system's answers to \<open>write_captured\<close>, to binding the socket and to starting the watcher.\<close>

record up_answers =
  ua_short :: "(nat \<times> string) option"
  ua_sync :: "string option"
  ua_bind :: "bind_options \<Rightarrow> accept_policy \<Rightarrow> bind_error option"
  ua_watch :: "path \<Rightarrow> path \<Rightarrow> string option"
  ua_is_dir :: "path \<Rightarrow> bool"
  ua_pid :: nat

definition flush_early_boot_logs :: "up_answers \<Rightarrow> config \<Rightarrow> early_boot_output option \<Rightarrow> bool \<Rightarrow> unit prog" where
  "flush_early_boot_logs ua cfg captured skipped =
     (if \<not> eb_capture_logs (cfg_early_boot cfg) then log_init LvInfo ''early-boot log capture disabled''
      else if skipped then log_init LvInfo ''early-boot log capture not applicable (supervise / --no-early-boot)''
      else (case captured of
        None \<Rightarrow> log_init LvWarn ''early-boot log capture enabled but nothing to write''
      | Some out \<Rightarrow>
          let path = eb_logs_path (cfg_early_boot cfg) in
          if \<not> eo_captured out then
            log_init LvWarn (''early-boot log capture enabled but stdio was not captured; skipping '' @ path)
          else
            bind (atomic (\<lambda>e w.
              let (fs, r) = write_captured (e_fault e (w_tick w)) (ua_short ua) (ua_sync ua) (e_ts e (w_tick w)) path out (w_files w)
              in (r, w\<lparr>w_files := fs\<rparr>))) (\<lambda>r.
            case r of
              Inr n \<Rightarrow> log_init LvInfo (''early-boot logs written to '' @ path @ '' ('' @ nat_str n @ '' lines)'')
            | Inl err \<Rightarrow> log_init LvWarn (''early-boot logs not written to '' @ path @ '': '' @ error_to_string err))))"

text \<open>\<open>config_watch::spawn\<close>, as far as the daemon sees it.\<close>

definition start_watch :: "up_answers \<Rightarrow> path \<Rightarrow> path \<Rightarrow> unit prog" where
  "start_watch ua etc_dir dropins_dir =
     (case ua_watch ua etc_dir dropins_dir of
        Some err \<Rightarrow> log_init LvWarn (''config watch unavailable: '' @ err)
      | None \<Rightarrow> log_init LvInfo (''config watch active on '' @ etc_dir @ '' (drop-ins ''
          @ (if ua_is_dir ua dropins_dir then ''recursive'' else ''pending'') @ '')''))"

definition etc_dir_of :: "paths \<Rightarrow> path" where
  "etc_dir_of ps = (case path_parent (ps_config ps) of Some d \<Rightarrow> d | None \<Rightarrow> ''/data/etc'')"

definition after_boot :: "up_answers \<Rightarrow> init_opts \<Rightarrow> unit prog" where
  "after_boot ua opts =
     bind (writes (\<lambda>e w. w\<lparr>w_hub := end_boot_tee (w_hub w)\<rparr>)) (\<lambda>_.
     bind (log_init LvInfo ''boot tee ended; further lifecycle logs only on init-logs-tty'') (\<lambda>_.
     if io_spawn_getty opts \<and> ua_pid ua = 1 then ret ()
     else if \<not> io_spawn_getty opts then log_init LvInfo ''getty disabled (supervise)''
     else log_init LvInfo ''not PID 1; skipping getty respawn''))"

definition bring_up :: "'j daemon \<Rightarrow> up_answers \<Rightarrow> init_opts \<Rightarrow> config \<Rightarrow> early_boot_output option \<Rightarrow> unit res prog" where
  "bring_up dm ua opts cfg early_boot_out =
     bind (log_init LvInfo ''configuration loaded'') (\<lambda>_.
     bind (flush_early_boot_logs ua cfg early_boot_out (io_skip_early_boot opts)) (\<lambda>_.
     bind (log_init LvInfo
       (if io_attach_ttys opts
        then ''service logs on '' @ effective_logs_tty opts cfg @ ''; init logs on '' @ effective_init_logs_tty opts cfg
        else ''TTY attach disabled (supervise); logs via ring/IPC'')) (\<lambda>_.
     bind (case (lg_to_files (cfg_logs cfg), lg_dir (cfg_logs cfg)) of
             (True, Some dir) \<Rightarrow> log_init LvInfo (''logToFiles enabled; writing under '' @ dir)
           | _ \<Rightarrow> ret ()) (\<lambda>_. \<lambda>e.
     (case res_bind (resolved_ipc_allow (e_db e) (fst (e_cur e)) cfg) (\<lambda>allow.
             res_bind (serve (cfg_socket cfg) allow) (\<lambda>(bo, ap).
             case ua_bind ua bo ap of Some err \<Rightarrow> Inl (map_bind err) | None \<Rightarrow> Inr ())) of
        Inl err \<Rightarrow> ret (Inl err)
      | Inr _ \<Rightarrow>
          bind (log_init LvInfo (''IPC listening on '' @ cfg_socket cfg)) (\<lambda>_.
          bind (start_watch ua (etc_dir_of (io_paths opts)) (ps_dropins_dir (io_paths opts))) (\<lambda>_.
          bind (log_init LvInfo ''starting services'') (\<lambda>_.
          bind boot (\<lambda>r.
          case r of
            Inl err \<Rightarrow> ret (Inl err)
          | Inr _ \<Rightarrow>
              bind (log_init LvInfo ''boot complete'') (\<lambda>_.
              bind (open_telemetry dm) (\<lambda>otel_cfg.
              bind (maybe_spawn otel_cfg) (\<lambda>_.
              bind (after_boot ua opts) (\<lambda>_. ret (Inr ())))))))))) e))))"

section \<open>The main loop\<close>

text \<open>The state of the process as a whole: shared state, signal flags, what was done outside, the calls that end it.\<close>

record sys =
  sy_world :: world
  sy_flags :: sig_flags
  sy_handlers :: dispositions
  sy_outside :: outside
  sy_removed :: "path list"
  sy_calls :: "final_call list"

datatype main_end = Goes sys | Ended sys | Crashed string

definition run_on :: "'a prog \<Rightarrow> env \<Rightarrow> sys \<Rightarrow> (sys \<Rightarrow> main_end) \<Rightarrow> main_end" where
  "run_on m e s k = (case m e (sy_world s) of Ret _ w \<Rightarrow> k (s\<lparr>sy_world := w\<rparr>) | Panic msg \<Rightarrow> Crashed msg)"

text \<open>
  What a turn meets: the answers of \<open>waitpid\<close>, the drop-in tree at each reload signal, the signals and requests
  before the shutdown flag is read, and how the shell of the unmount script and \<open>reboot(2)\<close> behave.
\<close>

record turn_input =
  ti_waits :: "wait_answer list"
  ti_victim :: "i32 list \<Rightarrow> i32"
  ti_reloads :: "dirent option list"
  ti_events :: "flag_event list"
  ti_unmount :: child_answers
  ti_reboot_returns :: bool

record main_vars =
  mv_opts :: init_opts
  mv_data_dir :: data_dir
  mv_data_var :: string
  mv_data_root :: path
  mv_logs_tty :: string
  mv_init_logs_tty :: string
  mv_socket_path :: path
  mv_pid :: nat

definition publish_exit :: "(i32 list \<Rightarrow> i32) \<Rightarrow> i32 \<times> i32 \<Rightarrow> unit prog" where
  "publish_exit victim pc = writes (\<lambda>e w. w\<lparr>w_exits := exits_publish victim (fst pc) (snd pc) (w_exits w)\<rparr>)"

definition load_again :: "main_vars \<Rightarrow> dirent option \<Rightarrow> config res prog" where
  "load_again mv tree = atomic (\<lambda>e w.
     let ps = io_paths (mv_opts mv);
         (fs, cache, r) = load_or_create_with_dropins (e_json e) (e_fault e (w_tick w)) (e_db e) (fst (e_cur e)) (mv_data_dir mv)
           (mv_data_root mv) (ps_config ps) (ps_example ps) (ps_override_file ps) (ps_dropins_dir ps) tree (w_files w) (w_env_cache w)
     in (r, w\<lparr>w_files := fs, w_env_cache := cache\<rparr>))"

definition on_reload_signal :: "main_vars \<Rightarrow> dirent option \<Rightarrow> unit prog" where
  "on_reload_signal mv tree =
     bind (load_again mv tree) (\<lambda>r.
     case r of
       Inr cfg \<Rightarrow>
         bind (reload (cfg\<lparr>cfg_socket := io_socket (mv_opts mv)\<rparr>)) (\<lambda>res.
         case res of
           Inl err \<Rightarrow> log_init LvError (''config reload apply failed: '' @ error_to_string err)
         | Inr _ \<Rightarrow> ret ())
     | Inl err \<Rightarrow> log_init LvWarn (''config reload ignored (keep old): '' @ error_to_string err))"

definition script_env_of :: "main_vars \<Rightarrow> script_env" where
  "script_env_of mv =
     \<lparr>se_logs_tty = mv_logs_tty mv, se_init_logs_tty = mv_init_logs_tty mv, se_console = io_console (mv_opts mv),
      se_data_var = mv_data_var mv, se_data_root = mv_data_root mv\<rparr>"

definition late_unmount :: "main_vars \<Rightarrow> turn_input \<Rightarrow> shutdown_mode \<Rightarrow> env \<Rightarrow> sys \<Rightarrow> main_end" where
  "late_unmount mv ti mode e s =
     (let (r, os1) = run_unmount (ti_unmount ti) (w_files (sy_world s)) (io_paths (mv_opts mv)) (script_env_of mv) (sy_outside s)
      in run_on (case r of
             Inl err \<Rightarrow> log_init LvWarn (''unmount failed (continuing to '' @ shutdown_mode_str mode @ ''): '' @ error_to_string err)
           | Inr _ \<Rightarrow> ret ()) e (s\<lparr>sy_outside := os1\<rparr>) (\<lambda>s1.
         Ended (s1\<lparr>sy_calls := sy_calls s1 @ finalize (mv_pid mv) (ti_reboot_returns ti) mode\<rparr>)))"

text \<open>After the services are stopped: supervise exits, init unmounts and ends the machine.\<close>

definition leave :: "main_vars \<Rightarrow> turn_input \<Rightarrow> shutdown_mode \<Rightarrow> env \<Rightarrow> sys \<Rightarrow> main_end" where
  "leave mv ti mode e s =
     (let s3 = s\<lparr>sy_removed := sy_removed s @ [mv_socket_path mv]\<rparr> in
      if \<not> io_machine_shutdown (mv_opts mv) then
        run_on (log_init LvInfo ''supervise shutdown complete; exiting'') e (s3\<lparr>sy_calls := sy_calls s3 @ [CallSync]\<rparr>) (\<lambda>s4.
        Ended (s4\<lparr>sy_calls := sy_calls s4 @ [CallExit 0]\<rparr>))
      else
        run_on (log_init LvInfo ''running late-shutdown unmount'') e s3 (late_unmount mv ti mode e))"

definition shutdown_sequence :: "main_vars \<Rightarrow> turn_input \<Rightarrow> shutdown_mode \<Rightarrow> env \<Rightarrow> sys \<Rightarrow> main_end" where
  "shutdown_sequence mv ti mode e s =
     run_on (log_init LvInfo (''shutdown requested: '' @ shutdown_mode_str mode)) e s (\<lambda>s1.
     run_on stop_all_ordered e s1 (leave mv ti mode e))"

definition main_turn :: "main_vars \<Rightarrow> turn_input \<Rightarrow> env \<Rightarrow> sys \<Rightarrow> main_end" where
  "main_turn mv ti e s =
     (let s0 = s\<lparr>sy_flags := snd (sigchld_pending (sy_flags s))\<rparr> in
      run_on (for_each (publish_exit (ti_victim ti)) (reap_zombies (ti_waits ti))) e s0 (\<lambda>s1.
      run_on (for_each (on_reload_signal mv) (ti_reloads ti)) e s1 (\<lambda>s2.
      let (mode, flags) = take_shutdown (foldl (flag_step (sy_handlers s2)) (sy_flags s2) (ti_events ti));
          s3 = s2\<lparr>sy_flags := flags\<rparr>
      in case mode of
           Some m \<Rightarrow> shutdown_sequence mv ti m e s3
         | None \<Rightarrow> run_on (sleep INIT_LOOP_SLEEP) e s3 Goes)))"

fun main_loop :: "main_vars \<Rightarrow> turn_input list \<Rightarrow> env \<Rightarrow> sys \<Rightarrow> main_end" where
  "main_loop mv [] e s = Goes s"
| "main_loop mv (ti # tis) e s = (case main_turn mv ti e s of Goes s' \<Rightarrow> main_loop mv tis e s' | r \<Rightarrow> r)"

section \<open>Getty\<close>

text \<open>\<open>trim_start_matches("/dev/")\<close>: the prefix is removed as often as it occurs.\<close>

function trim_dev :: "string \<Rightarrow> string" where
  "trim_dev s = (case strip_prefix ''/dev/'' s of Some rest \<Rightarrow> trim_dev rest | None \<Rightarrow> s)"
  by pat_completeness auto
termination
proof (relation "measure length", goal_cases)
  case (2 s rest)
  then have "length ''/dev/'' \<le> length s" "rest = drop (length ''/dev/'') s"
    by (auto simp: strip_prefix_def starts_with_def split: if_splits dest: arg_cong [of _ _ length])
  then show ?case by simp
qed simp

text \<open>The commands of \<open>getty_respawn\<close>; for each turn, whether \<open>getty\<close> could not be started.\<close>

definition getty_respawn :: "string \<Rightarrow> bool list \<Rightarrow> (string \<times> string list) list" where
  "getty_respawn console failures =
     concat (map (\<lambda>failed.
       (''/sbin/getty'', [''-L'', ''115200'', trim_dev console, ''vt100''])
       # (if failed then [(''/bin/sh'', [''-l''])] else [])) failures)"

section \<open>Computations that always return\<close>

definition ends :: "env \<Rightarrow> 'a prog \<Rightarrow> bool" where
  "ends e m = (\<forall>w. \<exists>x w'. m e w = Ret x w')"

lemma endsD: "ends e m \<Longrightarrow> \<exists>x w'. m e w = Ret x w'"
  by (simp add: ends_def)

lemma ends_bind:
  assumes "ends e m" "\<And>x. ends e (f x)"
  shows "ends e (bind m f)"
  unfolding ends_def
proof
  fix w
  obtain x v where "m e w = Ret x v" using endsD [OF assms(1)] by blast
  then show "\<exists>y w'. bind m f e w = Ret y w'" using endsD [OF assms(2)] by (simp add: bind_def)
qed

lemma ends_simple: "ends e (ret x)" "ends e (reads f)" "ends e (writes g)" "ends e (atomic h)" "ends e (sleep d)"
  by (simp_all add: ends_def atomic_simp sleep_def)

lemma ends_if: "ends e m \<Longrightarrow> ends e n \<Longrightarrow> ends e (if b then m else n)"
  by simp

lemma ends_case_sum: "(\<And>x. ends e (f x)) \<Longrightarrow> (\<And>y. ends e (g y)) \<Longrightarrow> ends e (case s of Inl x \<Rightarrow> f x | Inr y \<Rightarrow> g y)"
  by (simp split: sum.split)

lemma ends_case_option: "ends e m \<Longrightarrow> (\<And>y. ends e (g y)) \<Longrightarrow> ends e (case s of None \<Rightarrow> m | Some y \<Rightarrow> g y)"
  by (simp split: option.split)

lemma ends_for_each: "(\<And>x. ends e (f x)) \<Longrightarrow> ends e (for_each f xs)"
  by (induction xs) (simp_all add: ends_simple ends_bind)

lemma ends_same_run: "(\<And>w. m e w = m' e w) \<Longrightarrow> ends e m' \<Longrightarrow> ends e m"
  by (simp add: ends_def)

lemmas ends_flow = ends_bind ends_simple ends_if ends_case_sum ends_case_option ends_for_each

lemma ends_log_init: "ends e (log_init level msg)"
  by (simp add: log_init_def ends_simple)

lemma ends_send_ctl: "ends e (send_ctl name msg)"
  by (simp add: send_ctl_def ends_simple)

lemma ends_notify: "ends e notify_watchers"
  unfolding notify_watchers_def by (intro ends_flow)

lemma ends_apply_enabled: "ends e (apply_enabled name b)"
  unfolding apply_enabled_def by (intro ends_flow ends_notify)

lemma ends_spawn_monitor: "ends e (spawn_monitor name)"
  by (simp add: spawn_monitor_def ends_simple)

lemmas ends_ops = ends_log_init ends_send_ctl ends_notify ends_apply_enabled ends_spawn_monitor

lemma ends_reload_services: "ends e (reload_services old ss)"
proof (induction ss)
  case (Cons s ss)
  have "ends e (reload_service old s)"
    unfolding reload_service_def Let_def by (intro ends_flow ends_ops)
  then show ?case unfolding reload_services.simps by (intro ends_flow Cons.IH)
qed (simp add: ends_def)

lemma ends_remove_services: "ends e (\<lambda>e. for_each remove_service (e_ho e gone) e)"
proof -
  have "ends e (for_each remove_service (e_ho e gone))"
    unfolding remove_service_def by (intro ends_flow ends_ops)
  then show ?thesis by (simp add: ends_def)
qed

lemma ends_reload: "ends e (reload cfg)"
  unfolding reload_def Let_def warn_if_def by (intro ends_flow ends_ops ends_reload_services ends_remove_services)

lemma ends_stop_order: "ends e (stop_order services)"
proof (cases "shutdown_order (e_ho e) services")
  case (Inl err)
  have "ends e (bind (log_init LvError (''shutdown order failed ('' @ error_to_string err @ ''); using reverse config order''))
      (\<lambda>_. ret (rev (map sc_name services))))"
    by (intro ends_flow ends_ops)
  then show ?thesis using Inl by (simp add: ends_def stop_order_def)
qed (simp add: ends_def stop_order_def)

lemma ends_stop_all_ordered: "ends e stop_all_ordered"
  unfolding stop_all_ordered_def send_or_log_def by (intro ends_flow ends_ops ends_stop_order)

lemma ends_on_reload_signal: "ends e (on_reload_signal mv tree)"
  unfolding on_reload_signal_def load_again_def by (intro ends_flow ends_ops ends_reload)

lemma run_on_rule:
  assumes "ends e m" "hoare e P m (\<lambda>_. Q)" "P (sy_world s)" "\<And>w'. Q w' \<Longrightarrow> R (k (s\<lparr>sy_world := w'\<rparr>))"
  shows "R (run_on m e s k)"
proof -
  obtain x w' where "m e (sy_world s) = Ret x w'" using endsD [OF assms(1)] by blast
  then show ?thesis using hoareD [OF assms(2,3)] assms(4) by (simp add: run_on_def)
qed

lemma run_on_total: "ends e m \<Longrightarrow> (\<And>w'. R (k (s\<lparr>sy_world := w'\<rparr>))) \<Longrightarrow> R (run_on m e s k)"
  by (rule run_on_rule [where P = "\<lambda>_. True" and Q = "\<lambda>_. True"]) (simp_all add: hoare_def split: outcome.split)

section \<open>The end of the machine\<close>

lemma unmount_spawned:
  "os_spawned (snd (run_unmount a fs ps v os0)) = os_spawned os0 @
     (case ca_spawn a of Inl _ \<Rightarrow> [] | Inr _ \<Rightarrow>
        [case unmount_source fs ps of ScriptPath p \<Rightarrow> path_command v p | Embedded \<Rightarrow> embedded_command v])"
  by (simp add: run_unmount_def unmount_script_def unmount_script_bytes_def split: script_source.split sum.split)

interpretation stopping: control_inv w_stop_all
  by unfold_locales (auto simp: inert_def timeless_def exit_free_def)

lemma stops_all:
  assumes "stable e w_stop_all"
  shows "hoare e (\<lambda>_. True) stop_all_ordered (\<lambda>_. w_stop_all)"
  unfolding stop_all_ordered_def
proof (rule hoare_bind [where R = "\<lambda>_. w_stop_all"])
  show "hoare e (\<lambda>_. True) (writes (\<lambda>e w. w\<lparr>w_stop_all := True\<rparr>)) (\<lambda>_. w_stop_all)"
    by (simp add: hoare_def)
qed (intro stopping.keeps_shared stopping.keeps_send_or_log stopping.keeps_stop_order assms)

definition final_calls :: "main_vars \<Rightarrow> turn_input \<Rightarrow> shutdown_mode \<Rightarrow> final_call list" where
  "final_calls mv ti mode =
     (if io_machine_shutdown (mv_opts mv) then finalize (mv_pid mv) (ti_reboot_returns ti) mode else [CallSync, CallExit 0])"

text \<open>What an ordered end of the process from state \<open>s\<close> has done.\<close>

definition shut_down :: "main_vars \<Rightarrow> turn_input \<Rightarrow> shutdown_mode \<Rightarrow> (world \<Rightarrow> bool) \<Rightarrow> sys \<Rightarrow> main_end \<Rightarrow> bool" where
  "shut_down mv ti mode Q s r =
     (case r of
        Ended s' \<Rightarrow>
          sy_calls s' = sy_calls s @ final_calls mv ti mode
          \<and> sy_removed s' = sy_removed s @ [mv_socket_path mv]
          \<and> (\<exists>fs. os_spawned (sy_outside s') = os_spawned (sy_outside s) @
               (if io_machine_shutdown (mv_opts mv) \<and> ca_spawn (ti_unmount ti) = Inr ()
                then [case unmount_source fs (io_paths (mv_opts mv)) of
                        ScriptPath p \<Rightarrow> path_command (script_env_of mv) p | Embedded \<Rightarrow> embedded_command (script_env_of mv)]
                else []))
          \<and> Q (sy_world s')
      | _ \<Rightarrow> False)"

lemma late_unmount_ends:
  assumes log: "\<And>level msg. keeps e Q (log_init level msg)" and "Q (sy_world s1)" "io_machine_shutdown (mv_opts mv)"
    "sy_calls s1 = sy_calls s" "sy_removed s1 = sy_removed s @ [mv_socket_path mv]" "sy_outside s1 = sy_outside s"
  shows "shut_down mv ti mode Q s (late_unmount mv ti mode e s1)"
proof -
  obtain r os1 where u: "run_unmount (ti_unmount ti) (w_files (sy_world s1)) (io_paths (mv_opts mv)) (script_env_of mv) (sy_outside s) = (r, os1)"
    by fastforce
  let ?warn = "case r of
      Inl err \<Rightarrow> log_init LvWarn (''unmount failed (continuing to '' @ shutdown_mode_str mode @ ''): '' @ error_to_string err)
    | Inr _ \<Rightarrow> ret ()"
  have "keeps e Q ?warn" "ends e ?warn"
    using log by (auto split: sum.split intro: hoare_ret ends_flow ends_ops)
  moreover have "\<exists>fs. os_spawned os1 = os_spawned (sy_outside s) @
      (if ca_spawn (ti_unmount ti) = Inr () then [case unmount_source fs (io_paths (mv_opts mv)) of
         ScriptPath p \<Rightarrow> path_command (script_env_of mv) p | Embedded \<Rightarrow> embedded_command (script_env_of mv)] else [])"
    using unmount_spawned [of "ti_unmount ti" "w_files (sy_world s1)" "io_paths (mv_opts mv)" "script_env_of mv" "sy_outside s"] u
    by (auto split: sum.splits)
  ultimately show ?thesis
    using assms(2-) u unfolding late_unmount_def
    by (simp only: u assms(6) prod.case Let_def)
      (rule run_on_rule [where P = Q and Q = Q], auto simp: shut_down_def final_calls_def)
qed

lemma leave_ends:
  assumes log: "\<And>level msg. keeps e Q (log_init level msg)" and Q: "Q (sy_world s2)"
    and same: "sy_calls s2 = sy_calls s" "sy_removed s2 = sy_removed s" "sy_outside s2 = sy_outside s"
  shows "shut_down mv ti mode Q s (leave mv ti mode e s2)"
proof (cases "io_machine_shutdown (mv_opts mv)")
  case True
  then show ?thesis
    unfolding leave_def Let_def
    by simp (rule run_on_rule [OF ends_log_init log], use Q same log in \<open>simp_all add: late_unmount_ends\<close>)
next
  case False
  then show ?thesis
    unfolding leave_def Let_def
    by simp (rule run_on_rule [OF ends_log_init log], use Q same in \<open>simp_all add: shut_down_def final_calls_def\<close>)
qed

lemma sequence_ends:
  assumes stop: "hoare e (\<lambda>_. True) stop_all_ordered (\<lambda>_. Q)" and log: "\<And>level msg. keeps e Q (log_init level msg)"
  shows "shut_down mv ti mode Q s (shutdown_sequence mv ti mode e s)"
  unfolding shutdown_sequence_def
proof (rule run_on_total [OF ends_log_init, where R = "shut_down mv ti mode Q s"])
  fix w1
  show "shut_down mv ti mode Q s (run_on stop_all_ordered e (s\<lparr>sy_world := w1\<rparr>) (leave mv ti mode e))"
    by (rule run_on_rule [OF ends_stop_all_ordered stop]) (simp_all add: leave_ends log)
qed


definition demo_turn_input :: "flag_event list \<Rightarrow> turn_input" where
  "demo_turn_input evs = \<lparr>ti_waits = [WaitStillAlive], ti_victim = first_key, ti_reloads = [], ti_events = evs,
     ti_unmount = demo_answers, ti_reboot_returns = False\<rparr>"

definition demo_vars :: main_vars where
  "demo_vars = \<lparr>mv_opts = default_opts (join ''/''), mv_data_dir = join ''/'', mv_data_var = ''DATA_DIR'', mv_data_root = ''/data'',
     mv_logs_tty = ''/dev/tty2'', mv_init_logs_tty = ''/dev/tty3'', mv_socket_path = ''/s'', mv_pid = 1\<rparr>"

definition demo_sys :: sys where
  "demo_sys = \<lparr>sy_world = demo_run_world, sy_flags = initial_flags, sy_handlers = fst (install_handlers (\<lambda>_. None) []),
     sy_outside = \<lparr>os_spawned = [], os_stderr = [], os_killed = 0\<rparr>, sy_removed = [], sy_calls = []\<rparr>"


section \<open>The loop ends when asked\<close>

definition asks :: "turn_input \<Rightarrow> shutdown_mode list" where
  "asks ti = rev (List.map_filter event_mode (ti_events ti))"

definition idle :: "dispositions \<Rightarrow> sys \<Rightarrow> sys \<Rightarrow> bool" where
  "idle d s s' = (sy_handlers s' = d \<and> flag_to_mode (sf_shutdown (sy_flags s')) = None \<and> sy_calls s' = sy_calls s)"

lemma main_turn_cases:
  assumes d: "install_handlers refuse d0 = (d, Inr ())" and s: "idle d s0 s"
  shows "case main_turn mv ti e s of
      Goes s' \<Rightarrow> asks ti = [] \<and> idle d s0 s'
    | Ended s' \<Rightarrow> \<exists>m ms. asks ti = m # ms \<and> sy_calls s' = sy_calls s0 @ final_calls mv ti m
    | Crashed _ \<Rightarrow> False"
  (is "?R (main_turn mv ti e s)")
proof -
  have ends: "ends e (for_each (publish_exit v) xs)" "ends e (for_each (on_reload_signal mv) ys)" for v xs ys
    unfolding publish_exit_def by (intro ends_flow ends_on_reload_signal)+
  have f: "flag_to_mode (sf_shutdown (foldl (flag_step d) (sy_flags s\<lparr>sf_sigchld := False\<rparr>) (ti_events ti))) =
      (case asks ti of m # _ \<Rightarrow> Some m | [] \<Rightarrow> None)"
    using flags_mode [OF d, of "sy_flags s\<lparr>sf_sigchld := False\<rparr>" "ti_events ti"] s by (simp add: asks_def idle_def split: list.split)
  have shut: "?R (shutdown_sequence mv ti m e s3)" if "asks ti = m # ms" "sy_calls s3 = sy_calls s0" for m ms s3
  proof -
    have "hoare e (\<lambda>_. True) p (\<lambda>_ _. True)" for p :: "unit prog" by (simp add: hoare_def split: outcome.split)
    then have "shut_down mv ti m (\<lambda>_. True) s3 (shutdown_sequence mv ti m e s3)" by (intro sequence_ends)
    then show ?thesis using that by (simp add: shut_down_def split: main_end.splits)
  qed
  show ?thesis
    unfolding main_turn_def Let_def
  proof (rule run_on_total [OF ends(1), where R = ?R], rule run_on_total [OF ends(2), where R = ?R], goal_cases)
    case (1 w1 w2)
    show ?case
    proof (cases "asks ti")
      case Nil
      then show ?thesis using s f
        by (simp add: take_shutdown_def sigchld_pending_def idle_def) (rule run_on_total [OF ends_simple(5), where R = ?R], simp add: idle_def Nil)
    next
      case (Cons m ms)
      then show ?thesis using s f shut [OF Cons] by (simp add: take_shutdown_def sigchld_pending_def idle_def)
    qed
  qed
qed

lemma main_loop_cases:
  assumes d: "install_handlers refuse d0 = (d, Inr ())"
  shows "idle d s0 s \<Longrightarrow> case main_loop mv tis e s of
      Goes s' \<Rightarrow> list_all (\<lambda>ti. asks ti = []) tis \<and> idle d s0 s'
    | Ended s' \<Rightarrow> \<exists>pre ti post m ms. tis = pre @ ti # post \<and> list_all (\<lambda>ti. asks ti = []) pre
        \<and> asks ti = m # ms \<and> sy_calls s' = sy_calls s0 @ final_calls mv ti m
    | Crashed _ \<Rightarrow> False"
proof (induction tis arbitrary: s)
  case (Cons ti tis)
  show ?case
  proof (cases "main_turn mv ti e s")
    case (Goes s')
    then have "asks ti = []" "idle d s0 s'" using main_turn_cases [OF d Cons.prems, where mv = mv and ti = ti and e = e] by simp_all
    note here = this Cons.IH [OF this(2)]
    show ?thesis
    proof (cases "main_loop mv tis e s'")
      case (Ended t)
      then obtain pre ti' post m ms where "tis = pre @ ti' # post" "list_all (\<lambda>ti. asks ti = []) pre" "asks ti' = m # ms"
        "sy_calls t = sy_calls s0 @ final_calls mv ti' m"
        using here(3) by auto
      moreover from this have "ti # tis = (ti # pre) @ ti' # post" "list_all (\<lambda>ti. asks ti = []) (ti # pre)"
        using here(1) by simp_all
      moreover have "main_loop mv (ti # tis) e s = Ended t" using Ended Goes by simp
      ultimately show ?thesis by (simp only: main_end.case) blast
    qed (use here Goes in simp_all)
  next
    case (Ended s')
    then obtain m ms where "asks ti = m # ms" "sy_calls s' = sy_calls s0 @ final_calls mv ti m"
      using main_turn_cases [OF d Cons.prems, where mv = mv and ti = ti and e = e] by auto
    then show ?thesis using Ended by (auto intro!: exI [of _ "[]"])
  next
    case (Crashed msg)
    then show ?thesis using main_turn_cases [OF d Cons.prems, where mv = mv and ti = ti and e = e] by simp
  qed
qed simp

text \<open>
  C4: PID 1 runs until it is asked to stop, and then stops as it was asked. With the handlers installed and no
  request pending, the main loop goes on through any number of turns in which no signal and no client asks for a
  shutdown, whatever exits, reloads and broken configurations it meets; in the first turn with a request it ends with
  the final calls of the last request of that turn. It never dies of a panic of its own.
\<close>

theorem main_loop_ends_when_asked:
  assumes "install_handlers refuse d = (sy_handlers s, Inr ())" "flag_to_mode (sf_shutdown (sy_flags s)) = None"
  shows "case main_loop mv tis e s of
      Goes s' \<Rightarrow> list_all (\<lambda>ti. asks ti = []) tis \<and> sy_calls s' = sy_calls s
    | Ended s' \<Rightarrow> \<exists>pre ti post m ms. tis = pre @ ti # post \<and> list_all (\<lambda>ti. asks ti = []) pre
        \<and> asks ti = m # ms \<and> sy_calls s' = sy_calls s @ final_calls mv ti m
    | Crashed _ \<Rightarrow> False"
proof -
  have "idle (sy_handlers s) s s" using assms(2) by (simp add: idle_def)
  from main_loop_cases [OF assms(1) this, where mv = mv and tis = tis and e = e] show ?thesis
    by (simp add: idle_def split: main_end.splits)
qed

theorem main_loop_ends_when_asked_witness:
  "\<exists>s'. main_loop demo_vars [demo_turn_input [], demo_turn_input [Arrives OsUsr1]] demo_env demo_sys = Ended s'
    \<and> sy_calls s' = [CallSync, CallReboot RB_HALT_SYSTEM]"
proof -
  have "install_handlers (\<lambda>_. None) [] = (sy_handlers demo_sys, Inr ())" "flag_to_mode (sf_shutdown (sy_flags demo_sys)) = None"
    by (simp_all add: demo_sys_def install_handlers_def initial_flags_def)
  from main_loop_ends_when_asked [OF this, where mv = demo_vars and tis = "[demo_turn_input [], demo_turn_input [Arrives OsUsr1]]" and e = demo_env] show ?thesis
    by (auto simp: asks_def demo_turn_input_def List.map_filter_def event_mode_def final_calls_def demo_vars_def default_opts_def
        finalize_def invoke_reboot_def demo_sys_def Cons_eq_append_conv append_eq_Cons_conv split: main_end.splits)
qed

section \<open>A configuration that does not load\<close>

definition services_as :: "config \<times> runtimes \<times> (string, nat) omap \<times> (nat, ctl_msg list) omap \<Rightarrow> world \<Rightarrow> bool" where
  "services_as x w = ((w_config w, w_runtimes w, w_ctl w, w_queues w) = x)"

lemma services_as_simps [simp]:
  "services_as x (w\<lparr>w_hub := h\<rparr>) = services_as x w"
  "services_as x (w\<lparr>w_files := fs, w_env_cache := c\<rparr>) = services_as x w"
  by (simp_all add: services_as_def)

lemma services_as_load: "stable e (services_as x) \<Longrightarrow> keeps e (services_as x) (load_again mv tree)"
  unfolding load_again_def by (rule keeps_atomic) (simp_all add: split_beta Let_def)


definition bad_json_env :: env where
  "bad_json_env = demo_env\<lparr>e_json := (e_json demo_env)\<lparr>dec_config := (\<lambda>_. Inl ''expected value'')\<rparr>\<rparr>"

lemma bad_json_load: "\<exists>err w'. load_again mv tree bad_json_env w = Ret (Inl err) w'"
  by (simp add: load_again_def atomic_simp load_or_create_with_dropins_def read_merged_def bad_json_env_def split_beta Let_def
      split: sum.split)


section \<open>A failed early boot\<close>

lemma write_captured_other: "q \<noteq> path \<Longrightarrow> om_get (fst (write_captured fault short sync ts path out fs)) q = om_get fs q"
  by (simp add: write_captured_def fs_then_def at_path_def fs_mkdir_def fs_write_def Let_def
      split: option.split sum.split prod.split)

lemma boot_note_fields [simp]:
  "p1_files (boot_note opens tty msg p) = p1_files p" "p1_cache (boot_note opens tty msg p) = p1_cache p"
  by (simp_all add: boot_note_def Let_def split: option.split)

lemma persist_fields:
  "p1_cache (persist_early_boot_logs a preview opts out p) = p1_cache p"
  "Some q \<noteq> fatal_early_boot_logs_path (ia_json a) (ia_fault a) (p1_files p) opts \<Longrightarrow>
     om_get (p1_files (persist_early_boot_logs a preview opts out p)) q = om_get (p1_files p) q"
  by (auto simp: persist_early_boot_logs_def Let_def split_beta write_captured_other split: option.split sum.split)

text \<open>
  When early boot is required and fails, PID 1 stops there with that error: no configuration is loaded and none is
  created. After the script, the only file that may have changed is the log of the captured output, at the path
  of the command line or else of an existing configuration that enables the capture.
\<close>

theorem required_early_boot_blocks:
  assumes "\<not> io_skip_early_boot opts" "io_require_early_boot opts"
    "snd (fst (run_early_boot (ia_script a) (p1_files p) (io_paths opts)
       \<lparr>se_logs_tty = io_logs_tty opts, se_init_logs_tty = io_init_logs_tty opts, se_console = io_console opts,
        se_data_var = ia_data_var a, se_data_root = ia_data_root a\<rparr> (p1_outside p))) = Inl err"
    "Some q \<noteq> fatal_early_boot_logs_path (ia_json a) (ia_fault a) (ia_script_files a (p1_files p)) opts"
  shows "snd (prepare a opts p) = Inl err \<and> p1_cache (fst (prepare a opts p)) = p1_cache p
    \<and> om_get (p1_files (fst (prepare a opts p))) q = om_get (ia_script_files a (p1_files p)) q"
proof -
  have step: "snd (early_boot_step a preview opts p1) = Inl err"
    "p1_cache (fst (early_boot_step a preview opts p1)) = p1_cache p"
    "om_get (p1_files (fst (early_boot_step a preview opts p1))) q = om_get (ia_script_files a (p1_files p)) q"
    if "p1_files p1 = p1_files p" "p1_cache p1 = p1_cache p" "p1_outside p1 = p1_outside p" for preview p1
    using assms that by (simp_all add: early_boot_step_def Let_def split_beta persist_fields)
  have out: "p1_outside (boot_note opens tty msg p1) = p1_outside p1" for opens tty msg p1
    by (simp add: boot_note_def Let_def split: option.split)
  show ?thesis
    unfolding prepare_def Let_def split_beta
    by (cases "snd (install_handlers (ia_refuse a) (p1_handlers p))") (simp_all add: step out)
qed

definition demo_init_answers :: init_answers where
  "demo_init_answers = \<lparr>ia_refuse = (\<lambda>_. None), ia_script = demo_answers, ia_script_files = (\<lambda>fs. fs), ia_opens = (\<lambda>_. False),
     ia_fault = (\<lambda>_ _. None), ia_short = None, ia_sync = None, ia_ts = ''t'', ia_json = demo_json, ia_db = demo_db, ia_uid = 0,
     ia_data_dir = join ''/'', ia_data_var = ''DATA_DIR'', ia_data_root = ''/data'', ia_tree = None, ia_otel_missing = (\<lambda>_. True)\<rparr>"

definition demo_pid1 :: pid1 where
  "demo_pid1 = \<lparr>p1_files = [], p1_cache = [], p1_penv = [], p1_stderr = [], p1_tty = [],
     p1_outside = \<lparr>os_spawned = [], os_stderr = [], os_killed = 0\<rparr>, p1_handlers = []\<rparr>"

theorem required_early_boot_blocks_witness:
  "snd (prepare demo_init_answers (default_opts (join ''/'')) demo_pid1) = Inl (ErrEarlyBoot 1)
   \<and> om_get (p1_files (fst (prepare demo_init_answers (default_opts (join ''/'')) demo_pid1))) ''/data/etc/microinit.json'' = None"
proof -
  have "fatal_early_boot_logs_path demo_json (\<lambda>_ _. None) [] (default_opts (join ''/'')) = None"
    by (simp add: fatal_early_boot_logs_path_def default_opts_def peek_early_boot_capture_def om_contains_def split: option.split)
  moreover have "snd (fst (run_early_boot demo_answers [] (default_paths (join ''/'')) v
      \<lparr>os_spawned = [], os_stderr = [], os_killed = 0\<rparr>)) = Inl (ErrEarlyBoot 1)" for v
    by (simp add: run_early_boot_def early_boot_source_def om_contains_def run_script_bytes_def finish_wait_def demo_answers_def Let_def split_beta)
  ultimately show ?thesis
    using required_early_boot_blocks [of "default_opts (join ''/'')" demo_init_answers demo_pid1 "ErrEarlyBoot 1" "''/data/etc/microinit.json''"]
    by (simp add: default_opts_def demo_init_answers_def demo_pid1_def)
qed

end
