(* ===== verification/Cli.thy ===== *)
theory Cli
  imports Init
begin

text \<open>
  The command line: what the client prints for each response (\<open>src/src/cli.rs\<close>), the choice of what to run
  (\<open>src/src/main.rs\<close>) and the \<open>shutdown\<close> program (\<open>src/src/bin/shutdown.rs\<close>). A command gets the response to its
  request, or the error of the exchange, and leaves the text on standard output, the text on standard error and its result.
  Derived \<open>Debug\<close> texts and JSON printing are arguments, and so is the parser of \<open>clap\<close>. Standard output accepts
  every write.
\<close>

section \<open>Text\<close>

definition line :: "string \<Rightarrow> string" where "line s = s @ [NL]"

definition is_char_start :: "char \<Rightarrow> bool" where
  "is_char_start c = (\<not> byte_in c 0x80 0xBF)"

text \<open>Padding counts characters, not bytes: \<open>{:<w}\<close> and \<open>{:>w}\<close>.\<close>

definition char_count :: "string \<Rightarrow> nat" where
  "char_count s = length (filter is_char_start s)"

definition pad_right :: "nat \<Rightarrow> string \<Rightarrow> string" where
  "pad_right w s = s @ replicate (w - char_count s) CHR '' ''"

definition pad_left :: "nat \<Rightarrow> string \<Rightarrow> string" where
  "pad_left w s = replicate (w - char_count s) CHR '' '' @ s"

text \<open>\<open>chars().take(n)\<close> on valid UTF-8.\<close>

function take_chars :: "nat \<Rightarrow> string \<Rightarrow> string" where
  "take_chars 0 s = []"
| "take_chars (Suc n) [] = []"
| "take_chars (Suc n) (b # s) =
     b # takeWhile (\<lambda>c. \<not> is_char_start c) s @ take_chars n (dropWhile (\<lambda>c. \<not> is_char_start c) s)"
  by pat_completeness auto
termination by (relation "measure fst") auto

definition short_commit :: "string \<Rightarrow> string" where
  "short_commit full = take_chars 7 full"

definition yes_no :: "bool \<Rightarrow> string" where "yes_no b = (if b then ''yes'' else ''no'')"

definition or_dash :: "string \<Rightarrow> string" where "or_dash s = (if s = [] then ''-'' else s)"

definition pid_text :: "i32 option \<Rightarrow> string" where
  "pid_text p = (case p of Some n \<Rightarrow> int_str n | None \<Rightarrow> ''-'')"

definition format_uptime :: "nat option \<Rightarrow> string" where
  "format_uptime up =
     (case up of
        None \<Rightarrow> ''-''
      | Some s \<Rightarrow>
          let days = s div 86400; s1 = s mod 86400; hours = s1 div 3600; s2 = s1 mod 3600; mins = s2 div 60; s3 = s2 mod 60 in
          if days > 0 then nat_str days @ ''d '' @ nat_str hours @ ''h '' @ nat_str mins @ ''m''
          else if hours > 0 then nat_str hours @ ''h '' @ nat_str mins @ ''m''
          else if mins > 0 then nat_str mins @ ''m '' @ nat_str s3 @ ''s''
          else nat_str s3 @ ''s'')"

definition format_event :: "service_event \<Rightarrow> string" where
  "format_event ev =
     (case se_kind ev of
        StateChange \<Rightarrow>
          se_ts ev @ ''  state_change  '' @ (case se_from ev of Some s \<Rightarrow> state_str s | None \<Rightarrow> ''?'') @ '' -> ''
          @ (case se_to ev of Some s \<Rightarrow> state_str s | None \<Rightarrow> ''?'')
      | RestartEvent \<Rightarrow> se_ts ev @ ''  restart''
      | LivenessFailed \<Rightarrow>
          (case se_detail ev of
             Some d \<Rightarrow> se_ts ev @ ''  liveness_failed  ('' @ d @ '')''
           | None \<Rightarrow> se_ts ev @ ''  liveness_failed''))"

definition format_running_as :: "running_identity option \<Rightarrow> string" where
  "format_running_as ri =
     (case ri of
        None \<Rightarrow> ''-''
      | Some r \<Rightarrow>
          (case ri_user r of Some u \<Rightarrow> u | None \<Rightarrow> ''?'') @ ''('' @ nat_str (ri_uid r) @ '') / ''
          @ (case ri_group r of Some g \<Rightarrow> g | None \<Rightarrow> ''?'') @ ''('' @ nat_str (ri_gid r) @ '')'')"

definition format_security_context :: "security_context option \<Rightarrow> string" where
  "format_security_context sec =
     (case sec of
        None \<Rightarrow> ''(none)''
      | Some sc \<Rightarrow>
          ''runAsUser='' @ (case run_as_user sc of Some u \<Rightarrow> u | None \<Rightarrow> ''-'')
          @ '' runAsGroup='' @ (case run_as_group sc of Some g \<Rightarrow> g | None \<Rightarrow> ''-'')
          @ '' capabilities='' @ (if capabilities sc = [] then ''[]'' else ''['' @ join '', '' (capabilities sc) @ '']''))"

section \<open>Tables\<close>

definition list_header :: string where
  "list_header = pad_right 20 ''NAME'' @ '' '' @ pad_right 22 ''STATE'' @ '' '' @ pad_left 8 ''PID'' @ '' '' @ pad_left 8 ''RESTARTS''
     @ '' '' @ pad_left 8 ''ENABLED'' @ '' '' @ pad_left 10 ''LIVE_FAIL''"

definition list_row :: "service_status \<Rightarrow> string" where
  "list_row s = pad_right 20 (st_name s) @ '' '' @ pad_right 22 (state_str (st_state s)) @ '' '' @ pad_left 8 (pid_text (st_pid s))
     @ '' '' @ pad_left 8 (nat_str (unat (st_restarts s))) @ '' '' @ pad_left 8 (yes_no (st_enabled s))
     @ '' '' @ pad_left 10 (nat_str (unat (st_liveness_failures s)))"

definition print_list_table :: "service_status list \<Rightarrow> string" where
  "print_list_table services = line list_header @ concat (map (\<lambda>s. line (list_row s)) services)"

definition list_table :: "bool \<Rightarrow> service_status list \<Rightarrow> string" where
  "list_table show_labels services =
     (if show_labels
      then line (list_header @ '' LABELS'')
           @ concat (map (\<lambda>s. line (list_row s @ '' '' @ or_dash (format_labels (st_labels s)))) services)
      else print_list_table services)"

definition print_daemon_info :: "daemon_info \<Rightarrow> string" where
  "print_daemon_info i =
     line (''Version:     '' @ di_version i)
     @ line (''Tag commit:  '' @ or_dash (short_commit (di_tag_commit i)))
     @ line (''Build:       '' @ short_commit (di_build_commit i) @ (if di_build_time i \<noteq> [] then '' '' @ di_build_time i else []))
     @ line (''Mode:        '' @ daemon_mode_str (di_mode i))
     @ line (''PID:         '' @ nat_str (di_pid i))
     @ line (''Hostname:    '' @ di_hostname i)
     @ line (''Uptime:      '' @ format_uptime (Some (di_uptime_secs i)))
     @ line (''Socket:      '' @ di_socket i)
     @ line (''Services:    '' @ nat_str (di_services_total i) @ '' total, '' @ nat_str (di_services_running i) @ '' running'')
     @ line ''OpenTelemetry:''
     @ line (''  Enabled:   '' @ yes_no (di_otel_enabled i))
     @ line (''  Endpoint:  '' @ di_otel_endpoint i)
     @ line (''  Protocol:  '' @ di_otel_protocol i)
     @ line (''  Interval:  '' @ nat_str (di_otel_export_interval_secs i) @ ''s'')
     @ line (''  Service:   '' @ di_otel_service_name i)"

section \<open>The dependency tree\<close>

text \<open>Box-drawing characters in UTF-8.\<close>

definition BOX_LAST :: string where "BOX_LAST = [CHR 0xE2, CHR 0x94, CHR 0x94, CHR 0xE2, CHR 0x94, CHR 0x80, CHR ''>'']"
definition BOX_NEXT :: string where "BOX_NEXT = [CHR 0xE2, CHR 0x94, CHR 0x9C, CHR 0xE2, CHR 0x94, CHR 0x80, CHR ''>'']"
definition BOX_BAR :: string where "BOX_BAR = [CHR 0xE2, CHR 0x94, CHR 0x82]"

text \<open>A call of \<open>write_tree_node\<close> still to be made: the name, the prefix, whether it is a root and whether it is the last child.\<close>

record tree_call =
  tc_name :: string
  tc_prefix :: string
  tc_root :: bool
  tc_last :: bool

definition node_line :: "(string, service_state) omap \<Rightarrow> string list \<Rightarrow> tree_call \<Rightarrow> string" where
  "node_line states expanded c =
     (let state = (case om_get states (tc_name c) of Some st \<Rightarrow> state_str st | None \<Rightarrow> ''?'');
          marker = (if tc_name c \<in> set expanded then '' [already shown]'' else [])
      in line ((if tc_root c then ''  '' else tc_prefix c @ (if tc_last c then BOX_LAST else BOX_NEXT) @ '' '')
               @ tc_name c @ '' ('' @ state @ '')'' @ marker))"

definition kid_calls :: "neighbours \<Rightarrow> tree_call \<Rightarrow> tree_call list" where
  "kid_calls children c =
     (let kids = neighbours_of children (tc_name c);
          child_prefix = (if tc_root c then ''  '' else if tc_last c then tc_prefix c @ ''    '' else tc_prefix c @ BOX_BAR @ ''   '')
      in map (\<lambda>i. \<lparr>tc_name = kids ! i, tc_prefix = child_prefix, tc_root = False, tc_last = (i + 1 = length kids)\<rparr>) [0..<length kids])"

text \<open>
  The calls in the order they are made: a call writes its line and, if the node is new, makes the calls for its
  children before those that were to come. This is the recursion of \<open>write_tree_node\<close> with its call stack.
\<close>

lemma kid_calls_unknown: "om_get children (tc_name c) = None \<Longrightarrow> kid_calls children c = []"
  by (simp add: kid_calls_def neighbours_of_def)

function write_tree :: "neighbours \<Rightarrow> (string, service_state) omap \<Rightarrow> tree_call list \<Rightarrow> string list \<Rightarrow> string \<times> string list" where
  "write_tree children states [] expanded = ([], expanded)"
| "write_tree children states (c # calls) expanded =
     (let (rest, expanded') =
        (if tc_name c \<in> set expanded then write_tree children states calls expanded
         else write_tree children states (kid_calls children c @ calls) (tc_name c # expanded))
      in (node_line states expanded c @ rest, expanded'))"
  by pat_completeness auto
termination
proof (relation "inv_image (less_than <*lex*> less_than)
    (\<lambda>(children, states, calls, expanded). (card (set (om_keys children) - set expanded), length calls))", goal_cases)
  case (3 children states c calls expanded)
  show ?case
  proof (cases "om_get children (tc_name c)")
    case None
    then have "tc_name c \<notin> set (om_keys children)" by (simp add: map_of_eq_None_iff)
    then have "set (om_keys children) - set (tc_name c # expanded) = set (om_keys children) - set expanded" by auto
    then show ?thesis using kid_calls_unknown [OF None] by (simp del: set_map)
  next
    case (Some kids)
    then have "tc_name c \<in> set (om_keys children)" by (force dest: map_of_SomeD)
    then have "set (om_keys children) - set (tc_name c # expanded) \<subset> set (om_keys children) - set expanded" using 3 by auto
    then have "card (set (om_keys children) - set (tc_name c # expanded)) < card (set (om_keys children) - set expanded)"
      by (intro psubset_card_mono) auto
    then show ?thesis by (simp del: set_map)
  qed
qed auto

declare write_tree.simps(2) [simp del]

text \<open>The map of sorted children without repetition, and the roots.\<close>

definition tree_children :: "(string \<times> string) list \<Rightarrow> neighbours" where
  "tree_children edges =
     map (\<lambda>(k, kids). (k, remdups_adj (sort kids))) (fold (\<lambda>(from, to). push_entry from to) edges [])"

definition tree_roots :: "dep_node list \<Rightarrow> (string \<times> string) list \<Rightarrow> string list" where
  "tree_roots nodes edges =
     (let roots = sort (filter (\<lambda>n. n \<notin> set (map snd edges)) (map dn_name nodes)) in
      if roots = [] then (case sort (map dn_name nodes) of first # _ \<Rightarrow> [first] | [] \<Rightarrow> []) else roots)"

definition root_call :: "string \<Rightarrow> tree_call" where
  "root_call n = \<lparr>tc_name = n, tc_prefix = [], tc_root = True, tc_last = True\<rparr>"

definition format_dep_graph :: "dep_node list \<Rightarrow> (string \<times> string) list \<Rightarrow> string" where
  "format_dep_graph nodes edges =
     (if edges = [] then line ''  (none)''
      else fst (write_tree (tree_children edges) (om_of_list (map (\<lambda>n. (dn_name n, dn_state n)) nodes))
             (map root_call (tree_roots nodes edges)) []))"

definition print_dep_list :: "dep_node list \<Rightarrow> string" where
  "print_dep_list nodes =
     (if nodes = [] then line ''  (none)''
      else concat (map (\<lambda>n. line (''  '' @ dn_name n @ '' ('' @ state_str (dn_state n) @ '')'')) nodes))"

definition print_describe :: "'j service_describe \<Rightarrow> string" where
  "print_describe d =
     (let s = sd_status d in
      line (''Service: '' @ st_name s) @ line (''State:   '' @ state_str (st_state s)) @ line (''PID:     '' @ pid_text (st_pid s))
      @ line (''Running as: '' @ format_running_as (sd_running_as d))
      @ line (''Security:  '' @ format_security_context (sd_security_context d))
      @ line (''Enabled: '' @ yes_no (st_enabled s)) @ line (''Restarts: '' @ nat_str (unat (st_restarts s)))
      @ line (''Liveness failures: '' @ nat_str (unat (st_liveness_failures s)))
      @ line (''Uptime:  '' @ format_uptime (sd_uptime_secs d)) @ line []
      @ line ''Labels:''
      @ (if st_labels s = [] then line ''  (none)'' else concat (map (\<lambda>(k, v). line (''  '' @ k @ ''='' @ v)) (st_labels s))) @ line []
      @ line ''Depends on:'' @ print_dep_list (sd_depends_on d) @ line []
      @ line ''Required by:'' @ print_dep_list (sd_dependents d) @ line []
      @ line ''Dependency graph:'' @ format_dep_graph (sd_dep_nodes d) (sd_dep_edges d) @ line []
      @ line (''Recent events (last '' @ nat_str (length (sd_events d)) @ ''):'')
      @ (if sd_events d = [] then line ''  (none)'' else concat (map (\<lambda>ev. line (''  '' @ format_event ev)) (sd_events d))))"

section \<open>Commands\<close>

record 'j client =
  cl_debug :: "'j response \<Rightarrow> string"
  cl_debug_str :: "string \<Rightarrow> string"
  cl_json_info :: "daemon_info \<Rightarrow> string + string"
  cl_json_value :: "'j \<Rightarrow> string + string"
  cl_json_list :: "service_status list \<Rightarrow> string + string"

text \<open>
  What a command leaves: standard output, standard error and the result. \<open>ask\<close> is \<open>request\<close> on the client's socket;
  \<open>open_stream\<close> connects and sends the request, and gives the frames that will be read with the error that ends them.
\<close>

type_synonym printed = "string \<times> string \<times> unit res"
type_synonym 'j ask = "request \<Rightarrow> 'j response res"
type_synonym 'j open_stream = "request \<Rightarrow> ('j response list \<times> error) res"

definition refused :: "'j client \<Rightarrow> 'j response \<Rightarrow> printed" where
  "refused cl r =
     ([], [], Inl (ErrIpc (case r of RespError message _ \<Rightarrow> message | _ \<Rightarrow> ''unexpected response: '' @ cl_debug cl r)))"

definition on_response :: "'j response res \<Rightarrow> ('j response \<Rightarrow> printed) \<Rightarrow> printed" where
  "on_response answer f = (case answer of Inl e \<Rightarrow> ([], [], Inl e) | Inr r \<Rightarrow> f r)"

definition simple_ok :: "'j client \<Rightarrow> 'j ask \<Rightarrow> request \<Rightarrow> printed" where
  "simple_ok cl ask req = on_response (ask req) (\<lambda>r.
     case r of
       RespOk message \<Rightarrow> ((case message of Some msg \<Rightarrow> line msg | None \<Rightarrow> []), [], Inr ())
     | _ \<Rightarrow> refused cl r)"

definition cmd_shutdown :: "'j client \<Rightarrow> 'j ask \<Rightarrow> shutdown_mode \<Rightarrow> printed" where
  "cmd_shutdown cl ask mode = simple_ok cl ask (ReqShutdown mode)"

definition cmd_start :: "'j client \<Rightarrow> 'j ask \<Rightarrow> string \<Rightarrow> bool \<Rightarrow> printed" where
  "cmd_start cl ask name force = on_response (ask (ReqStart name force)) (\<lambda>r.
     case r of
       RespOk message \<Rightarrow> ((case message of Some msg \<Rightarrow> line msg | None \<Rightarrow> []), [], Inr ())
     | _ \<Rightarrow> refused cl r)"

definition cmd_stop :: "'j client \<Rightarrow> 'j ask \<Rightarrow> string \<Rightarrow> printed" where
  "cmd_stop cl ask name = simple_ok cl ask (ReqStop name)"

definition cmd_restart :: "'j client \<Rightarrow> 'j ask \<Rightarrow> string \<Rightarrow> printed" where
  "cmd_restart cl ask name = simple_ok cl ask (ReqRestart name)"

definition cmd_enable :: "'j client \<Rightarrow> 'j ask \<Rightarrow> string \<Rightarrow> printed" where
  "cmd_enable cl ask name = simple_ok cl ask (ReqEnable name True)"

definition cmd_disable :: "'j client \<Rightarrow> 'j ask \<Rightarrow> string \<Rightarrow> printed" where
  "cmd_disable cl ask name = simple_ok cl ask (ReqEnable name False)"

definition cmd_info :: "'j client \<Rightarrow> 'j ask \<Rightarrow> bool \<Rightarrow> printed" where
  "cmd_info cl ask json = on_response (ask ReqInfo) (\<lambda>r.
     case r of
       RespInfo i \<Rightarrow>
         if json then (case cl_json_info cl i of
             Inl e \<Rightarrow> ([], [], Inl (ErrIpc (''serialize info: '' @ e)))
           | Inr out \<Rightarrow> (line out, [], Inr ()))
         else (print_daemon_info i, [], Inr ())
     | _ \<Rightarrow> refused cl r)"

fun parse_selectors :: "(string \<Rightarrow> string) \<Rightarrow> string list \<Rightarrow> (string \<times> string) list res" where
  "parse_selectors dbg [] = Inr []"
| "parse_selectors dbg (s # ss) = res_bind (parse_selector dbg s) (\<lambda>kv. res_bind (parse_selectors dbg ss) (\<lambda>kvs. Inr (kv # kvs)))"

text \<open>The selectors are parsed before anything is sent.\<close>

definition cmd_list :: "'j client \<Rightarrow> 'j ask \<Rightarrow> bool \<Rightarrow> string list \<Rightarrow> printed" where
  "cmd_list cl ask show_labels selectors =
     (case parse_selectors (cl_debug_str cl) selectors of
        Inl e \<Rightarrow> ([], [], Inl e)
      | Inr want \<Rightarrow> on_response (ask ReqList) (\<lambda>r.
          case r of
            RespList services \<Rightarrow> (list_table show_labels (filter (\<lambda>s. matches_selectors (st_labels s) want) services), [], Inr ())
          | _ \<Rightarrow> refused cl r))"

definition print_describe_json :: "'j client \<Rightarrow> 'j service_describe \<Rightarrow> printed" where
  "print_describe_json cl d =
     (case sd_source d of
        None \<Rightarrow> ([], [], Inl (ErrIpc ''describe -o json: daemon did not return source''))
      | Some src \<Rightarrow>
          (case cl_json_value cl (src_json src) of
             Inl e \<Rightarrow> ([], line (''# from: '' @ src_path src), Inl (ErrJson e))
           | Inr out \<Rightarrow> (line out, line (''# from: '' @ src_path src), Inr ())))"

definition cmd_describe :: "'j client \<Rightarrow> 'j ask \<Rightarrow> string \<Rightarrow> describe_output \<Rightarrow> printed" where
  "cmd_describe cl ask name out = on_response (ask (ReqDescribe name out)) (\<lambda>r.
     case r of
       RespDescribe d \<Rightarrow> (case out of Json \<Rightarrow> print_describe_json cl d | Human \<Rightarrow> (print_describe d, [], Inr ()))
     | _ \<Rightarrow> refused cl r)"

text \<open>The two loops over the frames of a stream; the read after the last frame fails with \<open>eof\<close>.\<close>

fun log_frames :: "'j client \<Rightarrow> 'j response list \<Rightarrow> error \<Rightarrow> string \<times> unit res" where
  "log_frames cl [] eof = ([], Inl eof)"
| "log_frames cl (r # rs) eof =
     (case r of
        RespLog l \<Rightarrow>
          (let (out, res) = log_frames cl rs eof in (line (''['' @ ll_ts l @ ''] '' @ ll_service l @ '': '' @ ll_msg l) @ out, res))
      | RespHeartbeat \<Rightarrow> log_frames cl rs eof
      | RespOk _ \<Rightarrow> ([], Inr ())
      | RespError message _ \<Rightarrow> ([], Inl (ErrIpc message))
      | _ \<Rightarrow> ([], Inl (ErrIpc (''unexpected: '' @ cl_debug cl r))))"

definition cmd_logs :: "'j client \<Rightarrow> 'j open_stream \<Rightarrow> string option \<Rightarrow> bool \<Rightarrow> nat option \<Rightarrow> printed" where
  "cmd_logs cl open_stream name follow lines =
     (case open_stream (ReqLogs name follow lines) of
        Inl e \<Rightarrow> ([], [], Inl e)
      | Inr (frames, eof) \<Rightarrow> (let (out, res) = log_frames cl frames eof in (out, [], res)))"

fun watch_frames :: "'j client \<Rightarrow> bool \<Rightarrow> 'j response list \<Rightarrow> error \<Rightarrow> string \<times> unit res" where
  "watch_frames cl json [] eof = ([], Inl eof)"
| "watch_frames cl json (r # rs) eof =
     (case r of
        RespList services \<Rightarrow>
          if json then (case cl_json_list cl services of
              Inl e \<Rightarrow> ([], Inl (ErrIpc (''serialize watch: '' @ e)))
            | Inr out \<Rightarrow> (let (more, res) = watch_frames cl json rs eof in (line out @ more, res)))
          else (let (more, res) = watch_frames cl json rs eof in (print_list_table services @ line [] @ more, res))
      | RespHeartbeat \<Rightarrow> watch_frames cl json rs eof
      | RespError message _ \<Rightarrow> ([], Inl (ErrIpc message))
      | _ \<Rightarrow> ([], Inl (ErrIpc (''unexpected: '' @ cl_debug cl r))))"

definition cmd_watch :: "'j client \<Rightarrow> 'j open_stream \<Rightarrow> string list \<Rightarrow> bool \<Rightarrow> printed" where
  "cmd_watch cl open_stream label_keys json =
     (case open_stream (ReqWatch label_keys) of
        Inl e \<Rightarrow> ([], [], Inl e)
      | Inr (frames, eof) \<Rightarrow> (let (out, res) = watch_frames cl json frames eof in (out, [], res)))"

section \<open>The main program\<close>

datatype cli_command =
    CmdInit init_args
  | CmdSupervise string path bool
  | CmdStart string bool
  | CmdStop string
  | CmdRestart string
  | CmdEnable string
  | CmdDisable string
  | CmdList bool "string list"
  | CmdDescribe string describe_output
  | CmdLogs "string option" bool "nat option"
  | CmdInfo bool
  | CmdWatch "string list" bool

definition default_init_args :: "data_dir \<Rightarrow> init_args" where
  "default_init_args dd =
     \<lparr>ar_logs_tty = DEFAULT_LOGS_TTY, ar_init_logs_tty = DEFAULT_INIT_LOGS_TTY, ar_console = DEFAULT_CONSOLE,
      ar_config = default_config_path dd, ar_no_early_boot = False, ar_allow_no_early_boot = False, ar_log_to_files = False,
      ar_early_boot_logs_path = None\<rparr>"

text \<open>
  The outside of the program: the client's exchanges at a socket, and \<open>init::run\<close> with its options, which returns
  when the daemon has ended.
\<close>

record 'j peers =
  ou_client :: "'j client"
  ou_ask :: "path \<Rightarrow> 'j ask"
  ou_open :: "path \<Rightarrow> 'j open_stream"
  ou_run :: "init_opts \<Rightarrow> unit res"

definition daemon_only :: "unit res \<Rightarrow> printed" where "daemon_only r = ([], [], r)"

fun run_cli :: "'j peers \<Rightarrow> data_dir \<Rightarrow> path \<Rightarrow> cli_command \<Rightarrow> printed" where
  "run_cli ou dd socket (CmdInit a) = daemon_only (ou_run ou (init_command_opts dd socket a))"
| "run_cli ou dd socket (CmdSupervise console config log_to_files) =
     daemon_only (ou_run ou (supervise_opts console (paths_for_config dd config) socket log_to_files))"
| "run_cli ou dd socket (CmdStart name force) = cmd_start (ou_client ou) (ou_ask ou socket) name force"
| "run_cli ou dd socket (CmdStop name) = cmd_stop (ou_client ou) (ou_ask ou socket) name"
| "run_cli ou dd socket (CmdRestart name) = cmd_restart (ou_client ou) (ou_ask ou socket) name"
| "run_cli ou dd socket (CmdEnable name) = cmd_enable (ou_client ou) (ou_ask ou socket) name"
| "run_cli ou dd socket (CmdDisable name) = cmd_disable (ou_client ou) (ou_ask ou socket) name"
| "run_cli ou dd socket (CmdList show_labels selector) = cmd_list (ou_client ou) (ou_ask ou socket) show_labels selector"
| "run_cli ou dd socket (CmdDescribe name out) = cmd_describe (ou_client ou) (ou_ask ou socket) name out"
| "run_cli ou dd socket (CmdLogs name follow lines) = cmd_logs (ou_client ou) (ou_open ou socket) name follow lines"
| "run_cli ou dd socket (CmdInfo json) = cmd_info (ou_client ou) (ou_ask ou socket) json"
| "run_cli ou dd socket (CmdWatch label_key json) = cmd_watch (ou_client ou) (ou_open ou socket) label_key json"

definition report_error :: "printed \<Rightarrow> string \<times> string \<times> i32" where
  "report_error p =
     (case p of
        (out, err, Inr _) \<Rightarrow> (out, err, 0)
      | (out, err, Inl e) \<Rightarrow> (out, err @ line (''microinit: '' @ error_to_string e), 1))"

text \<open>The end of the process: its outputs and exit code, or \<open>Idle\<close> for PID 1, which never exits.\<close>

datatype process_end = Idle string | Exited "string \<times> string \<times> i32"

definition run_as_pid1 :: "'j peers \<Rightarrow> data_dir \<Rightarrow> process_end" where
  "run_as_pid1 ou dd = Idle (line ''microinit: running as PID 1 (init)''
     @ (case ou_run ou (default_init_opts dd (default_socket_path dd)) of
          Inl e \<Rightarrow> line (''microinit: fatal: '' @ error_to_string e) | Inr _ \<Rightarrow> []))"

text \<open>
  \<open>parsed\<close> is the answer of \<open>Cli::try_parse\<close>: its error (the text, and whether \<open>print\<close> writes it to standard output, as it
  does for \<open>--help\<close>), or the socket and the command.
\<close>

definition main_program :: "'j peers \<Rightarrow> data_dir \<Rightarrow> nat \<Rightarrow> string list \<Rightarrow> (string \<times> bool) + (path \<times> cli_command option)
    \<Rightarrow> process_end" where
  "main_program ou dd pid argv parsed =
     (if pid = 1 then run_as_pid1 ou dd
      else (case parsed of
        Inl (e, to_stdout) \<Rightarrow>
          if should_auto_init pid argv then
            (let (out, err, code) = report_error (daemon_only (ou_run ou (default_init_opts dd (default_socket_path dd)))) in
             Exited (out, line (''microinit: CLI parse failed ('' @ e @ ''); falling back to init mode'') @ err, code))
          else Exited (if to_stdout then (e, [], 2) else ([], e, 2))
      | Inr (socket, Some cmd) \<Rightarrow> Exited (report_error (run_cli ou dd socket cmd))
      | Inr (socket, None) \<Rightarrow>
          if should_auto_init pid argv then Exited (report_error (run_cli ou dd socket (CmdInit (default_init_args dd))))
          else Exited ([], line ''microinit: missing subcommand (try --help)'', 2)))"

section \<open>The shutdown program\<close>

datatype shutdown_cli_mode = HelpMode | Mode shutdown_mode

text \<open>\<open>dbg\<close> is the \<open>{:?}\<close> text of an argument.\<close>

definition help_arg :: "string \<Rightarrow> bool" where "help_arg a = (a \<in> {''--help'', ''help''})"

definition mode_arg :: "string \<Rightarrow> shutdown_mode option" where
  "mode_arg a =
     (if a \<in> {''-h'', ''-P'', ''--poweroff'', ''poweroff''} then Some Poweroff
      else if a \<in> {''-r'', ''--reboot'', ''reboot''} then Some Reboot
      else if a \<in> {''-H'', ''--halt'', ''halt''} then Some Halt
      else None)"

fun parse_args_loop :: "(string \<Rightarrow> string) \<Rightarrow> string list \<Rightarrow> shutdown_mode \<Rightarrow> bool \<Rightarrow> string + shutdown_cli_mode" where
  "parse_args_loop dbg [] mode seen = Inr (Mode mode)"
| "parse_args_loop dbg (a # as) mode seen =
     (if help_arg a then Inr HelpMode
      else (case mode_arg a of
        Some m \<Rightarrow> if seen \<and> mode \<noteq> m then Inl ''conflicting mode flags'' else parse_args_loop dbg as m True
      | None \<Rightarrow>
          if a \<in> {''now'', ''+0'', ''0''} then parse_args_loop dbg as mode seen
          else if starts_with ''-'' a then Inl (''unknown option '' @ dbg a)
          else parse_args_loop dbg as mode seen))"

definition parse_shutdown_args :: "(string \<Rightarrow> string) \<Rightarrow> string list \<Rightarrow> string + shutdown_cli_mode" where
  "parse_shutdown_args dbg args = parse_args_loop dbg args Poweroff False"

text \<open>The socket options are taken out first; \<open>None\<close> when \<open>--socket\<close> is the last argument.\<close>

fun socket_args :: "string list \<Rightarrow> path \<Rightarrow> string list \<Rightarrow> (path \<times> string list) option" where
  "socket_args [] socket args = Some (socket, args)"
| "socket_args (a # argv) socket args =
     (if a = ''--socket'' then (case argv of p # rest \<Rightarrow> socket_args rest p args | [] \<Rightarrow> None)
      else (case strip_prefix ''--socket='' a of
        Some p \<Rightarrow> socket_args argv p args
      | None \<Rightarrow> socket_args argv socket (args @ [a])))"

fun fallback_bin :: "shutdown_mode \<Rightarrow> string" where
  "fallback_bin Reboot = ''/sbin/reboot''"
| "fallback_bin Halt = ''/sbin/halt''"
| "fallback_bin Poweroff = ''/sbin/poweroff''"

text \<open>\<open>exec_fallback\<close>: the command's status, as success or its text, or why it could not be run.\<close>

definition exec_fallback :: "string \<Rightarrow> string + (string + unit) \<Rightarrow> string + unit" where
  "exec_fallback bin ended =
     (case ended of
        Inl e \<Rightarrow> Inl (bin @ '': '' @ e)
      | Inr (Inr _) \<Rightarrow> Inr ()
      | Inr (Inl st) \<Rightarrow> Inl (bin @ '' exited with '' @ st))"

text \<open>The texts of \<open>usage\<close>, for the first argument of the process. Arguments are valid UTF-8, so no byte of the name is replaced.\<close>

definition shutdown_usage :: "string list \<Rightarrow> string" where
  "shutdown_usage process_args =
     (let name = (case (case process_args of p # _ \<Rightarrow> file_name p | [] \<Rightarrow> None) of Some n \<Rightarrow> n | None \<Rightarrow> ''shutdown'') in
      line (''usage: '' @ name @ '' [-h|-H|-r|-P] [now]'')
      @ line ''  (default) / -h / -P   power off via microinit''
      @ line ''  -r                   reboot via microinit''
      @ line ''  -H                   halt via microinit''
      @ line (''  --socket PATH        control socket (default '' @ DEFAULT_SOCKET @ '')''))"

text \<open>The dash of the message is U+2014.\<close>

definition EM_DASH :: string where "EM_DASH = [CHR 0xE2, CHR 0x80, CHR 0x94]"

text \<open>Standard output, standard error, the exit code, and the fallback command when one was run.\<close>

definition shutdown_main :: "'j client \<Rightarrow> path \<Rightarrow> string list \<Rightarrow> (path \<Rightarrow> 'j ask) \<Rightarrow> (string \<Rightarrow> string + (string + unit))
    \<Rightarrow> string \<times> string \<times> i32 \<times> string option" where
  "shutdown_main cl default_socket process_args ask run_bin =
     (case socket_args (drop 1 process_args) default_socket [] of
        None \<Rightarrow> ([], line ''shutdown: --socket requires a path'', 2, None)
      | Some (socket, args) \<Rightarrow>
          (case parse_shutdown_args (cl_debug_str cl) args of
             Inl e \<Rightarrow> ([], line (''shutdown: '' @ e) @ shutdown_usage process_args, 2, None)
           | Inr HelpMode \<Rightarrow> ([], shutdown_usage process_args, 0, None)
           | Inr (Mode m) \<Rightarrow>
               (case cmd_shutdown cl (ask socket) m of
                  (out, err, Inr _) \<Rightarrow> (out, err, 0, None)
                | (out, err, Inl e) \<Rightarrow>
                    (let fb = fallback_bin m;
                         told = err @ line (''shutdown: microinit: '' @ error_to_string e @ '' '' @ EM_DASH @ '' falling back to '' @ fb) in
                     case exec_fallback fb (run_bin fb) of
                       Inl e2 \<Rightarrow> (out, told @ line (''shutdown: '' @ e2), 1, Some fb)
                     | Inr _ \<Rightarrow> (out, told, 0, Some fb)))))"

section \<open>The printed tree\<close>

lemma kid_calls_names [simp]: "map tc_name (kid_calls children c) = neighbours_of children (tc_name c)"
  by (simp add: kid_calls_def Let_def comp_def map_nth)

lemma kid_calls_name_set [simp]: "tc_name ` set (kid_calls children c) = set (neighbours_of children (tc_name c))"
  using kid_calls_names [of children c] by (metis set_map)

text \<open>A run as the calls it makes, each with the names expanded before it; the names it expands are those of the unmarked lines.\<close>

type_synonym tree_trace = "(tree_call \<times> string list) list"

definition shown :: "tree_trace \<Rightarrow> string list" where
  "shown tr = map (\<lambda>(c, seen). tc_name c) (filter (\<lambda>(c, seen). tc_name c \<notin> set seen) tr)"

definition trace_text :: "(string, service_state) omap \<Rightarrow> tree_trace \<Rightarrow> string" where
  "trace_text states tr = concat (map (\<lambda>(c, seen). node_line states seen c) tr)"

definition traced :: "tree_trace \<Rightarrow> string list" where
  "traced tr = map (\<lambda>(c, seen). tc_name c) tr"

lemma trace_simps [simp]:
  "shown [] = []" "shown ((c, seen) # tr) = (if tc_name c \<in> set seen then shown tr else tc_name c # shown tr)"
  "trace_text states [] = []" "trace_text states ((c, seen) # tr) = node_line states seen c @ trace_text states tr"
  "traced [] = []" "traced ((c, seen) # tr) = tc_name c # traced tr"
  by (simp_all add: shown_def trace_text_def traced_def)

lemma write_tree_trace:
  "\<exists>tr. write_tree children states calls expanded = (trace_text states tr, rev (shown tr) @ expanded)
    \<and> mset (traced tr) = mset (map tc_name calls) + (\<Sum>n\<leftarrow>shown tr. mset (neighbours_of children n))"
proof (induction children states calls expanded rule: write_tree.induct)
  case (2 children states c calls expanded)
  show ?case
  proof (cases "tc_name c \<in> set expanded")
    case True
    obtain tr where "write_tree children states calls expanded = (trace_text states tr, rev (shown tr) @ expanded)"
      "mset (traced tr) = mset (map tc_name calls) + (\<Sum>n\<leftarrow>shown tr. mset (neighbours_of children n))"
      using 2(1) [OF True] by blast
    then show ?thesis using True by (intro exI [of _ "(c, expanded) # tr"]) (simp add: write_tree.simps(2))
  next
    case False
    obtain tr where "write_tree children states (kid_calls children c @ calls) (tc_name c # expanded) =
        (trace_text states tr, rev (shown tr) @ tc_name c # expanded)"
      "mset (traced tr) = mset (map tc_name (kid_calls children c @ calls)) + (\<Sum>n\<leftarrow>shown tr. mset (neighbours_of children n))"
      using 2(2) [OF False] by blast
    then show ?thesis using False by (intro exI [of _ "(c, expanded) # tr"]) (simp add: write_tree.simps(2))
  qed
qed (auto intro: exI [of _ "[]"])

lemma write_tree_snd:
  "snd (write_tree children states (c # calls) expanded) =
     (if tc_name c \<in> set expanded then snd (write_tree children states calls expanded)
      else snd (write_tree children states (kid_calls children c @ calls) (tc_name c # expanded)))"
  by (simp add: write_tree.simps(2) split: prod.split)

text \<open>What is expanded at the end: nothing twice, everything called, and the children of everything expanded.\<close>

definition closed_under :: "neighbours \<Rightarrow> string set \<Rightarrow> string set \<Rightarrow> bool" where
  "closed_under children X Y = (\<forall>n\<in>X. set (neighbours_of children n) \<subseteq> Y)"

lemma write_tree_expanded:
  assumes "distinct expanded" "closed_under children (set expanded) (set expanded \<union> tc_name ` set calls)"
  shows "\<exists>F. snd (write_tree children states calls expanded) = F \<and> distinct F \<and> set expanded \<union> tc_name ` set calls \<subseteq> set F
    \<and> closed_under children (set F) (set F)"
  using assms
proof (induction children states calls expanded rule: write_tree.induct)
  case (2 children states c calls expanded)
  show ?case
  proof (cases "tc_name c \<in> set expanded")
    case True
    moreover from this have "closed_under children (set expanded) (set expanded \<union> tc_name ` set calls)"
      using "2.prems"(2) by (simp add: insert_absorb)
    ultimately show ?thesis unfolding write_tree_snd using "2.IH"(1) "2.prems"(1) by (auto simp: insert_absorb)
  next
    case False
    moreover from this have "closed_under children (set (tc_name c # expanded))
        (set (tc_name c # expanded) \<union> tc_name ` set (kid_calls children c @ calls))"
      using "2.prems"(2) by (auto simp: closed_under_def image_Un)
    ultimately show ?thesis unfolding write_tree_snd using "2.IH"(2) "2.prems"(1) by (simp add: image_Un)
  qed
qed simp

text \<open>The children in the map are those of the edges, sorted and without repetition.\<close>

lemma distinct_remdups_adj: "sorted (xs :: 'a :: linorder list) \<Longrightarrow> distinct (remdups_adj xs)"
  by (induction xs rule: remdups_adj.induct) (auto dest: order_antisym)

lemma om_get_map_values: "om_get (map (\<lambda>(k, v). (k, f v)) m) n = map_option f (om_get m n)"
  by (simp add: map_of_map)

lemma tree_children_of: "neighbours_of (tree_children edges) a = sorted_list_of_set {b. (a, b) \<in> set edges}"
proof -
  let ?m = "fold (\<lambda>(from, to). push_entry from to) edges []"
  have "neighbours_of (tree_children edges) a = remdups_adj (sort (neighbours_of ?m a))"
    by (simp add: tree_children_def neighbours_of_def om_get_map_values split: option.split)
  also have "\<dots> = sorted_list_of_set (set (neighbours_of ?m a))"
    by (rule sorted_distinct_set_unique) (simp_all add: sorted_remdups_adj distinct_remdups_adj)
  also have "set (neighbours_of ?m a) = {b. (a, b) \<in> set edges}"
    using neighbours_fold [of "\<lambda>a b. a" "\<lambda>a b. b" edges "[]" a] by (auto simp: neighbours_of_def)
  finally show ?thesis .
qed

lemma finite_children [simp]: "finite {b. (a, b) \<in> set edges}"
  by (rule finite_subset [of _ "snd ` set edges"]) force+

lemma tree_children_mset: "mset (neighbours_of (tree_children edges) a) = mset_set {b. (a, b) \<in> set edges}"
  unfolding tree_children_of by (subst mset_set_set [symmetric]) simp_all

lemma shown_traced: "set (shown tr) \<subseteq> set (traced tr)"
  by (auto simp: shown_def traced_def)

lemma tree_roots_filter:
  assumes "n \<in> dn_name ` set nodes" "n \<notin> snd ` set edges"
  shows "n \<in> set (tree_roots nodes edges)"
proof -
  let ?roots = "sort (filter (\<lambda>n. n \<notin> set (map snd edges)) (map dn_name nodes))"
  have "n \<in> set ?roots" using assms by auto
  moreover from this have "?roots \<noteq> []" by (metis empty_iff empty_set)
  ultimately show ?thesis unfolding tree_roots_def Let_def by (simp only: if_False)
qed

lemma tree_roots_nodes: "set (tree_roots nodes edges) \<subseteq> dn_name ` set nodes"
proof -
  have "first \<in> dn_name ` set nodes" if "sort (map dn_name nodes) = first # rest" for first rest
    using arg_cong [OF that, of set] by auto
  then show ?thesis by (auto simp: tree_roots_def Let_def dest: sym split: list.splits)
qed

lemma mset_set_UN:
  assumes "finite I" "\<And>i. finite (A i)" "\<And>i j. i \<noteq> j \<Longrightarrow> A i \<inter> A j = {}"
  shows "mset_set (\<Union>i\<in>I. A i) = (\<Sum>i\<in>I. mset_set (A i))"
  using assms(1)
proof induction
  case (insert i I)
  have "A i \<inter> (\<Union>i\<in>I. A i) = {}" using insert(2) assms(3) [of i] by fastforce
  then show ?case using insert assms(2) by (simp add: mset_set_Union)
qed simp

lemma traced_edges:
  assumes "set ns \<supseteq> fst ` set edges" "distinct ns"
  shows "(\<Sum>n\<leftarrow>ns. mset (neighbours_of (tree_children edges) n)) = image_mset snd (mset_set (set edges))"
proof -
  have "(\<Sum>n\<leftarrow>ns. mset (neighbours_of (tree_children edges) n)) = (\<Sum>n\<in>set ns. mset_set {b. (n, b) \<in> set edges})"
    using assms(2) by (simp add: sum_list_distinct_conv_sum_set tree_children_mset)
  also have "\<dots> = (\<Sum>n\<in>set ns. image_mset snd (mset_set {(a, b). a = n \<and> (a, b) \<in> set edges}))"
  proof (intro sum.cong refl)
    fix n
    have "{b. (n, b) \<in> set edges} = snd ` {(a, b). a = n \<and> (a, b) \<in> set edges}" by force
    then show "mset_set {b. (n, b) \<in> set edges} = image_mset snd (mset_set {(a, b). a = n \<and> (a, b) \<in> set edges})"
      by (simp add: image_mset_mset_set inj_on_def)
  qed
  also have "\<dots> = image_mset snd (mset_set (\<Union>n\<in>set ns. {(a, b). a = n \<and> (a, b) \<in> set edges}))"
  proof -
    have "finite {(a, b). a = n \<and> (a, b) \<in> set edges}" for n by (rule finite_subset [of _ "set edges"]) auto
    then have "mset_set (\<Union>n\<in>set ns. {(a, b). a = n \<and> (a, b) \<in> set edges}) = (\<Sum>n\<in>set ns. mset_set {(a, b). a = n \<and> (a, b) \<in> set edges})"
      by (intro mset_set_UN) auto
    then show ?thesis
      using sum_comp_morphism [of "image_mset snd" "\<lambda>n. mset_set {(a, b). a = n \<and> (a, b) \<in> set edges}" "set ns"] by (simp add: comp_def)
  qed
  also have "(\<Union>n\<in>set ns. {(a, b). a = n \<and> (a, b) \<in> set edges}) = set edges" using assms(1) by force
  finally show ?thesis .
qed

lemma roots_cover:
  assumes "acyclic (set edges)" "set edges \<subseteq> V \<times> V" "V = dn_name ` set nodes"
    "set (tree_roots nodes edges) \<subseteq> F" "closed_under (tree_children edges) F F"
  shows "V \<subseteq> F"
proof
  fix n
  have "wf (set edges)" using assms(1) by (simp add: finite_acyclic_wf)
  then show "n \<in> F" if "n \<in> V"
    using that
  proof (induction n)
    case (less n)
    show ?case
    proof (cases "\<exists>p. (p, n) \<in> set edges")
      case True
      then obtain p where p: "(p, n) \<in> set edges" by blast
      then have "p \<in> F" using less assms(2) by blast
      then show ?thesis using assms(5) p by (auto simp: closed_under_def tree_children_of)
    next
      case False
      then have "n \<in> set (tree_roots nodes edges)" using less(2) assms(3) by (intro tree_roots_filter) force+
      then show ?thesis using assms(4) by blast
    qed
  qed
qed


definition demo_nodes :: "dep_node list" where
  "demo_nodes = map (\<lambda>n. \<lparr>dn_name = n, dn_state = Running\<rparr>) [''a'', ''b'', ''c'', ''d'']"

definition demo_diamond :: "(string \<times> string) list" where
  "demo_diamond = [(''a'', ''b''), (''a'', ''c''), (''b'', ''d''), (''c'', ''d'')]"

lemma demo_diamond_acyclic: "acyclic (set demo_diamond)"
  by (rule acyclic_subset [OF wf_acyclic [OF wf_measure [of "\<lambda>n :: string. (of_char (hd n) :: nat)"]]])
    (simp add: demo_diamond_def)


section \<open>The client and the daemon\<close>

text \<open>
  The answer the client reads when the daemon handled its request on a stream: the last frame written. The daemon's
  texts go through the JSON encoding of the frames, which keeps them.
\<close>

definition answer_of :: "'j stream \<Rightarrow> 'j response res" where
  "answer_of s = Inr (last (sm_sent s))"

text \<open>The daemon as the client's peer: it handles the request and closes; \<open>lost\<close> is what the client sees if it dies instead.\<close>

definition daemon_answer :: "error \<Rightarrow> 'j daemon \<Rightarrow> nat \<Rightarrow> 'j stream \<Rightarrow> env \<Rightarrow> world \<Rightarrow> 'j ask" where
  "daemon_answer lost dm lines_default s e w = (\<lambda>req.
     case handle_ipc 0 dm lines_default req s e w of Ret (s', _, _) _ \<Rightarrow> answer_of s' | Panic _ \<Rightarrow> Inl lost)"

text \<open>The operation of the supervisor behind a control command, with the message of a start.\<close>

fun control_op :: "cli_command \<Rightarrow> string option res prog option" where
  "control_op (CmdStart name force) = Some (bind (start_service name force) (\<lambda>r. ret (res_bind r (\<lambda>msg. Inr (Some msg)))))"
| "control_op (CmdStop name) = Some (bind (stop_service name) (\<lambda>r. ret (res_bind r (\<lambda>_. Inr None))))"
| "control_op (CmdRestart name) = Some (bind (restart_service name) (\<lambda>r. ret (res_bind r (\<lambda>_. Inr None))))"
| "control_op (CmdEnable name) = Some (bind (sup_set_enabled name True) (\<lambda>r. ret (res_bind r (\<lambda>_. Inr None))))"
| "control_op (CmdDisable name) = Some (bind (sup_set_enabled name False) (\<lambda>r. ret (res_bind r (\<lambda>_. Inr None))))"
| "control_op _ = None"

definition reported :: "string option res \<Rightarrow> string \<times> string \<times> i32" where
  "reported r =
     (case r of
        Inr (Some msg) \<Rightarrow> (line msg, [], 0)
      | Inr None \<Rightarrow> ([], [], 0)
      | Inl err \<Rightarrow> ([], line (''microinit: IPC error: '' @ error_to_string err), 1))"

lemma reply_reported:
  assumes "healthy s" "ask req = answer_of (fst (respond_result r s))"
  shows "report_error (simple_ok cl ask req) = reported (res_bind r (\<lambda>_. Inr None))"
  using assms by (cases r) (simp_all add: respond_result_def answer_of_def simple_ok_def on_response_def refused_def reported_def
      error_response_def report_error_def)

lemma start_reported:
  assumes "healthy s" "ask (ReqStart name force) = answer_of (fst (respond_start r s))"
  shows "report_error (cmd_start cl ask name force) = reported (res_bind r (\<lambda>msg. Inr (Some msg)))"
  using assms by (cases r) (simp_all add: respond_start_def answer_of_def cmd_start_def on_response_def refused_def reported_def
      error_response_def report_error_def)

lemma daemon_answer_bind:
  assumes "handle_ipc 0 dm lines_default req s = bind m (\<lambda>x. ret (f x s))" "m e w = Ret x w'"
  shows "daemon_answer lost dm lines_default s e w req = answer_of (fst (f x s))"
  using assms by (simp add: daemon_answer_def bind_def split: prod.split)

lemmas daemon_answers = daemon_answer_bind [where f = respond_result] daemon_answer_bind [where f = respond_start]

text \<open>
  C33: a control command reports what the daemon did. Run against the daemon's handler on a connection that works,
  \<open>start\<close>, \<open>stop\<close>, \<open>restart\<close>, \<open>enable\<close> and \<open>disable\<close> perform exactly the operation of the supervisor they name: the exit code is
  0 if and only if it succeeded, a start prints the daemon's message, and a failure prints the daemon's error text.
\<close>

theorem client_reports_outcome:
  assumes "healthy s" "control_op cmd = Some p" "p e w = Ret r w'"
  shows "report_error (run_cli (ou\<lparr>ou_ask := (\<lambda>_. daemon_answer lost dm lines_default s e w)\<rparr>) dd socket cmd) = reported r"
  using assms
  by (cases cmd) (auto simp: bind_Ret cmd_stop_def cmd_restart_def cmd_enable_def cmd_disable_def
      intro!: reply_reported start_reported daemon_answers refl)

definition demo_client :: "unit client" where
  "demo_client = \<lparr>cl_debug = (\<lambda>_. []), cl_debug_str = quoted, cl_json_info = (\<lambda>_. Inr []), cl_json_value = (\<lambda>_. Inr []),
     cl_json_list = (\<lambda>_. Inr [])\<rparr>"

definition demo_peers :: "unit peers" where
  "demo_peers = \<lparr>ou_client = demo_client, ou_ask = (\<lambda>_ _. Inl (ErrIpc [])), ou_open = (\<lambda>_ _. Inl (ErrIpc [])), ou_run = (\<lambda>_. Inr ())\<rparr>"

theorem client_reports_outcome_witness:
  "report_error (run_cli (demo_peers\<lparr>ou_ask := (\<lambda>_. daemon_answer (ErrIpc []) demo_daemon 10 quiet_stream demo_env demo_run_world)\<rparr>)
      concat ''/s'' (CmdStop ''ghost'')) = ([], line (''microinit: IPC error: unknown service '' @ quoted ''ghost''), 1)"
proof -
  obtain w' where "stop_service ''ghost'' demo_env demo_run_world = Ret (Inl (ErrUnknownService ''ghost'')) w'"
    using absent_stop [of demo_env "''ghost''" demo_run_world]
    by (auto simp: stable_def demo_others absent_def demo_run_world_def demo_world_def get_def)
  then have "bind (stop_service ''ghost'') (\<lambda>r. ret (res_bind r (\<lambda>_. Inr None))) demo_env demo_run_world
      = Ret (Inl (ErrUnknownService ''ghost'') :: string option res) w'"
    by (simp add: bind_def)
  then show ?thesis
    using client_reports_outcome [OF quiet_healthy(1), of "CmdStop ''ghost''"] by (simp add: reported_def)
qed

section \<open>Logs\<close>

definition log_text :: "log_line \<Rightarrow> string" where
  "log_text l = line (''['' @ ll_ts l @ ''] '' @ ll_service l @ '': '' @ ll_msg l)"

lemma log_frames_lines: "log_frames cl (map RespLog ls @ RespOk m # rest) eof = (concat (map log_text ls), Inr ())"
  by (induction ls) (simp_all add: log_text_def)

text \<open>
  \<open>microinit logs\<close> prints the newest lines. After any lines were published, the command without \<open>--follow\<close> and without a name,
  run against the daemon on a connection that works, prints exactly the newest of all lines kept, at most as many as
  asked for (or the daemon's default) and as the hub's capacity, in the order of publication, and exits with success.
\<close>

theorem logs_print_newest:
  assumes "healthy s" "sm_sent s = []" "hub_ok h" "w_hub (others e w) = fold (log_publish opens) published h"
  shows "\<exists>s' w'. handle_ipc 0 dm lines_default (ReqLogs None False lines) s e w = Ret (s', None, Some (Inr ())) w'
    \<and> cmd_logs cl (\<lambda>req. Inr (sm_sent s', eof)) None False lines =
      (concat (map log_text (last_n (case lines of Some k \<Rightarrow> k | None \<Rightarrow> lines_default)
        (last_n (max (lh_capacity h) 1) (rb_lines (lh_mixed h) @ published)))), [], Inr ())"
proof -
  let ?n = "case lines of Some k \<Rightarrow> k | None \<Rightarrow> lines_default"
  have "handle_ipc 0 dm lines_default (ReqLogs None False lines) s e w =
      Ret (s\<lparr>sm_sent := map RespLog (snapshot_mixed (w_hub (others e w)) ?n) @ [RespOk None]\<rparr>, None, Some (Inr ())) (others e w)"
    using assms(1,2) by (simp add: handle_logs_def healthy_send_lines bind_def reads_def atomic_simp)
  then show ?thesis by (simp add: cmd_logs_def log_frames_lines mixed_log_is_newest [OF assms(3)] assms(4))
qed

theorem logs_print_newest_witness:
  "\<exists>s' w'. handle_ipc 0 demo_daemon 10 (ReqLogs None False (Some 1)) quiet_stream demo_env
      (demo_run_world\<lparr>w_hub := fold (log_publish (\<lambda>_. False)) [demo_line ''a'', demo_line ''b''] (hub_new 2 True True None)\<rparr>) = Ret (s', None, Some (Inr ())) w'
    \<and> cmd_logs demo_client (\<lambda>req. Inr (sm_sent s', ErrIpc [])) None False (Some 1) = (log_text (demo_line ''b''), [], Inr ())"
  using logs_print_newest [OF quiet_healthy hub_new_ok, of demo_env
      "demo_run_world\<lparr>w_hub := fold (log_publish (\<lambda>_. False)) [demo_line ''a'', demo_line ''b''] (hub_new 2 True True None)\<rparr>"
      "\<lambda>_. False" "[demo_line ''a'', demo_line ''b'']" 2 True True None demo_daemon 10 "Some 1" demo_client "ErrIpc []"]
  by (simp add: demo_others hub_new_def ring_new_def last_n_def)

section \<open>Arguments of shutdown\<close>

definition flag_or_word :: "string \<Rightarrow> bool" where
  "flag_or_word a = (\<not> help_arg a \<and> (mode_arg a \<noteq> None \<or> \<not> starts_with ''-'' a))"

definition modes_of :: "string list \<Rightarrow> shutdown_mode list" where
  "modes_of args = List.map_filter mode_arg args"

lemma parse_args_loop_modes:
  "list_all flag_or_word args \<Longrightarrow> parse_args_loop dbg args mode seen =
     (case (if seen then mode # modes_of args else modes_of args) of
        [] \<Rightarrow> Inr (Mode mode)
      | m # ms \<Rightarrow> if set ms \<subseteq> {m} then Inr (Mode m) else Inl ''conflicting mode flags'')"
proof (induction args arbitrary: mode seen)
  case (Cons a args)
  then show ?case
    by (cases "mode_arg a") (auto simp: flag_or_word_def modes_of_def map_filter_simps)
qed (simp add: modes_of_def map_filter_simps)

text \<open>
  The mode a \<open>shutdown\<close> command line asks for. If every argument is a mode flag or a word without a leading dash
  and none asks for help, the words do not matter: no flag means power off, flags that agree mean their mode, and
  flags that disagree are refused, in whatever order they come.
\<close>

theorem shutdown_args_meaning:
  assumes "list_all flag_or_word args"
  shows "parse_shutdown_args dbg args =
    (case modes_of args of
       [] \<Rightarrow> Inr (Mode Poweroff)
     | m # ms \<Rightarrow> if set ms \<subseteq> {m} then Inr (Mode m) else Inl ''conflicting mode flags'')"
  using parse_args_loop_modes [OF assms, of dbg Poweroff False] by (simp add: parse_shutdown_args_def)

theorem shutdown_args_meaning_witness:
  "parse_shutdown_args quoted [''now'', ''-r'', ''going down'', ''reboot''] = Inr (Mode Reboot)
    \<and> parse_shutdown_args quoted [''-h'', ''-r''] = Inl ''conflicting mode flags''"
  using shutdown_args_meaning [of "[''now'', ''-r'', ''going down'', ''reboot'']" quoted] shutdown_args_meaning [of "[''-h'', ''-r'']" quoted]
  by (simp add: flag_or_word_def help_arg_def mode_arg_def starts_with_def modes_of_def map_filter_simps)

end
