(* ===== verification/Control_Mail.thy ===== *)
theory Control_Mail
  imports Operations "HOL-Library.Sublist"
begin

text \<open>
  What boot and the ordered stop (\<open>src/src/supervisor.rs\<close>) mail to the monitors. The messages sent to each service are
  followed through every critical section. What of them is still in a channel depends on how far the monitors have
  read; the locale \<open>mail_relation\<close> holds what the proofs need of the relation between the two, and is interpreted twice: for
  monitors that have not read yet, and for monitors that read from the front at any moment and may have ended.
\<close>

section \<open>Mail\<close>

text \<open>The unread messages of a service, if it has a channel whose monitor is alive.\<close>

definition inbox :: "world \<Rightarrow> string \<Rightarrow> ctl_msg list option" where
  "inbox w n = (case om_get (w_ctl w) n of None \<Rightarrow> None | Some ch \<Rightarrow> om_get (w_queues w) ch)"

type_synonym mail_log = "string \<Rightarrow> ctl_msg list option"

definition mailed :: "(ctl_msg list option \<Rightarrow> ctl_msg list option \<Rightarrow> bool) \<Rightarrow> config \<Rightarrow> mail_log \<Rightarrow> world \<Rightarrow> bool" where
  "mailed R cfg f w = (w_config w = cfg \<and> channels_ok w \<and> (\<forall>n. R (inbox w n) (f n)))"

definition add_mail :: "ctl_msg list \<Rightarrow> string set \<Rightarrow> mail_log \<Rightarrow> mail_log" where
  "add_mail ms N f = (\<lambda>n. if n \<in> N then map_option (\<lambda>s. s @ ms) (f n) else f n)"

lemma add_mail_empty [simp]: "add_mail ms {} f = f"
  by (simp add: add_mail_def)

lemma add_mail_insert: "n \<notin> N \<Longrightarrow> add_mail ms N (add_mail ms {n} f) = add_mail ms (insert n N) f"
  by (auto simp: add_mail_def)

lemma add_mail_twice: "add_mail ks N (add_mail ms N f) = add_mail (ms @ ks) N f"
  by (auto simp: add_mail_def option.map_comp comp_def)

lemma mailed_frame:
  "w_config w' = w_config w \<Longrightarrow> w_ctl w' = w_ctl w \<Longrightarrow> w_queues w' = w_queues w \<Longrightarrow> w_next_chan w' = w_next_chan w
   \<Longrightarrow> mailed R cfg f w' = mailed R cfg f w"
  by (simp add: mailed_def inbox_def channels_ok_def cong: option.case_cong)

lemma mailed_fields [simp]:
  "mailed R cfg f (w\<lparr>w_now := t\<rparr>) = mailed R cfg f w" "mailed R cfg f (w\<lparr>w_exits := x\<rparr>) = mailed R cfg f w"
  "mailed R cfg f (w\<lparr>w_hub := h\<rparr>) = mailed R cfg f w" "mailed R cfg f (w\<lparr>w_watch := wh\<rparr>) = mailed R cfg f w"
  "mailed R cfg f (w\<lparr>w_con_out := out\<rparr>) = mailed R cfg f w" "mailed R cfg f (w\<lparr>w_stop_all := b\<rparr>) = mailed R cfg f w"
  "mailed R cfg f (w\<lparr>w_signals := ss\<rparr>) = mailed R cfg f w" "mailed R cfg f (w\<lparr>w_spawned := ps\<rparr>) = mailed R cfg f w"
  by (rule mailed_frame, simp_all)+

interpretation mail: shared_inv "mailed R cfg f" for R cfg f
  by unfold_locales (simp_all add: inert_def timeless_def exit_free_def)

lemma inbox_send:
  assumes "channels_ok w" "om_get (w_ctl w) n = Some ch"
  shows "inbox (w\<lparr>w_queues := om_insert ch q (w_queues w)\<rparr>) = (inbox w)(n := Some q)"
proof
  fix k
  have uniq: "k = n" if k: "om_get (w_ctl w) k = Some ch"
  proof -
    have "(k, ch) \<in> set (w_ctl w)" "(n, ch) \<in> set (w_ctl w)" using k assms(2) by (auto dest: map_of_SomeD)
    moreover have "inj_on snd (set (w_ctl w))" using assms(1) by (simp add: channels_ok_def distinct_map)
    ultimately show ?thesis by (auto dest: inj_onD [of snd _ "(k, ch)" "(n, ch)"])
  qed
  show "inbox (w\<lparr>w_queues := om_insert ch q (w_queues w)\<rparr>) k = ((inbox w)(n := Some q)) k"
  proof (cases "om_get (w_ctl w) k = Some ch")
    case True
    then show ?thesis using uniq by (simp add: inbox_def)
  next
    case False
    then have "k \<noteq> n" using assms(2) by blast
    then show ?thesis using False by (cases "om_get (w_ctl w) k") (simp_all add: inbox_def)
  qed
qed

lemma inbox_open:
  assumes "channels_ok w"
  shows "inbox (w\<lparr>w_ctl := om_insert n (w_next_chan w) (w_ctl w), w_queues := om_insert (w_next_chan w) [] (w_queues w),
    w_next_chan := Suc (w_next_chan w)\<rparr>) = (inbox w)(n := Some [])"
proof
  fix k
  have "om_get (w_ctl w) k \<noteq> Some (w_next_chan w)" using assms by (force simp: channels_ok_def dest: map_of_SomeD)
  then show "inbox (w\<lparr>w_ctl := om_insert n (w_next_chan w) (w_ctl w), w_queues := om_insert (w_next_chan w) [] (w_queues w),
      w_next_chan := Suc (w_next_chan w)\<rparr>) k = ((inbox w)(n := Some [])) k"
    by (cases "om_get (w_ctl w) k") (simp_all add: inbox_def)
qed

text \<open>What boot is to mail: a start to each enabled service.\<close>

definition boot_mail :: "service_config list \<Rightarrow> mail_log" where
  "boot_mail ss n =
     (if n \<notin> names_of ss then None
      else if \<exists>s \<in> set ss. sc_name s = n \<and> sc_enabled s then Some [CtlStart False] else Some [])"

lemma boot_mail_partition:
  assumes "partition_boot ho ss = Inr (fg, bg)"
  shows "distinct fg" "distinct bg"
    "add_mail [CtlStart False] (set fg) (add_mail [CtlStart False] (set bg)
       (\<lambda>n. if n \<in> set (map sc_name ss) then Some [] else None)) = boot_mail ss"
proof -
  obtain order where order: "topological_sort ho ss = Inr order"
    and lists: "fg = filter (boots_foreground ss) order" "bg = filter (boots_background ss) order"
    using assms by (auto simp: partition_boot_Inr)
  have d: "distinct (map sc_name ss)"
    using topological_sort_ok_iff [OF topological_sort_closed [OF order], of ho] order by blast
  show "distinct fg" "distinct bg" using topo.selected_once [OF order] lists by simp_all
  have sets: "set fg = {n \<in> names_of ss. boots_foreground ss n}" "set bg = {n \<in> names_of ss. boots_background ss n}"
    using topo.selected_once [OF order] lists by simp_all
  have apart: "\<not> (boots_foreground ss n \<and> boots_background ss n)" for n
    by (auto simp: boots_foreground_def boots_background_def split: option.splits)
  have enabled: "(\<exists>s \<in> set ss. sc_name s = n \<and> sc_enabled s) \<longleftrightarrow> boots_foreground ss n \<or> boots_background ss n" for n
    unfolding boots_iff [OF d] by blast
  show "add_mail [CtlStart False] (set fg) (add_mail [CtlStart False] (set bg)
       (\<lambda>n. if n \<in> set (map sc_name ss) then Some [] else None)) = boot_mail ss"
    unfolding fun_eq_iff add_mail_def boot_mail_def enabled sets using apart by auto
qed

lemma hoare_conj: "hoare e P m Q \<Longrightarrow> hoare e (\<lambda>_. True) m S \<Longrightarrow> hoare e P m (\<lambda>x w. Q x w \<and> S x w)"
  by (auto simp: hoare_def split: outcome.splits)

lemma spawn_monitors_result: "hoare e (\<lambda>_. True) (spawn_monitors ns) (\<lambda>r _. r \<noteq> Inr () \<longrightarrow> (\<exists>t. r = Inl (ErrOther t)))"
proof (induction ns)
  case (Cons n ns)
  have "hoare e (\<lambda>_. True) (spawn_monitor n) (\<lambda>r _. r \<noteq> Inr () \<longrightarrow> (\<exists>t. r = Inl (ErrOther t)))"
    by (simp add: hoare_def spawn_monitor_def atomic_simp Let_def split: option.split)
  then show ?case
    unfolding spawn_monitors.simps by (rule hoare_bind) (use Cons in \<open>auto simp: hoare_def split: sum.split\<close>)
qed (simp add: hoare_def)

section \<open>Following the mail\<close>

text \<open>\<open>R\<close> relates what is in a channel to what was sent to the service; \<open>None\<close> on the right is a service never given a channel.\<close>

locale mail_relation =
  fixes R :: "ctl_msg list option \<Rightarrow> ctl_msg list option \<Rightarrow> bool"
  assumes R_fresh: "R (Some []) (Some [])"
    and R_send: "R (Some q) (Some s) \<Longrightarrow> R (Some (q @ [m])) (Some (s @ [m]))"
    and R_closed: "R None (Some s) \<Longrightarrow> R None (Some (s @ [m]))"
    and R_none: "\<not> R (Some q) None"
begin

lemma mailed_send_ctl:
  assumes "stable e (mailed R cfg f)"
  shows "hoare e (mailed R cfg f) (send_ctl n m) (\<lambda>_. mailed R cfg (add_mail [m] {n} f))"
  unfolding send_ctl_def
proof (rule hoare_atomic [OF assms])
  fix w
  assume w: "mailed R cfg f w"
  then have c: "channels_ok w" and r: "R (inbox w k) (f k)" for k by (auto simp: mailed_def)
  have closed: "mailed R cfg (add_mail [m] {n} f) w" if i: "inbox w n = None"
  proof -
    have "R (inbox w n) (map_option (\<lambda>s. s @ [m]) (f n))" using r [of n] i R_closed by (cases "f n") auto
    then show ?thesis using w by (auto simp: mailed_def add_mail_def)
  qed
  have sent: "mailed R cfg (add_mail [m] {n} f) (w\<lparr>w_queues := om_insert ch (q @ [m]) (w_queues w)\<rparr>)"
    if ch: "om_get (w_ctl w) n = Some ch" and q: "om_get (w_queues w) ch = Some q" for ch q
  proof -
    have "R (Some q) (f n)" using r [of n] ch q by (simp add: inbox_def)
    then obtain s where "f n = Some s" "R (Some (q @ [m])) (Some (s @ [m]))" using R_none R_send by (cases "f n") auto
    moreover have "channels_ok (w\<lparr>w_queues := om_insert ch (q @ [m]) (w_queues w)\<rparr>)"
      by (rule channels_ok_queue [OF c]) (simp add: q)
    ultimately show ?thesis using w r by (simp add: mailed_def add_mail_def inbox_send [OF c ch])
  qed
  show "mailed R cfg (add_mail [m] {n} f) (snd (case om_get (w_ctl w) n of
      None \<Rightarrow> (Inl (ErrUnknownService n), w)
    | Some ch \<Rightarrow> (case om_get (w_queues w) ch of
          None \<Rightarrow> (Inl (ErrService n ''control channel closed''), w)
        | Some q \<Rightarrow> (Inr (), w\<lparr>w_queues := om_insert ch (q @ [m]) (w_queues w)\<rparr>))))"
    using closed sent by (auto simp: inbox_def split: option.split)
qed

lemma mailed_for_each:
  assumes "\<And>n f. hoare e (mailed R cfg f) (g n) (\<lambda>_. mailed R cfg (add_mail ms {n} f))" "distinct ns"
  shows "hoare e (mailed R cfg f) (for_each g ns) (\<lambda>_. mailed R cfg (add_mail ms (set ns) f))"
  using assms(2)
proof (induction ns arbitrary: f)
  case (Cons n ns)
  show ?case
    unfolding for_each.simps
    using hoare_bind [OF assms(1) [of f n] Cons.IH] Cons.prems by (simp add: add_mail_insert)
qed (simp add: hoare_ret)

lemma mailed_boot_steps:
  assumes "\<And>f. stable e (mailed R cfg f)"
  shows "hoare e (mailed R cfg f) (boot_background n) (\<lambda>_. mailed R cfg (add_mail [CtlStart False] {n} f))"
    and "hoare e (mailed R cfg f) (boot_foreground n) (\<lambda>_. mailed R cfg (add_mail [CtlStart False] {n} f))"
    and "hoare e (mailed R cfg f) (send_or_log what m n) (\<lambda>_. mailed R cfg (add_mail [m] {n} f))"
    and "keeps e (mailed R cfg f) (boot_report_background n)"
  unfolding boot_background_def boot_foreground_def send_or_log_def boot_report_background_def
  by (intro hoare_bind [OF mailed_send_ctl] seq_keep [OF mail.keeps_console(1)] mail.keeps_shared assms)+

lemma mailed_spawn_monitor:
  assumes "stable e (mailed R cfg f)"
  shows "hoare e (mailed R cfg f) (spawn_monitor n) (\<lambda>r w. r = Inr () \<longrightarrow> mailed R cfg (f(n := Some [])) w)"
  unfolding spawn_monitor_def Let_def
  by (rule hoare_atomic [OF assms])
    (use R_fresh channels_ok_open [OF _ refl, of _ n] inbox_open [of _ n] in \<open>auto simp: mailed_def split: option.split\<close>)

lemma mailed_spawn_monitors:
  assumes "\<And>f. stable e (mailed R cfg f)"
  shows "hoare e (mailed R cfg f) (spawn_monitors ns) (\<lambda>r w. r = Inr () \<longrightarrow>
    mailed R cfg (\<lambda>n. if n \<in> set ns then Some [] else f n) w)"
proof (induction ns arbitrary: f)
  case (Cons n ns)
  have eq: "(\<lambda>k. if k \<in> set ns then Some [] else (f(n := Some [])) k) = (\<lambda>k. if k \<in> set (n # ns) then Some [] else f k)" by auto
  have rest: "hoare e (mailed R cfg (f(n := Some []))) (spawn_monitors ns) (\<lambda>r w. r = Inr () \<longrightarrow>
      mailed R cfg (\<lambda>k. if k \<in> set (n # ns) then Some [] else f k) w)"
    using Cons [of "f(n := Some [])"] unfolding eq .
  show ?case
    unfolding spawn_monitors.simps
  proof (rule hoare_bind [OF mailed_spawn_monitor [OF assms]])
    fix r :: "unit res"
    show "hoare e (\<lambda>w. r = Inr () \<longrightarrow> mailed R cfg (f(n := Some [])) w)
        (case r of Inl err \<Rightarrow> ret (Inl err) | Inr _ \<Rightarrow> spawn_monitors ns)
        (\<lambda>r w. r = Inr () \<longrightarrow> mailed R cfg (\<lambda>k. if k \<in> set (n # ns) then Some [] else f k) w)"
      using rest by (cases r) (simp_all add: hoare_ret)
  qed
qed (simp add: hoare_def)

lemma mailed_boot:
  assumes st: "\<And>f. stable e (mailed R cfg f)"
  shows "hoare e (mailed R cfg (\<lambda>_. None)) boot (\<lambda>r w. r = Inr () \<longrightarrow> mailed R cfg (boot_mail (cfg_services cfg)) w)"
proof -
  let ?ss = "cfg_services cfg"
  let ?open = "\<lambda>n. if n \<in> set (map sc_name ?ss) then Some [] else None"
  let ?tail = "\<lambda>fg bg. bind (for_each boot_background bg) (\<lambda>_. bind (for_each boot_foreground fg) (\<lambda>_.
      bind (for_each boot_report_background bg) (\<lambda>_. ret (Inr ()))))"
  have starts: "hoare e (mailed R cfg ?open) (\<lambda>e. (case partition_boot (e_ho e) ?ss of
            Inl err \<Rightarrow> ret (Inl err)
          | Inr (fg, bg) \<Rightarrow> ?tail fg bg) e) (\<lambda>r w. r = Inr () \<longrightarrow> mailed R cfg (boot_mail ?ss) w)"
  proof (cases "partition_boot (e_ho e) ?ss")
    case (Inr p)
    obtain fg bg where p: "p = (fg, bg)" by (cases p)
    note m = boot_mail_partition [OF Inr [unfolded p]]
    have "keeps e (mailed R cfg (boot_mail ?ss)) (bind (for_each boot_report_background bg) (\<lambda>_. ret (Inr ())))"
      by (intro keeps_flow mailed_boot_steps st)
    then have "hoare e (mailed R cfg ?open) (?tail fg bg) (\<lambda>_. mailed R cfg (boot_mail ?ss))"
      using m(3) by (intro hoare_bind [OF mailed_for_each [OF mailed_boot_steps(1) [OF st] m(2)]]
          hoare_bind [OF mailed_for_each [OF mailed_boot_steps(2) [OF st] m(1)]]) simp
    then show ?thesis by (auto simp: hoare_def Inr p split: outcome.splits)
  qed (simp add: hoare_def)
  have cont: "hoare e (\<lambda>w. r = Inr () \<longrightarrow> mailed R cfg ?open w) (case r of Inl err \<Rightarrow> ret (Inl err)
      | Inr _ \<Rightarrow> (\<lambda>e. (case partition_boot (e_ho e) ?ss of
            Inl err \<Rightarrow> ret (Inl err)
          | Inr (fg, bg) \<Rightarrow> ?tail fg bg) e)) (\<lambda>r w. r = Inr () \<longrightarrow> mailed R cfg (boot_mail ?ss) w)" for r
    using starts by (cases r) (simp_all add: hoare_ret)
  show ?thesis
    unfolding boot_def
    by (rule seq_read [OF st, where B = "\<lambda>x. x = ?ss"], simp add: mailed_def, hypsubst,
        rule hoare_bind [OF mailed_spawn_monitors [OF st] cont])
qed

lemma mailed_boot_unordered:
  assumes st: "\<And>f. stable e (mailed R cfg f)" and err: "partition_boot (e_ho e) (cfg_services cfg) = Inl err"
  shows "hoare e (mailed R cfg (\<lambda>_. None)) boot (\<lambda>r w. (\<exists>t. r = Inl (ErrOther t))
    \<or> r = Inl err \<and> mailed R cfg (\<lambda>n. if n \<in> names_of (cfg_services cfg) then Some [] else None) w)"
proof -
  let ?ss = "cfg_services cfg"
  let ?open = "\<lambda>n. if n \<in> set (map sc_name ?ss) then Some [] else None"
  have spawned: "hoare e (mailed R cfg (\<lambda>_. None)) (spawn_monitors (map sc_name ?ss))
      (\<lambda>r w. (r = Inr () \<longrightarrow> mailed R cfg ?open w) \<and> (r \<noteq> Inr () \<longrightarrow> (\<exists>t. r = Inl (ErrOther t))))"
    by (rule hoare_conj [OF mailed_spawn_monitors [OF st] spawn_monitors_result])
  show ?thesis
    unfolding boot_def
  proof (rule seq_read [OF st, where B = "\<lambda>x. x = ?ss"], simp add: mailed_def, hypsubst, rule hoare_bind [OF spawned])
    fix r :: "unit res"
    show "hoare e (\<lambda>w. (r = Inr () \<longrightarrow> mailed R cfg ?open w) \<and> (r \<noteq> Inr () \<longrightarrow> (\<exists>t. r = Inl (ErrOther t))))
        (case r of Inl err \<Rightarrow> ret (Inl err)
         | Inr _ \<Rightarrow> (\<lambda>e. (case partition_boot (e_ho e) ?ss of Inl err \<Rightarrow> ret (Inl err)
            | Inr (fg, bg) \<Rightarrow> bind (for_each boot_background bg) (\<lambda>_. bind (for_each boot_foreground fg) (\<lambda>_.
                bind (for_each boot_report_background bg) (\<lambda>_. ret (Inr ()))))) e))
        (\<lambda>r w. (\<exists>t. r = Inl (ErrOther t)) \<or> r = Inl err \<and> mailed R cfg (\<lambda>n. if n \<in> names_of ?ss then Some [] else None) w)"
      using err by (cases r) (simp_all add: hoare_def)
  qed
qed

lemma mailed_stop_order:
  assumes "stable e (mailed R cfg f)" "distinct (map sc_name ss)"
  shows "hoare e (mailed R cfg f) (stop_order ss) (\<lambda>order w. mailed R cfg f w \<and> distinct order \<and> set order = names_of ss)"
proof (cases "shutdown_order (e_ho e) ss")
  case (Inl err)
  have "hoare e (mailed R cfg f) (bind (log_init LvError msg) (\<lambda>_. ret (rev (map sc_name ss))))
      (\<lambda>order w. mailed R cfg f w \<and> distinct order \<and> set order = names_of ss)" for msg
    using assms(2) by (intro seq_keep [OF mail.keeps_log_init [OF assms(1)]]) (simp add: hoare_ret)
  then show ?thesis unfolding hoare_def stop_order_def Inl by simp
next
  case (Inr order)
  have "distinct order \<and> set order = names_of ss"
    using Inr topo.reverse_once by (auto simp: shutdown_order_def res_bind_Inr_iff)
  then show ?thesis by (simp add: hoare_def stop_order_def Inr)
qed

lemma mailed_stop_all:
  assumes st: "\<And>f. stable e (mailed R cfg f)" and d: "distinct (map sc_name (cfg_services cfg))"
  shows "hoare e (mailed R cfg f) stop_all_ordered
    (\<lambda>_. mailed R cfg (add_mail [CtlStop, CtlQuit] (names_of (cfg_services cfg)) f))"
proof -
  let ?N = "names_of (cfg_services cfg)"
  have rounds: "hoare e (\<lambda>w. mailed R cfg f w \<and> distinct order \<and> set order = ?N)
      (bind (for_each (send_or_log ''stop'' CtlStop) order) (\<lambda>_. bind (sleep SHUTDOWN_STOP_WAIT) (\<lambda>_.
       bind (for_each (send_or_log ''quit'' CtlQuit) order) (\<lambda>_. sleep SHUTDOWN_QUIT_WAIT))))
      (\<lambda>_. mailed R cfg (add_mail [CtlStop, CtlQuit] ?N f))" for order
  proof (cases "distinct order \<and> set order = ?N")
    case True
    then have round: "hoare e (mailed R cfg g) (for_each (send_or_log what m) order) (\<lambda>_. mailed R cfg (add_mail [m] ?N g))" for what m g
      using mailed_for_each [OF mailed_boot_steps(3) [OF st, of _ what m], of order g] by simp
    have "keeps e (mailed R cfg (add_mail [CtlQuit] ?N (add_mail [CtlStop] ?N f))) (sleep SHUTDOWN_QUIT_WAIT)"
      by (rule mail.keeps_sleep [OF st])
    then show ?thesis
      using hoare_bind [OF round [of f "''stop''" CtlStop] seq_keep [OF mail.keeps_sleep [OF st] hoare_bind [OF round]]] True
      by (simp add: add_mail_twice)
  qed (auto simp: hoare_def)
  have flag: "keeps e (mailed R cfg f) (writes (\<lambda>e w. w\<lparr>w_stop_all := True\<rparr>))" by (rule keeps_writes [OF st]) simp
  show ?thesis
    unfolding stop_all_ordered_def
    by (rule seq_keep [OF flag], rule seq_read [OF st, where B = "\<lambda>x. x = cfg_services cfg"], simp add: mailed_def, hypsubst,
        rule hoare_bind [OF mailed_stop_order [OF st d] rounds])
qed

end

section \<open>Monitors that read, and monitors that do not\<close>

text \<open>A monitor takes messages from the front, and its channel is gone when it has ended.\<close>

definition partly_read :: "ctl_msg list option \<Rightarrow> ctl_msg list option \<Rightarrow> bool" where
  "partly_read q s = (case q of None \<Rightarrow> True | Some ms \<Rightarrow> (case s of None \<Rightarrow> False | Some sent \<Rightarrow> suffix ms sent))"

interpretation unread: mail_relation "(=)"
  by unfold_locales simp_all

interpretation reading: mail_relation partly_read
  by unfold_locales (auto simp: partly_read_def)

lemma either_relation: "R = (=) \<or> R = partly_read \<Longrightarrow> mail_relation R"
  using unread.mail_relation_axioms reading.mail_relation_axioms by blast

section \<open>How long the ordered stop takes\<close>

lemma clock_send: "stable e (\<lambda>w. w_now w = t) \<Longrightarrow> keeps e (\<lambda>w. w_now w = t) (send_or_log what m n)"
  unfolding send_or_log_def send_ctl_def log_init_def
  by (intro keeps_flow keeps_atomic keeps_writes) (auto split: option.split)

lemma clock_stop_order: "stable e (\<lambda>w. w_now w = t) \<Longrightarrow> keeps e (\<lambda>w. w_now w = t) (stop_order ss)"
  by (auto simp: hoare_def stop_order_def log_init_def stable_def split: sum.split)

lemma clock_sleep:
  assumes "stable e (\<lambda>w. w_now w = t)" "\<And>k. e_late e k = 0"
  shows "hoare e (\<lambda>w. w_now w = t) (sleep d) (\<lambda>_ w. w_now w = t + d)"
  unfolding sleep_def by (rule hoare_writes [OF assms(1)]) (simp add: assms(2))

lemma clock_stop_all:
  assumes st: "\<And>t. stable e (\<lambda>w. w_now w = t)" and late: "\<And>k. e_late e k = 0"
  shows "hoare e (\<lambda>w. w_now w = t) stop_all_ordered (\<lambda>_ w. w_now w = t + SHUTDOWN_STOP_WAIT + SHUTDOWN_QUIT_WAIT)"
proof -
  have flag: "keeps e (\<lambda>w. w_now w = t) (writes (\<lambda>e w. w\<lparr>w_stop_all := True\<rparr>))" by (rule keeps_writes [OF st]) simp
  show ?thesis
    unfolding stop_all_ordered_def
    by (intro seq_keep [OF flag] seq_keep [OF keeps_reads [OF st]] seq_keep [OF clock_stop_order [OF st]]
        seq_keep [OF keeps_for_each [OF clock_send [OF st]]] hoare_bind [OF clock_sleep [OF st late]] clock_sleep [OF st late])
qed

section \<open>Properties\<close>

text \<open>
  C6: a boot that reports success has mailed exactly one start to each enabled service of the configuration, nothing to the
  disabled ones, and has opened a channel for every configured service and for no other. This is what lies in the
  channels when the monitors have not read yet; monitors that read meanwhile have only taken from the front.
\<close>

theorem boot_starts_each_enabled_once:
  assumes "\<And>f. stable e (mailed R cfg f)" "R = (=) \<or> R = partly_read"
    and "channels_ok w" "w_ctl w = []" "w_config w = cfg" "boot e w = Ret (Inr ()) w'"
  shows "R (inbox w' n)
    (if n \<notin> names_of (cfg_services cfg) then None
     else if \<exists>s \<in> set (cfg_services cfg). sc_name s = n \<and> sc_enabled s then Some [CtlStart False] else Some [])"
proof -
  have "R None None" using assms(2) by (auto simp: partly_read_def)
  then have w: "mailed R cfg (\<lambda>_. None) w" using assms(3-5) by (simp add: mailed_def inbox_def)
  have "mailed R cfg (boot_mail (cfg_services cfg)) w'"
    using hoareD [OF mail_relation.mailed_boot [OF either_relation [OF assms(2)] assms(1)] w assms(6)] by blast
  then show ?thesis by (simp add: mailed_def boot_mail_def)
qed

lemma demo_stable: "stable demo_env (mailed R cfg f)"
  by (simp add: stable_def demo_others mailed_frame [of "_\<lparr>w_tick := _\<rparr>"])

definition boot_config :: config where
  "boot_config = demo_config\<lparr>cfg_services := [default_service_config ''db'', (default_service_config ''old'')\<lparr>sc_enabled := False\<rparr>]\<rparr>"

lemma demo_partition: "partition_boot id (cfg_services boot_config) = Inr ([''db''], [])"
  unfolding boot_config_def by code_simp

lemma demo_boot: "\<exists>w'. boot demo_env (demo_world boot_config) = Ret (Inr ()) w'"
proof -
  have e: "e_ho demo_env = id" "e_thread demo_env k s = None" "e_wake demo_env k = 0" for k s by (simp_all add: demo_env_def)
  have "cfg_services (w_config (demo_world boot_config)) = cfg_services boot_config" by (simp add: demo_world_def)
  moreover have "map sc_name (cfg_services boot_config) = [''db'', ''old'']" by (simp add: boot_config_def default_service_config_def)
  ultimately show ?thesis
    by (simp add: boot_def demo_others spawn_monitor_def atomic_simp e bind_def demo_partition boot_foreground_def
        con_starting_def con_status_def con_do_def send_ctl_def wait_settled_def deadline_after_def INSTANT_LIMIT_def wait_settled_loop.simps
        cv_wait_def Let_def demo_world_def BOOT_FG_SETTLE_def)
qed

theorem boot_starts_each_enabled_once_witness:
  "\<exists>w'. boot demo_env (demo_world boot_config) = Ret (Inr ()) w'
    \<and> inbox w' ''db'' = Some [CtlStart False] \<and> inbox w' ''old'' = Some [] \<and> inbox w' ''x'' = None"
proof -
  obtain w' where run: "boot demo_env (demo_world boot_config) = Ret (Inr ()) w'" using demo_boot by blast
  have w: "channels_ok (demo_world boot_config)" "w_ctl (demo_world boot_config) = []" "w_config (demo_world boot_config) = boot_config"
    by (simp_all add: demo_world_def channels_ok_def)
  note mail = boot_starts_each_enabled_once [where R = "(=)", OF demo_stable disjI1 [OF refl] w run]
  show ?thesis using run mail by (simp add: boot_config_def default_service_config_def)
qed

text \<open>
  C14: the ordered stop mails to every configured service that has a channel a stop and then a quit after whatever it was sent before,
  and nothing to anybody else, also when the dependency order cannot be computed.
\<close>

theorem ordered_stop_mails_stop_then_quit:
  assumes "\<And>f. stable e (mailed R cfg f)" "R = (=) \<or> R = partly_read"
    and "distinct (map sc_name (cfg_services cfg))" "mailed R cfg f w" "stop_all_ordered e w = Ret u w'"
  shows "R (inbox w' n) (if n \<in> names_of (cfg_services cfg) then map_option (\<lambda>s. s @ [CtlStop, CtlQuit]) (f n) else f n)"
  using hoareD [OF mail_relation.mailed_stop_all [OF either_relation [OF assms(2)] assms(1,3)] assms(4,5)]
  by (simp add: mailed_def add_mail_def)

definition booted_world :: world where
  "booted_world = (demo_world boot_config)\<lparr>w_ctl := [(''db'', 0), (''old'', 1)], w_queues := [(0, [CtlStart False]), (1, [])], w_next_chan := 2\<rparr>"

lemma demo_stop_order: "shutdown_order id (cfg_services boot_config) = Inr [''old'', ''db'']"
  unfolding boot_config_def by code_simp

lemma demo_stop_all: "\<exists>w'. stop_all_ordered demo_env booted_world = Ret () w'"
proof -
  have "e_ho demo_env = id" by (simp add: demo_env_def)
  then show ?thesis
    by (simp add: stop_all_ordered_def demo_others stop_order_def demo_stop_order send_or_log_def send_ctl_def atomic_simp bind_def
        sleep_def booted_world_def demo_world_def)
qed

theorem ordered_stop_mails_stop_then_quit_witness:
  "\<exists>w'. stop_all_ordered demo_env booted_world = Ret () w'
    \<and> inbox w' ''db'' = Some [CtlStart False, CtlStop, CtlQuit] \<and> inbox w' ''old'' = Some [CtlStop, CtlQuit] \<and> inbox w' ''x'' = None"
proof -
  obtain w' where run: "stop_all_ordered demo_env booted_world = Ret () w'" using demo_stop_all by blast
  have d: "distinct (map sc_name (cfg_services boot_config))" by (simp add: boot_config_def default_service_config_def)
  have w: "mailed (=) boot_config (inbox booted_world) booted_world"
    by (simp add: mailed_def booted_world_def demo_world_def channels_ok_def om_wf_def)
  note mail = ordered_stop_mails_stop_then_quit [where R = "(=)", OF demo_stable disjI1 [OF refl] d w run]
  have names: "names_of (cfg_services boot_config) = {''db'', ''old''}" by (simp add: boot_config_def default_service_config_def)
  show ?thesis
    using run mail [unfolded names, of "''db''"] mail [unfolded names, of "''old''"] mail [unfolded names, of "''x''"]
    by (simp add: inbox_def booted_world_def)
qed

text \<open>
  The ordered stop does not look at the services it stops: with an idle clock it takes three seconds, whatever their state, which
  is less than the time a service has by default to react to its stop.
\<close>

theorem ordered_stop_takes_three_seconds:
  assumes "\<And>t. stable e (\<lambda>w. w_now w = t)" "\<And>k. e_late e k = 0" "stop_all_ordered e w = Ret u w'"
  shows "w_now w' = w_now w + secs 3 \<and> w_now w' < w_now w + secs (unat (sc_shutdown_wait_secs (default_service_config n)))"
  using hoareD [OF clock_stop_all [OF assms(1,2)] refl assms(3)]
  by (simp add: SHUTDOWN_STOP_WAIT_def SHUTDOWN_QUIT_WAIT_def default_service_config_def)

theorem ordered_stop_takes_three_seconds_witness: "\<exists>w'. stop_all_ordered demo_env booted_world = Ret () w' \<and> w_now w' = 3000"
proof -
  obtain w' where run: "stop_all_ordered demo_env booted_world = Ret () w'" using demo_stop_all by blast
  have "stable demo_env (\<lambda>w. w_now w = t)" "e_late demo_env k = 0" for t k
    by (simp add: stable_def demo_others, simp add: demo_env_def)
  from ordered_stop_takes_three_seconds [OF this run] show ?thesis using run by (simp add: booted_world_def demo_world_def)
qed

end
