(* ===== verification/Time_Bounds.thy ===== *)
theory Time_Bounds
  imports Control_Mail
begin

text \<open>
  Total correctness with a budget of time. The operations of the supervisor abort the process when a deadline
  overflows \<open>Instant\<close>, and some of them wait. Here it is shown which of them return, and when: a computation fits a
  budget if, started with that much room on the clock, it ends with a value and within the budget. The others may
  let time pass before each critical section, but at most \<open>\<delta>\<close> (\<open>tame\<close>).
\<close>

section \<open>Budgets\<close>

definition tame :: "millis \<Rightarrow> env \<Rightarrow> bool" where
  "tame \<delta> e = ((\<forall>w. w_now (others e w) \<le> w_now w + \<delta>) \<and> (\<forall>k. e_late e k \<le> \<delta>))"

definition fits :: "env \<Rightarrow> millis \<Rightarrow> 'a prog \<Rightarrow> bool" where
  "fits e c m = (\<forall>w. w_now w + c < INSTANT_LIMIT \<longrightarrow> (\<exists>x w'. m e w = Ret x w' \<and> w_now w' \<le> w_now w + c))"

lemma tame_others: "tame \<delta> e \<Longrightarrow> w_now (others e w) \<le> w_now w + \<delta>"
  by (simp add: tame_def)

lemma tame_late: "tame \<delta> e \<Longrightarrow> e_late e k \<le> \<delta>"
  by (simp add: tame_def)

lemma fitsD: "fits e c m \<Longrightarrow> w_now w + c < INSTANT_LIMIT \<Longrightarrow> \<exists>x w'. m e w = Ret x w' \<and> w_now w' \<le> w_now w + c"
  by (simp add: fits_def)

lemma fits_le: "fits e c m \<Longrightarrow> c \<le> b \<Longrightarrow> fits e b m"
  unfolding fits_def by (meson add_left_mono le_trans order.strict_trans1)

lemma fits_ret: "fits e 0 (ret x)"
  by (simp add: fits_def)

lemma fits_bind: "fits e c m \<Longrightarrow> (\<And>x. fits e d (f x)) \<Longrightarrow> fits e (c + d) (bind m f)"
  unfolding fits_def
proof (intro allI impI)
  fix w :: world
  assume m: "\<forall>w. w_now w + c < INSTANT_LIMIT \<longrightarrow> (\<exists>x w'. m e w = Ret x w' \<and> w_now w' \<le> w_now w + c)"
    and f: "\<And>x. \<forall>w. w_now w + d < INSTANT_LIMIT \<longrightarrow> (\<exists>y w'. f x e w = Ret y w' \<and> w_now w' \<le> w_now w + d)"
    and room: "w_now w + (c + d) < INSTANT_LIMIT"
  have "w_now w + c < INSTANT_LIMIT" using room by linarith
  then obtain x v where v: "m e w = Ret x v" "w_now v \<le> w_now w + c" using m by blast
  then have "w_now v + d < INSTANT_LIMIT" using room by linarith
  then obtain y u where "f x e v = Ret y u" "w_now u \<le> w_now v + d" using f [of x] by blast
  with v show "\<exists>y w'. bind m f e w = Ret y w' \<and> w_now w' \<le> w_now w + (c + d)" by (auto simp: bind_def)
qed

lemma fits_atomic: "tame \<delta> e \<Longrightarrow> (\<And>w. w_now (snd (f e w)) = w_now w) \<Longrightarrow> fits e \<delta> (atomic f)"
  by (simp add: fits_def atomic_simp tame_others)

lemma fits_reads: "tame \<delta> e \<Longrightarrow> fits e \<delta> (reads f)"
  by (simp add: fits_def tame_others)

lemma fits_writes: "tame \<delta> e \<Longrightarrow> (\<And>w. w_now (f e w) = w_now w) \<Longrightarrow> fits e \<delta> (writes f)"
  by (simp add: fits_def tame_others)

lemma fits_max: "fits e c m \<Longrightarrow> fits e (max c d) m" "fits e d m \<Longrightarrow> fits e (max c d) m"
  by (erule fits_le, simp)+

lemma fits_if: "fits e c m \<Longrightarrow> fits e d n \<Longrightarrow> fits e (max c d) (if b then m else n)"
  using fits_le [of e c m "max c d"] fits_le [of e d n "max c d"] by simp

lemma fits_case_sum:
  "(\<And>x. fits e c (f x)) \<Longrightarrow> (\<And>y. fits e d (g y)) \<Longrightarrow> fits e (max c d) (case s of Inl x \<Rightarrow> f x | Inr y \<Rightarrow> g y)"
  by (cases s) (simp_all add: fits_max)

lemma fits_case_option:
  "fits e c m \<Longrightarrow> (\<And>y. fits e d (g y)) \<Longrightarrow> fits e (max c d) (case s of None \<Rightarrow> m | Some y \<Rightarrow> g y)"
  by (cases s) (simp_all add: fits_max)

lemma fits_bool_cases:
  "(\<And>x. fits e c (f x)) \<Longrightarrow> fits e d m \<Longrightarrow> fits e k n \<Longrightarrow>
   fits e (max c (max d k)) (case s of Inl x \<Rightarrow> f x | Inr True \<Rightarrow> m | Inr False \<Rightarrow> n)"
  by (cases s) (simp_all add: fits_max split: bool.split)

lemma fits_for_each: "(\<And>x. fits e c (f x)) \<Longrightarrow> fits e (length xs * c) (for_each f xs)"
  by (induction xs) (simp_all add: fits_ret fits_bind)

lemma fits_sleep: "tame \<delta> e \<Longrightarrow> fits e (d + 2 * \<delta>) (sleep d)"
proof -
  assume t: "tame \<delta> e"
  have "w_now (others e w) + d + e_late e k \<le> w_now w + (d + 2 * \<delta>)" for w k
    using tame_others [OF t, of w] tame_late [OF t, of k] by linarith
  then show ?thesis by (simp add: fits_def sleep_def)
qed

lemmas fits_flow = fits_bind fits_ret fits_if fits_bool_cases fits_case_sum fits_case_option fits_for_each

section \<open>Waiting\<close>

text \<open>A computation that is given a deadline ahead and ends at most \<open>c\<close> after it.\<close>

definition by_deadline :: "env \<Rightarrow> millis \<Rightarrow> (millis \<Rightarrow> 'a prog) \<Rightarrow> bool" where
  "by_deadline e c f = (\<forall>dl w. w_now w \<le> dl \<and> dl + c < INSTANT_LIMIT \<longrightarrow> (\<exists>x w'. f dl e w = Ret x w' \<and> w_now w' \<le> dl + c))"

lemma fits_deadline:
  assumes t: "tame \<delta> e" and f: "by_deadline e c f"
  shows "fits e (d + \<delta> + c) (bind (deadline_after d) f)"
  unfolding fits_def
proof (intro allI impI)
  fix w :: world
  assume room: "w_now w + (d + \<delta> + c) < INSTANT_LIMIT"
  let ?v = "others e w"
  have v: "w_now ?v \<le> w_now w + \<delta>" using t by (rule tame_others)
  then have "deadline_after d e w = Ret (w_now ?v + d) ?v" using room by (simp add: deadline_after_def Let_def)
  moreover have "w_now ?v + d + c < INSTANT_LIMIT" using v room by linarith
  then obtain x w' where "f (w_now ?v + d) e ?v = Ret x w'" "w_now w' \<le> w_now ?v + d + c"
    using f unfolding by_deadline_def by (meson le_add1)
  ultimately show "\<exists>x w'. bind (deadline_after d) f e w = Ret x w' \<and> w_now w' \<le> w_now w + (d + \<delta> + c)"
    using v by (simp add: bind_def)
qed

lemma by_deadline_bind:
  assumes f: "by_deadline e a f" and g: "\<And>x. fits e b (g x)"
  shows "by_deadline e (a + b) (\<lambda>dl. bind (f dl) g)"
  unfolding by_deadline_def
proof (intro allI impI)
  fix dl and w :: world
  assume w: "w_now w \<le> dl \<and> dl + (a + b) < INSTANT_LIMIT"
  then have "w_now w \<le> dl \<and> dl + a < INSTANT_LIMIT" by linarith
  then obtain x v where v: "f dl e w = Ret x v" "w_now v \<le> dl + a" using f unfolding by_deadline_def by blast
  then have "w_now v + b < INSTANT_LIMIT" using w by linarith
  then obtain y u where "g x e v = Ret y u" "w_now u \<le> w_now v + b" using fitsD [OF g] by blast
  with v show "\<exists>y w'. bind (f dl) g e w = Ret y w' \<and> w_now w' \<le> dl + (a + b)" by (auto simp: bind_def)
qed

lemma by_deadline_loop:
  assumes "\<And>dl w. \<exists>x w'. f dl e w = Ret x w' \<and> w_now w' \<le> max (w_now w) (dl + c)"
  shows "by_deadline e c f"
  using assms by (fastforce simp: by_deadline_def)

lemma by_deadline_locked:
  assumes t: "tame \<delta> e" and f: "\<And>dl w. \<exists>x w'. f dl e w = Ret x w' \<and> w_now w' \<le> max (w_now w) (dl + \<delta>)"
  shows "by_deadline e \<delta> (\<lambda>dl. bind (reads h) (\<lambda>_. f dl))"
  unfolding by_deadline_def
proof (intro allI impI)
  fix dl and w :: world
  assume "w_now w \<le> dl \<and> dl + \<delta> < INSTANT_LIMIT"
  then have "w_now (others e w) \<le> dl + \<delta>" using tame_others [OF t, of w] by linarith
  then show "\<exists>x w'. bind (reads h) (\<lambda>_. f dl) e w = Ret x w' \<and> w_now w' \<le> dl + \<delta>"
    using f [of dl "others e w"] by fastforce
qed

lemma cv_wait_ends:
  assumes "tame \<delta> e"
  shows "\<exists>b w'. cv_wait d e w = Ret b w' \<and> w_now w' \<le> w_now w + \<delta> + d"
  using tame_others [OF assms, of w] by (simp add: cv_wait_def atomic_simp Let_def)

lemma wait_take_loop_ends:
  assumes "tame \<delta> e"
  shows "\<exists>r w'. wait_take_loop pid dl e w = Ret r w' \<and> w_now w' \<le> max (w_now w) (dl + \<delta>)"
proof (induction "dl - w_now w" arbitrary: w rule: less_induct)
  case (less w)
  obtain m r where t: "exits_take pid (w_exits w) = (m, r)" by (cases "exits_take pid (w_exits w)")
  show ?case
  proof (cases "r = None \<and> w_now w < dl")
    case True
    obtain b v where cv: "cv_wait (dl - w_now w) e w = Ret b v" "w_now v \<le> dl + \<delta>"
      using cv_wait_ends [OF assms, of "dl - w_now w" w] True by auto
    show ?thesis
    proof (cases b)
      case b: False
      have "dl - w_now v < dl - w_now w" using cv_wait_False [of _ e w v] cv(1) b True by (simp add: diff_less_mono2)
      from less [OF this] show ?thesis
        using t True cv b by (auto simp: wait_take_loop.simps [of pid dl e w])
    next
      case b: True
      obtain m' r' where t': "exits_take pid (w_exits v) = (m', r')" by (cases "exits_take pid (w_exits v)")
      then show ?thesis using t t' True cv b by (simp add: wait_take_loop.simps [of pid dl e w])
    qed
  next
    case False
    then show ?thesis using t by (cases r) (simp_all add: wait_take_loop.simps [of pid dl e w])
  qed
qed

lemma wait_settled_loop_ends:
  assumes "tame \<delta> e"
  shows "\<exists>r w'. wait_settled_loop name dl e w = Ret r w' \<and> w_now w' \<le> max (w_now w) (dl + \<delta>)"
proof (induction "dl - w_now w" arbitrary: w rule: less_induct)
  case (less w)
  show ?case
  proof (cases "\<not> settled (settle_state name (w_runtimes w)) \<and> w_now w < dl")
    case True
    obtain b v where cv: "cv_wait (dl - w_now w) e w = Ret b v" "w_now v \<le> dl + \<delta>"
      using cv_wait_ends [OF assms, of "dl - w_now w" w] True by auto
    show ?thesis
    proof (cases b)
      case b: False
      have "dl - w_now v < dl - w_now w" using cv_wait_False [of _ e w v] cv(1) b True by (simp add: diff_less_mono2)
      from less [OF this] show ?thesis
        using True cv b by (auto simp: wait_settled_loop.simps [of name dl e w] Let_def)
    qed (use True cv in \<open>simp add: wait_settled_loop.simps [of name dl e w] Let_def\<close>)
  qed (auto simp: wait_settled_loop.simps [of name dl e w] Let_def)
qed

lemma terminate_loop_ends:
  assumes t: "tame \<delta> e"
  shows "\<exists>r w'. terminate_loop pid dl e w = Ret r w' \<and> w_now w' \<le> max (w_now w + \<delta>) (dl + 5 * \<delta> + TERMINATE_POLL)"
proof (induction "dl - w_now w" arbitrary: w rule: less_induct)
  case (less w)
  let ?w1 = "others e w" and ?w2 = "others e (others e w)"
  note o = tame_others [OF t, of w] tame_others [OF t, of ?w1] tame_others [OF t, of ?w2] others_now [of w e]
  show ?case
  proof (cases "w_now ?w1 < dl \<and> \<not> e_gone e (w_tick ?w2) pid")
    case True
    obtain w3 where s: "sleep TERMINATE_POLL e ?w2 = Ret () w3" and
      w3: "w_now w3 = w_now (others e ?w2) + TERMINATE_POLL + e_late e (w_tick (others e ?w2))" by (simp add: sleep_def)
    have "w_now w < w_now w3" unfolding w3 TERMINATE_POLL_def using o(4) others_now [of ?w1 e] others_now [of ?w2 e] by linarith
    then have "dl - w_now w3 < dl - w_now w" using True o(4) by linarith
    from less [OF this] obtain r u where u: "terminate_loop pid dl e w3 = Ret r u"
      "w_now u \<le> max (w_now w3 + \<delta>) (dl + 5 * \<delta> + TERMINATE_POLL)" by blast
    have "w_now w3 + \<delta> \<le> dl + 5 * \<delta> + TERMINATE_POLL"
      using w3 o(1-3) True tame_late [OF t, of "w_tick (others e ?w2)"] by linarith
    then have "w_now u \<le> max (w_now w + \<delta>) (dl + 5 * \<delta> + TERMINATE_POLL)" using u(2) by linarith
    then show ?thesis using True s u(1) by (simp add: terminate_loop.simps [of pid dl e w] Let_def)
  next
    case False
    then show ?thesis using o(1,2) by (auto simp: terminate_loop.simps [of pid dl e w] Let_def)
  qed
qed

lemma early_exit_loop_ends:
  assumes t: "tame \<delta> e"
  shows "\<exists>r w'. early_exit_loop pid dl e w = Ret r w' \<and> w_now w' \<le> max (w_now w + \<delta>) (dl + 5 * \<delta>)"
proof (induction "dl - w_now w" arbitrary: w rule: less_induct)
  case (less w)
  let ?w1 = "others e w"
  obtain r w2 where take: "take_exit pid e ?w1 = Ret r w2" and w2: "w_now w2 = w_now (others e ?w1)"
    by (simp add: take_exit_def atomic_simp split_beta Let_def)
  note o = tame_others [OF t, of w] tame_others [OF t, of ?w1] others_now [of w e] others_now [of ?w1 e]
  show ?case
  proof (cases "w_now ?w1 < dl \<and> r = None")
    case True
    let ?w3 = "others e w2"
    let ?d = "min (dl - w_now ?w3) CTL_POLL"
    obtain w4 where s: "sleep ?d e ?w3 = Ret () w4" and
      w4: "w_now w4 = w_now (others e ?w3) + ?d + e_late e (w_tick (others e ?w3))" by (simp add: sleep_def)
    note o3 = tame_others [OF t, of w2] others_now [of w2 e] tame_others [OF t, of ?w3] others_now [of ?w3 e]
    have "w_now ?w3 < dl \<Longrightarrow> 0 < ?d" by (simp add: CTL_POLL_def)
    then have "w_now w < w_now w4" using w4 w2 o(3,4) o3(2,4) True by linarith
    then have "dl - w_now w4 < dl - w_now w" using True o(3) by linarith
    from less [OF this] obtain r' u where u: "early_exit_loop pid dl e w4 = Ret r' u" "w_now u \<le> max (w_now w4 + \<delta>) (dl + 5 * \<delta>)"
      by blast
    have "w_now ?w3 \<le> dl + 2 * \<delta>" using o(2) o3(1) w2 True by linarith
    then have "w_now w4 + \<delta> \<le> dl + 5 * \<delta>" using w4 o3(3) tame_late [OF t, of "w_tick (others e ?w3)"] by linarith
    then have "w_now u \<le> max (w_now w + \<delta>) (dl + 5 * \<delta>)" using u(2) by linarith
    then show ?thesis using True take s u(1) by (simp add: early_exit_loop.simps [of pid dl e w] Let_def)
  next
    case False
    then show ?thesis
      using o(1,2) w2 take by (cases "w_now ?w1 < dl") (auto simp: early_exit_loop.simps [of pid dl e w] Let_def)
  qed
qed

section \<open>Operations\<close>

lemma fits_log_init: "tame \<delta> e \<Longrightarrow> fits e \<delta> (log_init level msg)"
  unfolding log_init_def by (rule fits_writes) simp_all

lemma fits_notify_watchers: "tame \<delta> e \<Longrightarrow> fits e (3 * \<delta>) notify_watchers"
  unfolding notify_watchers_def by (rule fits_le, (rule fits_flow fits_reads fits_writes | assumption | simp)+)

lemma fits_apply_state: "tame \<delta> e \<Longrightarrow> fits e (4 * \<delta>) (apply_state name st pid)"
  unfolding apply_state_def by (rule fits_le, (rule fits_flow fits_writes fits_notify_watchers | assumption | simp add: put_state_def)+)

lemma fits_send_ctl: "tame \<delta> e \<Longrightarrow> fits e \<delta> (send_ctl name msg)"
  unfolding send_ctl_def by (rule fits_atomic) (auto split: option.split)

lemma fits_console: "tame \<delta> e \<Longrightarrow> fits e \<delta> (con_starting name)" "tame \<delta> e \<Longrightarrow> fits e \<delta> (con_status name ok)"
  unfolding con_starting_def con_status_def con_do_def by (rule fits_writes, assumption, simp add: Let_def)+

lemma fits_take_exit: "tame \<delta> e \<Longrightarrow> fits e \<delta> (take_exit pid)"
  unfolding take_exit_def by (rule fits_atomic) (auto simp: split_beta Let_def)

lemma fits_wait_take: "tame \<delta> e \<Longrightarrow> fits e (d + 2 * \<delta>) (wait_take pid d)"
  unfolding wait_take_def
  by (rule fits_le, rule fits_deadline, assumption, rule by_deadline_locked, assumption, rule wait_take_loop_ends) simp_all

lemma fits_wait_settled: "tame \<delta> e \<Longrightarrow> fits e (d + 2 * \<delta>) (wait_settled name d)"
  unfolding wait_settled_def
  by (rule fits_le, rule fits_deadline, assumption, rule by_deadline_locked, assumption, rule wait_settled_loop_ends) simp_all

lemma fits_kill: "tame \<delta> e \<Longrightarrow> fits e \<delta> (kill pid s)"
  unfolding kill_def by (rule fits_writes) simp_all

lemma fits_terminate_pid:
  assumes t: "tame \<delta> e"
  shows "fits e (secs (unat grace) + TERMINATE_POLL + 8 * \<delta>) (terminate_pid pid grace)"
proof -
  have loop: "by_deadline e (5 * \<delta> + TERMINATE_POLL) (terminate_loop pid)"
    unfolding by_deadline_def
  proof (intro allI impI)
    fix dl and w :: world
    assume "w_now w \<le> dl \<and> dl + (5 * \<delta> + TERMINATE_POLL) < INSTANT_LIMIT"
    then show "\<exists>x w'. terminate_loop pid dl e w = Ret x w' \<and> w_now w' \<le> dl + (5 * \<delta> + TERMINATE_POLL)"
      using terminate_loop_ends [OF t, of pid dl w] by fastforce
  qed
  show ?thesis
    unfolding terminate_pid_def
    by (rule fits_le, (rule fits_flow fits_kill [OF t] fits_deadline [OF t] by_deadline_bind loop)+) simp
qed

lemma fits_spawn_shell_cmd: "tame \<delta> e \<Longrightarrow> fits e (2 * \<delta>) (spawn_shell_cmd cmd cfg env_extra quiet)"
proof (cases "resolve_sec (e_db e) cfg")
  case (Inr ident)
  assume t: "tame \<delta> e"
  have sp: "fits e \<delta> (spawn name c)" for name c
    unfolding spawn_def by (rule fits_atomic [OF t]) (auto split: sum.split)
  have "fits e (2 * \<delta>) (bind (reads w_env_cache) (\<lambda>file_env. spawn (sc_name cfg)
      ((build_shell_command (e_cur e) file_env cmd cfg env_extra ident)\<lparr>cm_quiet := quiet\<rparr>)))"
    by (rule fits_le, (rule fits_flow fits_reads [OF t] sp)+) simp
  then show ?thesis by (simp add: spawn_shell_cmd_def Inr fits_def)
qed (simp add: spawn_shell_cmd_def fits_def)

lemma fits_settle_daemon:
  assumes t: "tame \<delta> e"
  shows "fits e (secs (unat (sc_start_wait_secs cfg)) + DAEMONIZE_GRACE + 12 * \<delta>) (settle_daemon cfg pid tracked)"
proof -
  have loop: "by_deadline e (5 * \<delta>) (early_exit_loop pid)"
    unfolding by_deadline_def
  proof (intro allI impI)
    fix dl and w :: world
    assume "w_now w \<le> dl \<and> dl + 5 * \<delta> < INSTANT_LIMIT"
    then show "\<exists>x w'. early_exit_loop pid dl e w = Ret x w' \<and> w_now w' \<le> dl + 5 * \<delta>"
      using early_exit_loop_ends [OF t, of pid dl w] by fastforce
  qed
  show ?thesis
    unfolding settle_daemon_def Let_def
    by (rule fits_le, (rule fits_flow fits_take_exit [OF t] fits_apply_state [OF t] fits_deadline [OF t] by_deadline_bind loop)+) simp
qed

lemma fits_settle_job:
  assumes t: "tame \<delta> e"
  shows "fits e (DEP_WAIT + 2 * secs STOP_GRACE_SECS + TERMINATE_POLL + 16 * \<delta>) (settle_job cfg pid tracked)"
  unfolding settle_job_def Let_def
  by (rule fits_le, (rule fits_flow fits_wait_take [OF t] fits_apply_state [OF t] fits_terminate_pid [OF t])+)
    (simp add: STOP_GRACE_SECS_def)

section \<open>Starting a service\<close>

text \<open>The time a start may take: a daemon has to survive \<open>startWaitSecs\<close>, a job has to end or is terminated.\<close>

definition start_budget :: "millis \<Rightarrow> service_config \<Rightarrow> millis" where
  "start_budget \<delta> cfg =
     (if sc_daemon cfg then secs (unat (sc_start_wait_secs cfg)) + DAEMONIZE_GRACE
      else DEP_WAIT + 2 * secs STOP_GRACE_SECS + TERMINATE_POLL) + 25 * \<delta>"

lemma fits_launch:
  assumes t: "tame \<delta> e"
  shows "fits e (start_budget \<delta> cfg - 3 * \<delta>) (launch cfg tracked)"
proof -
  have "fits e (start_budget \<delta> cfg - 9 * \<delta>) (if sc_daemon cfg then settle_daemon cfg pid tracked else settle_job cfg pid tracked)" for pid
    using fits_settle_daemon [OF t, of cfg pid tracked] fits_settle_job [OF t, of cfg pid tracked]
    by (auto simp: start_budget_def elim: fits_le)
  then show ?thesis
    unfolding launch_def spawn_shell_def
    by - (rule fits_le, (rule fits_flow(1,2,5) fits_apply_state [OF t] fits_spawn_shell_cmd [OF t] | assumption)+,
        auto simp: start_budget_def)
qed

lemma fits_do_start:
  assumes t: "tame \<delta> e"
  shows "fits e (start_budget \<delta> cfg) (do_start cfg force tracked)"
  unfolding do_start_def start_when_ready_def start_forced_def wait_for_deps_def Let_def
  by (rule fits_le, (rule fits_flow fits_reads [OF t] fits_log_init [OF t] fits_apply_state [OF t] fits_launch [OF t])+)
    (auto simp: start_budget_def)

section \<open>Boot\<close>

lemma fits_boot_steps:
  assumes t: "tame \<delta> e"
  shows "fits e (2 * \<delta>) (boot_background n)" "fits e (BOOT_FG_SETTLE + 5 * \<delta>) (boot_foreground n)"
    "fits e (BOOT_BG_SETTLE + 3 * \<delta>) (boot_report_background n)"
  unfolding boot_background_def boot_foreground_def boot_report_background_def
  by (rule fits_le, (rule fits_flow fits_send_ctl [OF t] fits_log_init [OF t] fits_console [OF t] fits_wait_settled [OF t])+, simp)+

lemma fits_spawn_monitors: "tame \<delta> e \<Longrightarrow> fits e (length ns * \<delta>) (spawn_monitors ns)"
proof (induction ns)
  case (Cons n ns)
  have "fits e \<delta> (spawn_monitor n)"
    unfolding spawn_monitor_def by (rule fits_atomic [OF Cons(2)]) (auto simp: Let_def split: option.split)
  then show ?case
    unfolding spawn_monitors.simps by - (rule fits_le, (rule fits_flow Cons.IH [OF Cons(2)] | assumption)+, simp)
qed (simp add: fits_ret)

definition boot_budget :: "millis \<Rightarrow> nat \<Rightarrow> nat \<Rightarrow> nat \<Rightarrow> millis" where
  "boot_budget \<delta> n fg bg = (n + 1) * \<delta> + fg * (BOOT_FG_SETTLE + 5 * \<delta>) + bg * (BOOT_BG_SETTLE + 5 * \<delta>)"

lemma hoare_then: "(\<And>x. hoare e (\<lambda>_. True) (f x) Q) \<Longrightarrow> hoare e (\<lambda>_. True) (bind m f) Q"
  by (fastforce simp: hoare_def bind_def split: outcome.splits)

lemma spawn_monitors_created:
  "(\<And>k s. e_thread e k s = None) \<Longrightarrow> hoare e (\<lambda>_. True) (spawn_monitors ns) (\<lambda>r _. r = Inr ())"
proof (induction ns)
  case (Cons n ns)
  have "hoare e (\<lambda>_. True) (spawn_monitor n) (\<lambda>r _. r = Inr ())"
    by (simp add: hoare_def spawn_monitor_def atomic_simp Let_def Cons(2))
  then show ?case
    unfolding spawn_monitors.simps by (rule hoare_bind) (use Cons in \<open>auto simp: hoare_def split: sum.split\<close>)
qed (simp add: hoare_def)

lemma boot_ends:
  assumes t: "tame \<delta> e" and w: "cfg_services (w_config (others e w)) = ss" and threads: "\<And>k s. e_thread e k s = None"
    and p: "partition_boot (e_ho e) ss = Inr (fg, bg)"
    and room: "w_now w + boot_budget \<delta> (length ss) (length fg) (length bg) < INSTANT_LIMIT"
  shows "\<exists>w'. boot e w = Ret (Inr ()) w' \<and> w_now w' \<le> w_now w + boot_budget \<delta> (length ss) (length fg) (length bg)"
proof -
  let ?tail = "\<lambda>r :: unit res. case r of Inl err \<Rightarrow> ret (Inl err) | Inr _ \<Rightarrow> bind (for_each boot_background bg) (\<lambda>_.
      bind (for_each boot_foreground fg) (\<lambda>_. bind (for_each boot_report_background bg) (\<lambda>_. ret (Inr ()))))"
  let ?boot = "bind (spawn_monitors (map sc_name ss)) ?tail"
  have "fits e (boot_budget \<delta> (length ss) (length fg) (length bg) - \<delta>) ?boot"
    by (rule fits_le, (rule fits_flow fits_boot_steps [OF t] fits_spawn_monitors [OF t])+)
      (simp add: boot_budget_def algebra_simps)
  moreover have "w_now (others e w) + (boot_budget \<delta> (length ss) (length fg) (length bg) - \<delta>)
      \<le> w_now w + boot_budget \<delta> (length ss) (length fg) (length bg)"
    using tame_others [OF t, of w] by (simp add: boot_budget_def)
  ultimately obtain r w' where r: "?boot e (others e w) = Ret r w'"
      "w_now w' \<le> w_now w + boot_budget \<delta> (length ss) (length fg) (length bg)"
    using fitsD [of e _ _ "others e w"] room by fastforce
  have "hoare e (\<lambda>_. True) ?boot (\<lambda>r _. r = Inr ())"
    by (rule hoare_bind [OF spawn_monitors_created [OF threads]])
      (auto split: sum.split intro: hoare_ret intro!: hoare_pre [OF hoare_then [OF hoare_then [OF hoare_then [OF hoare_ret]]]])
  then have "case ?boot e (others e w) of Ret r _ \<Rightarrow> r = Inr () | Panic _ \<Rightarrow> True" unfolding hoare_def by blast
  then have "r = Inr ()" using r(1) by simp
  moreover have "boot e w = ?boot e (others e w)"
    using p w by (simp add: boot_def bind_def split: outcome.split sum.split)
  ultimately show ?thesis using r by simp
qed

lemma boot_budget_bound:
  assumes "fg + bg \<le> n"
  shows "boot_budget \<delta> n fg bg \<le> \<delta> + n * (BOOT_FG_SETTLE + 6 * \<delta>)"
proof -
  have "boot_budget \<delta> n fg bg \<le> (n + 1) * \<delta> + (fg + bg) * (BOOT_FG_SETTLE + 5 * \<delta>)"
    by (simp add: boot_budget_def BOOT_FG_SETTLE_def BOOT_BG_SETTLE_def algebra_simps)
  also have "\<dots> \<le> (n + 1) * \<delta> + n * (BOOT_FG_SETTLE + 5 * \<delta>)" using assms by simp
  also have "\<dots> = \<delta> + n * (BOOT_FG_SETTLE + 6 * \<delta>)" by (simp add: algebra_simps)
  finally show ?thesis .
qed

section \<open>Properties\<close>



definition endless_service :: service_config where
  "endless_service = (default_service_config ''web'')\<lparr>sc_start_cmd := Some ''run'', sc_daemon := True, sc_start_wait_secs := 2 ^ 63\<rparr>"

definition endless_config :: config where
  "endless_config = demo_config\<lparr>cfg_services := [endless_service]\<rparr>"

lemma settle_daemon_overflow:
  assumes "2 ^ 63 \<le> unat (sc_start_wait_secs cfg)"
  shows "settle_daemon cfg pid tracked e w = Panic ''overflow when adding duration to instant''"
proof -
  have "0 < sc_start_wait_secs cfg" using assms by (metis le_zero_eq not_gr_zero power_eq_0_iff unat_0 word_gt_0 zero_neq_numeral)
  moreover have "INSTANT_LIMIT \<le> secs (unat (sc_start_wait_secs cfg))" using assms by (simp add: INSTANT_LIMIT_def)
  ultimately show ?thesis by (simp add: settle_daemon_def bind_def deadline_after_def Let_def)
qed

lemma endless_fields:
  "sc_daemon endless_service" "sc_depends_on endless_service = []" "sc_name endless_service = ''web''"
  "resolve_start endless_service = Inr ''run''" "resolve_sec db endless_service = Inr None" "sc_enabled endless_service"
  by (simp_all add: endless_service_def default_service_config_def resolve_start_def resolve_sec_def)

lemma endless_config_valid: "validate demo_db 0 endless_config = Inr ()"
proof -
  have "valid_config demo_db endless_config"
    using demo_config_valid
    by (simp add: valid_config_def endless_config_def demo_config_def valid_service_def endless_service_def default_service_config_def
        resolve_start_def)
  then show ?thesis by (simp add: validate_iff_valid)
qed

lemma endless_launch: "launch endless_service None demo_env w = Panic ''overflow when adding duration to instant''"
proof -
  have s: "settle_daemon endless_service pid tracked e v = Panic ''overflow when adding duration to instant''" for pid tracked e v
    by (rule settle_daemon_overflow) (simp add: endless_service_def)
  have "\<exists>w1. notify_watchers demo_env v = Ret () w1" for v
    by (cases "follower_count (w_watch (others demo_env v)) = 0") (simp_all add: notify_watchers_def)
  then obtain w1 where w1: "apply_state ''web'' Starting None demo_env w = Ret () w1" by (auto simp: apply_state_def)
  obtain w2 where "spawn_shell ''run'' endless_service demo_env w1 = Ret (Inr 42) w2"
    by (simp add: spawn_shell_def spawn_shell_cmd_def endless_fields spawn_def atomic_simp demo_others) (simp add: demo_env_def)
  then show ?thesis using w1 s by (simp add: launch_def endless_fields bind_def)
qed


end
