(* ===== verification/Ipc_Types.thy ===== *)
theory Ipc_Types
  imports Cli Time_Bounds
begin

text \<open>
  The types of the exchanges on the control socket (\<open>src/src/protocol.rs\<close>): which kinds of responses answer which request,
  and in which order. The handler of the daemon (\<open>handle_ipc\<close> in \<open>src/src/init.rs\<close>) keeps to them also when the connection breaks, and
  the commands of the client (\<open>src/src/cli.rs\<close>) accept everything they allow.
\<close>

section \<open>Conversations\<close>

datatype reply_kind = KOk | KError | KList | KStatus | KDescribe | KInfo | KLog | KHeartbeat

fun kind_of :: "'j response \<Rightarrow> reply_kind" where
  "kind_of (RespOk _) = KOk"
| "kind_of (RespError _ _) = KError"
| "kind_of (RespList _) = KList"
| "kind_of (RespStatus _) = KStatus"
| "kind_of (RespDescribe _) = KDescribe"
| "kind_of (RespInfo _) = KInfo"
| "kind_of (RespLog _) = KLog"
| "kind_of RespHeartbeat = KHeartbeat"

text \<open>The complete answers to a request; those of the two streams have no end of their own.\<close>

fun conversation :: "request \<Rightarrow> reply_kind list \<Rightarrow> bool" where
  "conversation ReqList ks = (ks = [KList])"
| "conversation ReqInfo ks = (ks = [KInfo])"
| "conversation (ReqShutdown _) ks = (ks = [KOk])"
| "conversation (ReqStatus _) ks = (ks = [KStatus] \<or> ks = [KError])"
| "conversation (ReqDescribe _ _) ks = (ks = [KDescribe] \<or> ks = [KError])"
| "conversation (ReqLogs _ False _) ks = (ks \<noteq> [] \<and> last ks = KOk \<and> set (butlast ks) \<subseteq> {KLog})"
| "conversation (ReqLogs _ True _) ks = (set ks \<subseteq> {KLog, KHeartbeat})"
| "conversation (ReqWatch _) ks = (set ks \<subseteq> {KList, KHeartbeat} \<or> ks = [KError])"
| "conversation _ ks = (ks = [KOk] \<or> ks = [KError])"

text \<open>
  What a handler leaves on the stream \<open>s\<close>: responses were appended whose kinds begin a conversation, a complete one if the
  handler reports success, and only a request for a shutdown asks for one, once its answer is written.
\<close>

definition speaks :: "request \<Rightarrow> 'j stream \<Rightarrow> 'j handled \<Rightarrow> bool" where
  "speaks req s h =
     (case h of (s', m, r) \<Rightarrow>
        \<exists>rs. sm_sent s' = sm_sent s @ rs \<and> (\<exists>ks. conversation req (map kind_of rs @ ks))
          \<and> (r = Some (Inr ()) \<longrightarrow> conversation req (map kind_of rs))
          \<and> (m \<noteq> None \<longleftrightarrow> (\<exists>mode. req = ReqShutdown mode) \<and> r = Some (Inr ())) \<and> (\<forall>mode. req = ReqShutdown mode \<longrightarrow> m = None \<or> m = Some mode))"

lemma write_frame_cases:
  obtains (sent) s' where "write_frame r s = (s', Inr ())" "sm_sent s' = sm_sent s @ [r]"
  | (failed) err where "write_frame r s = (s, Inl err)"
  by (cases "sm_fail s (length (sm_sent s))") (auto simp: write_frame_def)

lemma speaks_say: "conversation req [kind_of r] \<Longrightarrow> (\<And>mode. req \<noteq> ReqShutdown mode) \<Longrightarrow> speaks req s (say r s)"
  by (rule write_frame_cases [of r s]) (auto simp: speaks_def say_def intro: exI [of _ "[]"] exI [of _ "[kind_of r]"])

lemma speaks_then_say:
  "(\<And>x. conversation req [kind_of (f x)]) \<Longrightarrow> (\<And>mode. req \<noteq> ReqShutdown mode) \<Longrightarrow>
   hoare e (\<lambda>_. True) (bind m (\<lambda>x. ret (say (f x) s))) (\<lambda>h _. speaks req s h)"
  by (intro hoare_then hoare_ret speaks_say)

text \<open>The loops that stream: they append responses of certain kinds.\<close>

definition appended :: "reply_kind set \<Rightarrow> 'j stream \<Rightarrow> 'j stream \<Rightarrow> bool" where
  "appended K s s' = (\<exists>rs. sm_sent s' = sm_sent s @ rs \<and> kind_of ` set rs \<subseteq> K)"

lemma appended_refl: "appended K s s"
  by (simp add: appended_def)

lemma appended_mono: "appended K s s' \<Longrightarrow> K \<subseteq> L \<Longrightarrow> appended L s s'"
  unfolding appended_def by blast

lemma appended_trans: "appended K s t \<Longrightarrow> appended K t u \<Longrightarrow> appended K s u"
  unfolding appended_def by (metis append.assoc image_Un set_append le_sup_iff)

lemma appended_write: "write_frame r s = (s', Inr ()) \<Longrightarrow> kind_of r \<in> K \<Longrightarrow> appended K s s'"
  by (auto simp: appended_def write_frame_def split: option.splits)

lemma send_lines_appended: "\<exists>s' r. send_lines ls s = (s', r) \<and> appended {KLog} s s'"
proof (induction ls arbitrary: s)
  case (Cons l ls)
  show ?case
  proof (rule write_frame_cases [of "RespLog l" s])
    fix t assume t: "write_frame (RespLog l) s = (t, Inr ())"
    then have "appended {KLog} s t" by (rule appended_write) simp
    moreover obtain s' r where "send_lines ls t = (s', r)" "appended {KLog} t s'" using Cons by blast
    ultimately show ?thesis using t appended_trans by force
  qed (simp add: appended_refl)
qed (simp add: appended_refl)

lemma hoare_case_option: "hoare e P m Q \<Longrightarrow> (\<And>y. hoare e P (g y) Q) \<Longrightarrow> hoare e P (case s of None \<Rightarrow> m | Some y \<Rightarrow> g y) Q"
  by (simp split: option.split)

lemma stream_next:
  assumes "kind_of r \<in> K" "\<And>t. hoare e (\<lambda>_. True) (f t) (\<lambda>x _. appended K t (fst x))"
  shows "hoare e (\<lambda>_. True) (case write_frame r s of (s', Inl _) \<Rightarrow> ret (s', True) | (s', Inr _) \<Rightarrow> f s') (\<lambda>x _. appended K s (fst x))"
proof (rule write_frame_cases [of r s])
  fix t assume t: "write_frame r s = (t, Inr ())"
  have "appended K s t" using t assms(1) by (rule appended_write)
  then have "hoare e (\<lambda>_. True) (f t) (\<lambda>x _. appended K s (fst x))"
    by (intro hoare_weaken [OF assms(2)]) (rule appended_trans)
  then show ?thesis using t by simp
qed (simp add: hoare_ret appended_refl)

lemma follow_logs_appended: "hoare e (\<lambda>_. True) (follow_logs n name rx s) (\<lambda>x _. appended {KLog, KHeartbeat} s (fst x))"
proof (induction n arbitrary: s)
  case (Suc n)
  show ?case
    unfolding follow_logs.simps
    by (rule hoare_then, intro hoare_case_option stream_next hoare_if Suc) (simp_all add: hoare_ret appended_refl)
qed (simp add: hoare_ret appended_refl)

lemma watch_loop_appended: "hoare e (\<lambda>_. True) (watch_loop n sub seen s) (\<lambda>x _. appended {KList, KHeartbeat} s (fst x))"
proof (induction n arbitrary: s seen)
  case (Suc n)
  have beat: "hoare e (\<lambda>_. True) (case write_frame RespHeartbeat s of (s', Inl _) \<Rightarrow> ret (s', True) | (s', Inr _) \<Rightarrow> watch_loop n sub seen s')
      (\<lambda>x _. appended {KList, KHeartbeat} s (fst x))" by (rule stream_next [OF _ Suc]) simp
  have snap: "hoare e (\<lambda>_. True) (case write_frame (RespList services) s of (s', Inl _) \<Rightarrow> ret (s', True) | (s', Inr _) \<Rightarrow> watch_loop n sub gen s')
      (\<lambda>x _. appended {KList, KHeartbeat} s (fst x))" for services gen by (rule stream_next [OF _ Suc]) simp
  show ?case
    unfolding watch_loop.simps by (rule hoare_then) (auto split: option.split wait_outcome.split intro: beat snap)
qed (simp add: hoare_ret appended_refl)

section \<open>The handler\<close>

lemma appended_kinds: "appended K s s' \<longleftrightarrow> (\<exists>rs. sm_sent s' = sm_sent s @ rs \<and> set (map kind_of rs) \<subseteq> K)"
  by (simp add: appended_def)

lemma speaks_stream:
  assumes "appended K s s'" "\<And>ks. set ks \<subseteq> K \<Longrightarrow> conversation req ks" "\<And>mode. req \<noteq> ReqShutdown mode"
  shows "speaks req s (s', None, r)"
proof -
  obtain rs where "sm_sent s' = sm_sent s @ rs" "conversation req (map kind_of rs)"
    using assms(1,2) unfolding appended_kinds by blast
  then show ?thesis using assms(3) by (auto simp: speaks_def intro: exI [of _ "[]"])
qed

lemma speaks_logs: "hoare e (\<lambda>_. True) (handle_logs turns ld name follow lines s) (\<lambda>h _. speaks (ReqLogs name follow lines) s h)"
  for s :: "'j stream"
  unfolding handle_logs_def Let_def
proof (rule hoare_then)
  fix snap
  obtain s1 r where send: "send_lines snap s = (s1, r)" and log: "appended {KLog} s s1" using send_lines_appended by blast
  obtain rs where rs: "sm_sent s1 = sm_sent s @ rs" "set (map kind_of rs) \<subseteq> {KLog}" using log unfolding appended_kinds by blast
  let ?req = "ReqLogs name follow lines"
  have begun: "\<exists>ks. conversation ?req (map kind_of rs @ ks)"
    by (rule exI [of _ "if follow then [] else [KOk]"]) (use rs(2) in \<open>cases follow; auto simp: butlast_append\<close>)
  have part: "speaks ?req s (s1, None, Some (Inl err))" for err
    using rs(1) begun by (simp add: speaks_def)
  have ended: "speaks ?req s (say (RespOk None) s1)" if "\<not> follow"
  proof (rule write_frame_cases [of "RespOk None" s1])
    fix s' assume "write_frame (RespOk None) s1 = (s', Inr ())" "sm_sent s' = sm_sent s1 @ [RespOk None]"
    moreover have "conversation ?req (map kind_of (rs @ [RespOk None]))" using rs(2) that by (auto simp: butlast_append)
    ultimately show ?thesis
      unfolding speaks_def say_def by (simp add: rs(1)) (metis append_Nil2 append.assoc append_Cons append_Nil)
  qed (use part in \<open>simp add: say_def\<close>)
  have streams: "speaks ?req s (s2, None, r')" if "appended {KLog, KHeartbeat} s1 s2" follow for s2 r'
  proof (rule speaks_stream)
    show "appended {KLog, KHeartbeat} s s2" using appended_mono [OF log] that(1) by (blast intro: appended_trans)
    show "conversation ?req ks" if "set ks \<subseteq> {KLog, KHeartbeat}" for ks using that \<open>follow\<close> by simp
  qed simp
  have following: "hoare e (\<lambda>_. True) (bind (atomic (\<lambda>e w. case log_subscribe (w_hub w) of (h, rx) \<Rightarrow> (rx, w\<lparr>w_hub := h\<rparr>))) (\<lambda>rx.
      bind (follow_logs turns name rx s1) (\<lambda>(s2, gone).
      if gone then bind (writes (\<lambda>e w. w\<lparr>w_hub := drop_receiver rx (w_hub w)\<rparr>)) (\<lambda>_. ret (s2, None, Some (Inr ())))
      else ret (s2, None, None)))) (\<lambda>h _. speaks ?req s h)" if follow
  proof (rule hoare_then, rule hoare_bind [OF follow_logs_appended])
    fix rx and x :: "'j stream \<times> bool"
    show "hoare e (\<lambda>_. appended {KLog, KHeartbeat} s1 (fst x)) (case x of (s2, gone) \<Rightarrow>
        if gone then bind (writes (\<lambda>e w. w\<lparr>w_hub := drop_receiver rx (w_hub w)\<rparr>)) (\<lambda>_. ret (s2, None, Some (Inr ())))
        else ret (s2, None, None)) (\<lambda>h _. speaks ?req s h)"
      using streams that by (cases x) (simp add: hoare_def)
  qed
  show "hoare e (\<lambda>_. True) (case send_lines snap s of
        (s1, Inl err) \<Rightarrow> ret (s1, None, Some (Inl err))
      | (s1, Inr _) \<Rightarrow>
          if follow then
            bind (atomic (\<lambda>e w. case log_subscribe (w_hub w) of (h, rx) \<Rightarrow> (rx, w\<lparr>w_hub := h\<rparr>))) (\<lambda>rx.
            bind (follow_logs turns name rx s1) (\<lambda>(s2, gone).
            if gone then bind (writes (\<lambda>e w. w\<lparr>w_hub := drop_receiver rx (w_hub w)\<rparr>)) (\<lambda>_. ret (s2, None, Some (Inr ())))
            else ret (s2, None, None)))
          else ret (say (RespOk None) s1)) (\<lambda>h _. speaks ?req s h)"
    using send part ended following by (cases r) (auto simp: hoare_ret)
qed

lemma speaks_watch: "hoare e (\<lambda>_. True) (handle_watch turns label_keys s) (\<lambda>h _. speaks (ReqWatch label_keys) s h)"
  for s :: "'j stream"
  unfolding handle_watch_def
proof (rule hoare_then, intro hoare_case_option hoare_ret speaks_say, simp_all)
  fix sub
  show "hoare e (\<lambda>_. True) (bind (watch_loop turns sub 0 s) (\<lambda>(s', gone).
      if gone then bind (writes (\<lambda>e w. w\<lparr>w_watch := watch_drop sub (w_watch w)\<rparr>)) (\<lambda>_. ret (s', None, Some (Inr ())))
      else ret (s', None, None))) (\<lambda>h _. speaks (ReqWatch label_keys) s h)"
  proof (rule hoare_bind [OF watch_loop_appended])
    fix x :: "'j stream \<times> bool"
    have "speaks (ReqWatch label_keys) s (s', None, r)" if "appended {KList, KHeartbeat} s s'" for s' r
      using that by (rule speaks_stream) simp_all
    then show "hoare e (\<lambda>_. appended {KList, KHeartbeat} s (fst x)) (case x of (s', gone) \<Rightarrow>
        if gone then bind (writes (\<lambda>e w. w\<lparr>w_watch := watch_drop sub (w_watch w)\<rparr>)) (\<lambda>_. ret (s', None, Some (Inr ())))
        else ret (s', None, None)) (\<lambda>h _. speaks (ReqWatch label_keys) s h)"
      by (cases x) (simp add: hoare_def)
  qed
qed

lemma speaks_handle: "hoare e (\<lambda>_. True) (handle_ipc turns dm ld req s) (\<lambda>h _. speaks req s h)"
proof (cases req)
  case (ReqShutdown mode)
  have "speaks req s (case write_frame (RespOk None) s of
      (s', Inr _) \<Rightarrow> (s', Some mode, Some (Inr ())) | (s', Inl err) \<Rightarrow> (s', None, Some (Inl err)))"
    by (rule write_frame_cases [of "RespOk None" s]) (auto simp: speaks_def ReqShutdown)
  then show ?thesis by (simp add: ReqShutdown hoare_ret)
qed (auto simp: respond_start_def respond_result_def error_response_def intro!: speaks_logs speaks_watch speaks_then_say
    split: sum.split)

section \<open>The client\<close>

text \<open>The daemon as the peer of a streaming command: the frames it writes, and the error with which reading them ends.\<close>

definition daemon_stream :: "error \<Rightarrow> nat \<Rightarrow> 'j daemon \<Rightarrow> nat \<Rightarrow> 'j stream \<Rightarrow> env \<Rightarrow> world \<Rightarrow> 'j open_stream" where
  "daemon_stream lost turns dm lines_default s e w = (\<lambda>req.
     case handle_ipc turns dm lines_default req s e w of
       Ret (s', _, _) _ \<Rightarrow> Inr (drop (length (sm_sent s)) (sm_sent s'), lost)
     | Panic _ \<Rightarrow> Inl lost)"

fun streaming :: "request \<Rightarrow> bool" where
  "streaming (ReqLogs _ _ _) = True"
| "streaming (ReqWatch _) = True"
| "streaming _ = False"

lemma one_shot_healthy:
  assumes "healthy s" "\<not> streaming req"
  shows "hoare e (\<lambda>_. True) (handle_ipc turns dm ld req s) (\<lambda>h _. snd (snd h) = Some (Inr ()))"
  using assms
  by (cases req) (auto simp: respond_start_def respond_result_def say_def hoare_ret intro!: hoare_then)

lemma answer_typed:
  assumes "healthy s" "\<not> streaming req" "daemon_answer lost dm ld s e w req = Inr r"
  shows "conversation req [kind_of r]"
proof -
  obtain s' m res w' where h: "handle_ipc 0 dm ld req s e w = Ret (s', m, res) w'" and r: "r = last (sm_sent s')"
    using assms(3) by (auto simp: daemon_answer_def answer_of_def split: outcome.splits prod.splits)
  have "case handle_ipc 0 dm ld req s e w of Ret h _ \<Rightarrow> snd (snd h) = Some (Inr ()) \<and> speaks req s h | Panic _ \<Rightarrow> True"
    using hoare_conj [OF one_shot_healthy [OF assms(1,2), of e 0 dm ld] speaks_handle [of e 0 dm ld req s]]
    unfolding hoare_def by blast
  then obtain rs where rs: "sm_sent s' = sm_sent s @ rs" "conversation req (map kind_of rs)"
    using h by (auto simp: speaks_def)
  then have "length rs = 1" using assms(2) by (cases req) (auto dest!: map_eq_imp_length_eq arg_cong [of _ "[_]" length])
  then show ?thesis using rs r by (auto simp: length_Suc_conv)
qed

lemma stream_typed:
  assumes "daemon_stream lost turns dm ld s e w req = Inr (frames, eof)"
  shows "\<exists>ks. conversation req (map kind_of frames @ ks)"
proof -
  obtain s' m res w' where h: "handle_ipc turns dm ld req s e w = Ret (s', m, res) w'" and f: "frames = drop (length (sm_sent s)) (sm_sent s')"
    using assms by (auto simp: daemon_stream_def split: outcome.splits prod.splits)
  have "speaks req s (s', m, res)" using speaks_handle [of e turns dm ld req s] h unfolding hoare_def by (metis (no_types) outcome.case(1))
  then show ?thesis using f by (auto simp: speaks_def)
qed

lemma log_frames_debug:
  "kind_of ` set rs \<subseteq> {KLog, KHeartbeat, KOk, KError} \<Longrightarrow> log_frames (cl\<lparr>cl_debug := d\<rparr>) rs eof = log_frames cl rs eof"
  by (induction rs) (auto split: response.split)

lemma watch_frames_debug:
  "kind_of ` set rs \<subseteq> {KList, KHeartbeat, KError} \<Longrightarrow> watch_frames (cl\<lparr>cl_debug := d\<rparr>) json rs eof = watch_frames cl json rs eof"
  by (induction rs) (auto split: response.split sum.split)

lemma logs_kinds: "conversation (ReqLogs name follow lines) ks \<Longrightarrow> set ks \<subseteq> {KLog, KHeartbeat, KOk}"
  by (cases follow; cases ks rule: rev_cases) auto

lemma run_cli_debug:
  assumes "healthy s"
  shows "run_cli (ou\<lparr>ou_client := cl\<lparr>cl_debug := d\<rparr>, ou_ask := (\<lambda>_. daemon_answer lost dm ld s e w),
        ou_open := (\<lambda>_. daemon_stream lost turns dm ld s e w)\<rparr>) dd socket cmd
    = run_cli (ou\<lparr>ou_client := cl, ou_ask := (\<lambda>_. daemon_answer lost dm ld s e w),
        ou_open := (\<lambda>_. daemon_stream lost turns dm ld s e w)\<rparr>) dd socket cmd"
proof -
  let ?ask = "daemon_answer lost dm ld s e w" and ?open = "daemon_stream lost turns dm ld s e w"
  have asked: "on_response (?ask req) f = on_response (?ask req) g"
    if "\<not> streaming req" "\<And>r. conversation req [kind_of r] \<Longrightarrow> f r = g r" for req f g
    using answer_typed [OF assms that(1)] that(2) by (cases "?ask req") (auto simp: on_response_def)
  have logs: "cmd_logs (cl\<lparr>cl_debug := d\<rparr>) ?open name follow lines = cmd_logs cl ?open name follow lines" for name follow lines
  proof (cases "?open (ReqLogs name follow lines)")
    case (Inr p)
    then obtain ks where ks: "conversation (ReqLogs name follow lines) (map kind_of (fst p) @ ks)" using stream_typed by (metis prod.collapse)
    have "kind_of ` set (fst p) \<subseteq> {KLog, KHeartbeat, KOk, KError}"
      using logs_kinds [OF ks] by auto
    then show ?thesis by (cases p) (simp add: cmd_logs_def Inr log_frames_debug)
  qed (simp add: cmd_logs_def)
  have watch: "cmd_watch (cl\<lparr>cl_debug := d\<rparr>) ?open keys json = cmd_watch cl ?open keys json" for keys json
  proof (cases "?open (ReqWatch keys)")
    case (Inr p)
    then obtain ks where ks: "conversation (ReqWatch keys) (map kind_of (fst p) @ ks)" using stream_typed by (metis prod.collapse)
    then have "kind_of ` set (fst p) \<subseteq> {KList, KHeartbeat, KError}" by (cases "fst p") auto
    then show ?thesis by (cases p) (simp add: cmd_watch_def Inr watch_frames_debug)
  qed (simp add: cmd_watch_def)
  show ?thesis
    by (cases cmd) (auto simp: logs watch cmd_start_def cmd_stop_def cmd_restart_def cmd_enable_def cmd_disable_def cmd_list_def
        cmd_describe_def cmd_info_def simple_ok_def refused_def print_describe_json_def intro!: asked
        split: response.split describe_output.split sum.split cong: option.case_cong)
qed

section \<open>Properties\<close>

text \<open>
  C9: the handler of the daemon keeps to the type of the conversation. Whatever the request, the state of the
  supervisor and the failures of the connection, the responses it writes begin one of the conversations that the
  request allows; it is complete when the handler reports success, and a shutdown is requested exactly by a shutdown
  request whose answer could be written.
\<close>

theorem handler_speaks_protocol:
  assumes "handle_ipc turns dm lines_default req s e w = Ret (s', m, r) w'"
  shows "\<exists>rs. sm_sent s' = sm_sent s @ rs \<and> (\<exists>ks. conversation req (map kind_of rs @ ks))
    \<and> (r = Some (Inr ()) \<longrightarrow> conversation req (map kind_of rs))
    \<and> (\<forall>mode. m = Some mode \<longleftrightarrow> req = ReqShutdown mode \<and> r = Some (Inr ()))"
proof -
  have "case handle_ipc turns dm lines_default req s e w of Ret h _ \<Rightarrow> speaks req s h | Panic _ \<Rightarrow> True"
    using speaks_handle [of e turns dm lines_default req s] unfolding hoare_def by blast
  then have "speaks req s (s', m, r)" using assms by simp
  then show ?thesis unfolding speaks_def prod.case by (cases req; cases m) auto
qed

theorem handler_speaks_protocol_witness:
  "\<exists>s' r w'. handle_ipc 0 demo_daemon 10 (ReqStop ''web'') quiet_stream demo_env demo_run_world = Ret (s', None, r) w'
    \<and> (map kind_of (sm_sent s') = [KOk] \<or> map kind_of (sm_sent s') = [KError])"
proof -
  obtain s' m r w' where h: "handle_ipc 0 demo_daemon 10 (ReqStop ''web'') quiet_stream demo_env demo_run_world = Ret (s', m, r) w'"
      and r: "r = Some (Inr ())"
    by (simp add: stop_service_def log_init_def send_ctl_def atomic_simp bind_def respond_result_def)
  from handler_speaks_protocol [OF h] show ?thesis using h r by auto
qed

text \<open>
  C32: the client understands the daemon. On a connection that works, the branches for an unexpected response, which
  alone print a response with \<open>Debug\<close>, are never taken: what a command prints, to where, and its exit code do not depend on
  that text, for all commands, requests and states of the daemon.
\<close>

theorem client_understands_daemon:
  assumes "healthy s"
  shows "report_error (run_cli (ou\<lparr>ou_client := cl\<lparr>cl_debug := d\<rparr>, ou_ask := (\<lambda>_. daemon_answer lost dm lines_default s e w),
        ou_open := (\<lambda>_. daemon_stream lost turns dm lines_default s e w)\<rparr>) dd socket cmd)
    = report_error (run_cli (ou\<lparr>ou_client := cl, ou_ask := (\<lambda>_. daemon_answer lost dm lines_default s e w),
        ou_open := (\<lambda>_. daemon_stream lost turns dm lines_default s e w)\<rparr>) dd socket cmd)"
  using run_cli_debug [OF assms] by metis

theorem client_understands_daemon_witness:
  "report_error (run_cli (demo_peers\<lparr>ou_client := demo_client\<lparr>cl_debug := (\<lambda>_. ''?'')\<rparr>,
        ou_ask := (\<lambda>_. daemon_answer (ErrIpc []) demo_daemon 10 quiet_stream demo_env demo_run_world),
        ou_open := (\<lambda>_. daemon_stream (ErrIpc []) 2 demo_daemon 10 quiet_stream demo_env demo_run_world)\<rparr>) concat ''/s'' (CmdList False []))
    = report_error (run_cli (demo_peers\<lparr>ou_client := demo_client,
        ou_ask := (\<lambda>_. daemon_answer (ErrIpc []) demo_daemon 10 quiet_stream demo_env demo_run_world),
        ou_open := (\<lambda>_. daemon_stream (ErrIpc []) 2 demo_daemon 10 quiet_stream demo_env demo_run_world)\<rparr>) concat ''/s'' (CmdList False []))"
  by (rule client_understands_daemon) (rule quiet_healthy)

end
