(* ===== verification/Log_Sources.thy ===== *)
theory Log_Sources
  imports Version Operations
begin

text \<open>
  Where log lines come from besides the supervisor itself: the threads that copy a child's output
  (\<open>capture_stream\<close> of \<open>src/src/logs.rs\<close>) and the bridge from the \<open>log\<close> crate (\<open>src/src/log_bridge.rs\<close>).
\<close>

section \<open>Copying a child's output\<close>

text \<open>
  \<open>BufRead::lines\<close> reads up to and including each newline; what follows the last newline is a line if it is not
  empty. A piece that is not valid UTF-8 is an error; otherwise the newline and a carriage return before it are cut off.
\<close>

definition raw_lines :: "string \<Rightarrow> string list" where
  "raw_lines data =
     (let ps = split_char NL data in
      map (\<lambda>p. p @ [NL]) (butlast ps) @ (if last ps = [] then [] else [last ps]))"

definition chomp :: "string \<Rightarrow> string" where
  "chomp l = (if l \<noteq> [] \<and> last l = NL then strip_cr (butlast l) else l)"

text \<open>
  The loop: the messages emitted, and the pieces that were never read because the loop broke off. The pipe is closed when
  the thread ends.
\<close>

fun capture_loop :: "string list \<Rightarrow> string list \<times> string list" where
  "capture_loop [] = ([], [])"
| "capture_loop (l # ls) =
     (if valid_utf8 l then (let (msgs, rest) = capture_loop ls in (chomp l # msgs, rest)) else ([], ls))"

text \<open>\<open>data\<close> is all the child writes until it closes the pipe. The result is what was left unread.\<close>

definition capture_stream :: "string \<Rightarrow> log_level \<Rightarrow> string \<Rightarrow> string list prog" where
  "capture_stream service level data =
     (let (msgs, rest) = capture_loop (raw_lines data) in
      bind (for_each (\<lambda>msg. writes (\<lambda>e w. w\<lparr>w_hub := emit (e_opens e) (e_ts e (w_tick w)) service level msg (w_hub w)\<rparr>)) msgs) (\<lambda>_.
      ret rest))"

section \<open>The bridge\<close>

datatype rust_level = LevelError | LevelWarn | LevelInfo | LevelDebug | LevelTrace

fun level_rank :: "rust_level \<Rightarrow> nat" where
  "level_rank LevelError = 1"
| "level_rank LevelWarn = 2"
| "level_rank LevelInfo = 3"
| "level_rank LevelDebug = 4"
| "level_rank LevelTrace = 5"

definition bridge_enabled :: "rust_level \<Rightarrow> string \<Rightarrow> bool" where
  "bridge_enabled level target = (level_rank level \<le> level_rank LevelInfo \<and> starts_with ''bigfred_shared_daemon'' target)"

fun bridge_level :: "rust_level \<Rightarrow> log_level" where
  "bridge_level LevelError = LvError"
| "bridge_level LevelWarn = LvWarn"
| "bridge_level _ = LvInfo"

text \<open>
  \<open>Bridge::log\<close>: \<open>hub_set\<close> tells whether \<open>set_hub\<close> was called. Both outcomes of the lock lead to the same hub. The result is the
  text on standard error.
\<close>

definition bridge_log :: "bool \<Rightarrow> rust_level \<Rightarrow> string \<Rightarrow> string \<Rightarrow> string prog" where
  "bridge_log hub_set level target msg =
     (if \<not> bridge_enabled level target then ret []
      else if hub_set then bind (log_init (bridge_level level) msg) (\<lambda>_. ret [])
      else ret (''microinit: '' @ msg @ [NL]))"

section \<open>Lines\<close>

lemma chomp_raw_lines: "map chomp (raw_lines data) = str_lines data"
proof -
  have sep: "NL \<notin> set p" if "p \<in> set (split_char NL data)" for p
    using that by (induction data arbitrary: p) (auto split: if_splits list.splits)
  have "chomp (last (split_char NL data)) = last (split_char NL data)"
    using sep [OF last_in_set] by (auto simp: chomp_def dest: last_in_set)
  moreover have "chomp (p @ [NL]) = strip_cr p" for p by (simp add: chomp_def)
  ultimately show ?thesis by (simp add: raw_lines_def str_lines_def Let_def comp_def)
qed

lemma capture_loop_prefix:
  "capture_loop ls = (map chomp (takeWhile valid_utf8 ls), drop (Suc (length (takeWhile valid_utf8 ls))) ls)"
  by (induction ls) simp_all

text \<open>
  The output of a service reaches the log line by line up to the first line that is not valid UTF-8. The messages
  are exactly the lines of the output before it; that line and everything the service writes later are lost. Without
  such a line the messages are all lines of the output.
\<close>

theorem capture_until_invalid:
  "capture_loop (raw_lines data) =
     (let n = length (takeWhile valid_utf8 (raw_lines data)) in (take n (str_lines data), drop (Suc n) (raw_lines data)))"
proof -
  have "map chomp (takeWhile valid_utf8 ls) = take (length (takeWhile valid_utf8 ls)) (map chomp ls)" for ls
    by (metis take_map takeWhile_eq_take)
  then show ?thesis by (simp add: capture_loop_prefix Let_def chomp_raw_lines)
qed

text \<open>One byte of Latin-1 ends the capture: the two good lines around it, of which the second is lost.\<close>

theorem capture_stops_at_latin1:
  "capture_loop (raw_lines (''up'' @ [NL] @ [CHR 0xE9, NL] @ ''crash'' @ [NL])) = ([''up''], [''crash'' @ [NL]])"
  by code_simp

section \<open>The shared state\<close>

context shared_inv
begin

lemma keeps_capture_stream: "stable e P \<Longrightarrow> keeps e P (capture_stream service level data)"
  unfolding capture_stream_def emit_def log_publish_def Let_def
  by (simp add: split_beta) (intro keeps_flow keeps_writes; simp add: P_log)

lemma keeps_bridge_log: "stable e P \<Longrightarrow> keeps e P (bridge_log hub_set level target msg)"
  unfolding bridge_log_def by (intro keeps_flow keeps_log_init)

end

text \<open>Neither the output of the services nor the messages of the library can break the invariant of the shared state.\<close>

theorem log_sources_keep_invariant:
  assumes "stable e sup_ok"
  shows "keeps e sup_ok (capture_stream service level data)" "keeps e sup_ok (bridge_log hub_set l target msg)"
  using assms by (rule sup.keeps_capture_stream, rule sup.keeps_bridge_log)

end
