(* ===== verification/Wiring.thy ===== *)
theory Wiring
  imports Ipc_Types Log_Sources
begin

text \<open>
  The small parts that connect the daemon to the outside: what it asks the watcher of the shared library to watch
  (\<open>src/src/config_watch.rs\<close>), the facade through which that library logs (\<open>src/src/log_bridge.rs\<close>), the device of the console
  (\<open>src/src/console.rs\<close>), the commands behind the router of the socket (\<open>src/src/ipc.rs\<close>), the cached version (\<open>src/src/version.rs\<close>) and
  the variant of the last call for Android (\<open>src/src/shutdown.rs\<close>).
\<close>

section \<open>The configuration watcher\<close>

record path_filter =
  pf_extensions :: "string list"
  pf_extra_names :: "string list"
  pf_ignore_suffixes :: "string list"

record watch_spec =
  ws_path :: path
  ws_recursive :: bool
  ws_filter :: path_filter

definition DEBOUNCE :: millis where "DEBOUNCE = 300"

definition microinit_filter :: path_filter where
  "microinit_filter =
     \<lparr>pf_extensions = [''json''],
      pf_extra_names = [''microinit.json'', ''microinit.services.enabled-override.json'', ''microinit.d''],
      pf_ignore_suffixes = []\<rparr>"

text \<open>\<open>relevant\<close> is the library's decision on a path and a filter.\<close>

definition is_relevant_path :: "(path \<Rightarrow> path_filter \<Rightarrow> bool) \<Rightarrow> path \<Rightarrow> bool" where
  "is_relevant_path relevant p = relevant p microinit_filter"

definition watch_specs :: "path \<Rightarrow> path \<Rightarrow> watch_spec list" where
  "watch_specs etc_dir dropins_dir =
     [\<lparr>ws_path = etc_dir, ws_recursive = False, ws_filter = microinit_filter\<rparr>,
      \<lparr>ws_path = dropins_dir, ws_recursive = True, ws_filter = microinit_filter\<rparr>]"

text \<open>\<open>spawn_signal\<close> is the library's answer: why watching the directories is not possible, if it is not.\<close>

definition spawn_watch :: "(watch_spec list \<Rightarrow> millis \<Rightarrow> string option) \<Rightarrow> (path \<Rightarrow> bool) \<Rightarrow> path \<Rightarrow> path \<Rightarrow> unit res prog" where
  "spawn_watch spawn_signal is_dir etc_dir dropins_dir =
     (case spawn_signal (watch_specs etc_dir dropins_dir) DEBOUNCE of
        Some e \<Rightarrow> ret (Inl (ErrOther e))
      | None \<Rightarrow>
          bind (log_init LvInfo (''config watch active on '' @ etc_dir @ '' (drop-ins ''
            @ (if is_dir dropins_dir then ''recursive'' else ''pending'') @ '')'')) (\<lambda>_. ret (Inr ())))"

text \<open>The daemon goes on without a watcher; what it does is the step \<open>start_watch\<close> of bringing up.\<close>

lemma start_watch_spawns:
  assumes "\<And>a b. ua_watch ua a b = spawn_signal (watch_specs a b) DEBOUNCE"
  shows "start_watch ua etc_dir dropins_dir e w =
    bind (spawn_watch spawn_signal (ua_is_dir ua) etc_dir dropins_dir) (\<lambda>r.
      case r of Inl err \<Rightarrow> log_init LvWarn (''config watch unavailable: '' @ error_to_string err) | Inr _ \<Rightarrow> ret ()) e w"
  by (auto simp: start_watch_def spawn_watch_def assms bind_def log_init_def split: option.split)

section \<open>Values made once\<close>

text \<open>\<open>OnceLock::get_or_init\<close>: the value, and the cell as it is left.\<close>

definition get_or_init :: "'a option \<Rightarrow> 'a \<Rightarrow> 'a \<times> 'a option" where
  "get_or_init cell fresh = (case cell of Some v \<Rightarrow> (v, Some v) | None \<Rightarrow> (fresh, Some fresh))"

text \<open>The version is loaded at most once; a load that panics leaves the cell as it was.\<close>

definition version_cached :: "(string \<Rightarrow> (string \<times> string) option) \<Rightarrow> (string \<Rightarrow> string option) \<Rightarrow> string option
    \<Rightarrow> string option \<Rightarrow> string option \<Rightarrow> string option \<Rightarrow> version_info option \<Rightarrow> version_info scan \<times> version_info option" where
  "version_cached dec read exe lib git_commit build_time cell =
     (case cell of
        Some v \<Rightarrow> (Got v, cell)
      | None \<Rightarrow>
          (case load_version dec read exe lib git_commit build_time of
             Got v \<Rightarrow> (Got v, snd (get_or_init cell v))
           | r \<Rightarrow> (r, cell)))"

definition global_exits :: "exits option \<Rightarrow> exits \<times> exits option" where
  "global_exits cell = get_or_init cell []"

text \<open>Once a version has been read it is the version of the process, whatever happens to the files.\<close>

lemma version_stays:
  assumes "version_cached dec read exe lib git_commit build_time cell = (Got v, cell')"
  shows "version_cached dec' read' exe' lib' git_commit build_time cell' = (Got v, cell')"
  using assms
  by (auto simp: version_cached_def get_or_init_def split: option.splits scan.splits)

section \<open>The log facade\<close>

text \<open>
  \<open>set_logger\<close> and \<open>set_max_level\<close> of the \<open>log\<close> crate act on its state; the bridge ignores the error of a second
  \<open>set_logger\<close>.
\<close>

definition bridge_install :: "('l \<Rightarrow> 'l \<times> unit res) \<Rightarrow> (rust_level \<Rightarrow> 'l \<Rightarrow> 'l) \<Rightarrow> 'l \<Rightarrow> 'l" where
  "bridge_install set_logger set_max_level l = set_max_level LevelInfo (fst (set_logger l))"

definition bridge_set_hub :: "'h \<Rightarrow> 'h option \<Rightarrow> 'h option" where
  "bridge_set_hub hub cell = Some hub"

text \<open>
  Installing the bridge again changes nothing: the crate keeps its first logger, and the two calls touch different parts
  of its state.
\<close>

lemma bridge_install_again:
  assumes keeps: "\<And>l. fst (set_logger (fst (set_logger l))) = fst (set_logger l)"
    and apart: "\<And>v l. fst (set_logger (set_max_level v l)) = set_max_level v (fst (set_logger l))"
    and last: "\<And>v l. set_max_level v (set_max_level v l) = set_max_level v l"
  shows "bridge_install set_logger set_max_level (bridge_install set_logger set_max_level l)
    = bridge_install set_logger set_max_level l"
  by (simp add: bridge_install_def keeps apart last)

text \<open>
  With a hub set, a record of the shared library at \<open>Warn\<close> or \<open>Error\<close> is a line of init on the hub and nothing goes to standard
  error.
\<close>

lemma bridge_after_set_hub:
  assumes "starts_with ''bigfred_shared_daemon'' target" "level = LevelWarn \<or> level = LevelError"
  shows "bridge_log (bridge_set_hub hub cell \<noteq> None) level target msg
    = bind (log_init (bridge_level level) msg) (\<lambda>_. ret [])"
  using assms by (auto simp: bridge_set_hub_def bridge_log_def bridge_enabled_def)

section \<open>Terminals\<close>

text \<open>
  \<open>writable\<close> tells whether a path opens for writing, \<open>creatable\<close> whether it can be created. The \<open>opens\<close> of the log hub is
  \<open>open_tty\<close>.
\<close>

definition open_tty :: "(path \<Rightarrow> bool) \<Rightarrow> (path \<Rightarrow> bool) \<Rightarrow> path \<Rightarrow> bool" where
  "open_tty writable creatable p = (writable p \<or> creatable p)"

datatype console_sink = SinkDevice path | SinkStderr

definition open_with_hub :: "(path \<Rightarrow> bool) \<Rightarrow> path \<Rightarrow> log_hub option \<Rightarrow> console_sink \<times> console" where
  "open_with_hub writable p hub =
     ((if writable p then SinkDevice p else SinkStderr), \<lparr>con_out = [], con_hub = hub\<rparr>)"

definition console_open :: "(path \<Rightarrow> bool) \<Rightarrow> path \<Rightarrow> console_sink \<times> console" where
  "console_open writable p = open_with_hub writable p None"

definition console_stderr :: "console_sink \<times> console" where
  "console_stderr = (SinkStderr, \<lparr>con_out = [], con_hub = None\<rparr>)"

definition console_ok :: "(string \<Rightarrow> bool) \<Rightarrow> string \<Rightarrow> string \<Rightarrow> console \<Rightarrow> console" where
  "console_ok opens ts name = console_status opens ts name True"

definition console_fail :: "(string \<Rightarrow> bool) \<Rightarrow> string \<Rightarrow> string \<Rightarrow> console \<Rightarrow> console" where
  "console_fail opens ts name = console_status opens ts name False"

text \<open>
  A status line always ends the line: the carriage return first overwrites the \<open>Starting\<close> text, and what the
  hub gets is one line at the level of the outcome.
\<close>

lemma console_line_shape:
  "con_out (console_ok opens ts name c) = con_out c @ [CR] @ ''  '' @ name
     @ replicate (CONSOLE_WIDTH - length name) CHR ''.'' @ '' '' @ GREEN @ ''[  OK  ]'' @ RESET @ [NL]"
  "con_hub (console_fail opens ts name c)
     = map_option (emit_init_console_mirror opens ts LvError (name @ '': FAIL'')) (con_hub c)"
  by (simp_all add: console_ok_def console_fail_def console_status_def con_mirror_def Let_def)

section \<open>The commands of the router\<close>

datatype handler_command = ListCmd | StartCmd | StopCmd | RestartCmd | StatusCmd | DescribeCmd | EnableCmd | LogsCmd
  | InfoCmd | ShutdownCmd | WatchCmd

fun command_name :: "handler_command \<Rightarrow> string" where
  "command_name ListCmd = ''list''"
| "command_name StartCmd = ''start''"
| "command_name StopCmd = ''stop''"
| "command_name RestartCmd = ''restart''"
| "command_name StatusCmd = ''status''"
| "command_name DescribeCmd = ''describe''"
| "command_name EnableCmd = ''enable''"
| "command_name LogsCmd = ''logs''"
| "command_name InfoCmd = ''info''"
| "command_name ShutdownCmd = ''shutdown''"
| "command_name WatchCmd = ''watch''"

definition map_frame :: "string \<Rightarrow> error" where
  "map_frame e = ErrIpc e"

lemma write_frame_fails: "snd (write_frame r s) = Inl e \<Longrightarrow> \<exists>why. e = map_frame why"
  by (auto simp: write_frame_def map_frame_def split: option.splits)

text \<open>
  Every request has exactly one command on the router, so none is answered as an unknown variant.
\<close>

lemma command_name_inj: "inj command_name"
proof (rule injI)
  show "c = c'" if "command_name c = command_name c'" for c c'
    using that by (cases c; cases c') simp_all
qed

lemma request_command: "\<exists>c. command_name c = request_tag r"
proof (cases r)
  case ReqList then show ?thesis by (intro exI [of _ ListCmd]) simp
next
  case ReqStart then show ?thesis by (intro exI [of _ StartCmd]) simp
next
  case ReqStop then show ?thesis by (intro exI [of _ StopCmd]) simp
next
  case ReqRestart then show ?thesis by (intro exI [of _ RestartCmd]) simp
next
  case ReqStatus then show ?thesis by (intro exI [of _ StatusCmd]) simp
next
  case ReqDescribe then show ?thesis by (intro exI [of _ DescribeCmd]) simp
next
  case ReqEnable then show ?thesis by (intro exI [of _ EnableCmd]) simp
next
  case ReqLogs then show ?thesis by (intro exI [of _ LogsCmd]) simp
next
  case ReqInfo then show ?thesis by (intro exI [of _ InfoCmd]) simp
next
  case ReqShutdown then show ?thesis by (intro exI [of _ ShutdownCmd]) simp
next
  case ReqWatch then show ?thesis by (intro exI [of _ WatchCmd]) simp
qed

lemma router_complete: "\<exists>!c. command_name c = request_tag r"
  using request_command command_name_inj by (metis injD)

lemma router_names:
  "handler_router = map command_name [ListCmd, StartCmd, StopCmd, RestartCmd, StatusCmd, DescribeCmd, EnableCmd, LogsCmd,
     InfoCmd, ShutdownCmd, WatchCmd]"
  "distinct handler_router"
  by (simp_all add: handler_router_def)

section \<open>The last call on Android\<close>

text \<open>The arguments of the system call: number, two magic numbers, command and a null pointer.\<close>

datatype reboot_cmd = LINUX_REBOOT_CMD_RESTART | LINUX_REBOOT_CMD_POWER_OFF | LINUX_REBOOT_CMD_HALT

datatype syscall_arg = SYS_reboot | LINUX_REBOOT_MAGIC1 | LINUX_REBOOT_MAGIC2 | is_RebootCmd: RebootCmd reboot_cmd | NullPtr

fun reboot_cmd_arg :: "shutdown_mode \<Rightarrow> reboot_cmd" where
  "reboot_cmd_arg Reboot = LINUX_REBOOT_CMD_RESTART"
| "reboot_cmd_arg Poweroff = LINUX_REBOOT_CMD_POWER_OFF"
| "reboot_cmd_arg Halt = LINUX_REBOOT_CMD_HALT"

definition invoke_reboot_android :: "shutdown_mode \<Rightarrow> syscall_arg list" where
  "invoke_reboot_android mode =
     [SYS_reboot, LINUX_REBOOT_MAGIC1, LINUX_REBOOT_MAGIC2, RebootCmd (reboot_cmd_arg mode), NullPtr]"

text \<open>The library's \<open>reboot\<close> issues the same call with the command of its mode, so the two variants agree.\<close>

fun mode_cmd :: "reboot_mode \<Rightarrow> reboot_cmd" where
  "mode_cmd RB_AUTOBOOT = LINUX_REBOOT_CMD_RESTART"
| "mode_cmd RB_POWER_OFF = LINUX_REBOOT_CMD_POWER_OFF"
| "mode_cmd RB_HALT_SYSTEM = LINUX_REBOOT_CMD_HALT"

lemma android_reboots_alike:
  "[RebootCmd (mode_cmd m). CallReboot m \<leftarrow> invoke_reboot mode] = [a \<leftarrow> invoke_reboot_android mode. is_RebootCmd a]"
  by (cases mode) (simp_all add: invoke_reboot_def invoke_reboot_android_def)

end
