(* ===== verification/Spec2Isabelle.thy ===== *)
theory Spec2Isabelle
  imports Labels Child_Wait Wiring
begin

text \<open>
  A verification development for microinit, an init system (PID 1) and service supervisor written in Rust. The sources
  are under \<open>src/src/\<close>; file names below are relative to it.

  \<^bold>\<open>The program.\<close> The process starts as PID 1, as a supervisor inside another system, or as the client of a running
  daemon (\<open>main.rs\<close>, \<open>cli.rs\<close>, \<open>bin/shutdown.rs\<close>). The daemon (\<open>init.rs\<close>) runs the early-boot script, reads \<open>microinit.json\<close> with its
  drop-ins and its override file (\<open>config.rs\<close>) and the env files (\<open>envfile.rs\<close>, \<open>otelenv.rs\<close>), builds the supervisor
  (\<open>supervisor.rs\<close>), which orders the services by their dependencies (\<open>graph.rs\<close>) and gives each a monitor thread with a control
  channel, serves the control socket (\<open>ipc.rs\<close>, \<open>protocol.rs\<close>), starts the metrics exporter (\<open>otel.rs\<close>) and the watcher of the
  configuration (\<open>config_watch.rs\<close>), and then loops over signals, reload requests and shutdown requests. A monitor spawns
  its service with the environment and identity the configuration asks for (\<open>service.rs\<close>, \<open>security.rs\<close>), learns of its end
  through the registry that the reaper fills (\<open>reaper.rs\<close>, \<open>signals.rs\<close>), probes it (\<open>liveness.rs\<close>), restarts it by policy, and
  publishes every change to the followers of the watch hub (\<open>watch.rs\<close>). Output of services and messages of the
  daemon go through the log hub (\<open>logs.rs\<close>, \<open>log_bridge.rs\<close>, \<open>console.rs\<close>). A shutdown stops the services in reverse order,
  runs the unmount script (\<open>unmount.rs\<close>) and reboots, halts or exits (\<open>shutdown.rs\<close>).

  \<^bold>\<open>Theories and sources.\<close> In the order in which they build on each other:
  \<^item> \<open>Prelude\<close>: ordered finite maps (\<open>omap\<close>, for \<open>HashMap\<close> and \<open>BTreeMap\<close>), the integer types, lemmas that all
    theories share. \<open>Rust_Strings\<close>: the functions of Rust's string library that the program calls, on UTF-8 byte
    strings.
  \<^item> \<open>Errors\<close>: results \<open>error + 'a\<close>, the error type with codes and texts (\<open>error.rs\<close>), all constants (\<open>constants.rs\<close>). \<open>Protocol\<close>: the messages of the
    socket (\<open>protocol.rs\<close>).
  \<^item> \<open>Security\<close>: capabilities, resolution of identities, the calls before exec (\<open>security.rs\<close>). \<open>Config\<close>: the structures of the
    configuration, defaults and validation; \<open>Config_Load\<close>: files, drop-ins, overrides, atomic saving, load or create
    (\<open>config.rs\<close>). \<open>Dotenv\<close>: both env-file parsers and layering (\<open>envfile.rs\<close>, \<open>otelenv.rs\<close>).
  \<^item> \<open>Graph\<close>: topological sort, boot and shutdown orders (\<open>graph.rs\<close>). \<open>Ring_Spec\<close>: the abstract bounded buffer. \<open>Logs\<close>: log hub
    and console (\<open>logs.rs\<close>, \<open>console.rs\<close>). \<open>Log_Sources\<close>: the threads that copy a child's output and the bridge for the shared
    library's messages (\<open>logs.rs\<close>, \<open>log_bridge.rs\<close>). \<open>Labels\<close>, \<open>Watch\<close>: label selectors and the watch hub (\<open>labels.rs\<close>, \<open>watch.rs\<close>).
  \<^item> \<open>Runtime\<close>: the record of a service with its events and every critical section of \<open>Shared\<close> (\<open>supervisor.rs\<close>). \<open>Reaper\<close>: the exit
    registry; \<open>Signals\<close>: flags, handlers, reaping, and the last steps of a shutdown (\<open>reaper.rs\<close>, \<open>signals.rs\<close>, \<open>shutdown.rs\<close>).
  \<^item> \<open>World\<close>: the state the threads share and the computations on it. \<open>Service\<close>: commands, environment, spawning,
    termination, probes; \<open>Child_Wait\<close>: both ways of waiting for a child and the reaper thread (\<open>service.rs\<close>, \<open>liveness.rs\<close>,
    \<open>reaper.rs\<close>).
  \<^item> \<open>Supervisor\<close>: control operations, boot, reload, ordered stop. \<open>Monitor\<close>: the monitor thread. \<open>Lifecycle\<close>: the abstract life
    of a service and the refinement. \<open>Monitor_Edges\<close>: behaviour at the edges of the loop. \<open>Operations\<close>: what the
    operations achieve. \<open>Control_Mail\<close>: what boot and ordered stop send to the monitors. \<open>Describe\<close>: list, status, describe
    and info (all \<open>supervisor.rs\<close>). \<open>Version\<close>: the version section of the ELF image (\<open>version.rs\<close>).
  \<^item> \<open>Ipc\<close>: access policy, request handler with its two streams, client call (\<open>ipc.rs\<close> and the handler in \<open>init.rs\<close>). \<open>Otel\<close>: the
    exporter (\<open>otel.rs\<close>). \<open>Boot_Scripts\<close>: early boot and late unmount (\<open>early_boot.rs\<close>, \<open>unmount.rs\<close>). \<open>Init\<close>: the daemon from early
    boot to the end (\<open>init.rs\<close>). \<open>Cli\<close>: every command of the client, the main program, the program \<open>shutdown\<close>.
  \<^item> \<open>Time_Bounds\<close>: how long starting a service and booting can take. \<open>Ipc_Types\<close>: the conversations that the requests of the
    socket allow, and that daemon and client keep to them. \<open>Wiring\<close>: what the watcher watches (\<open>config_watch.rs\<close>), the
    installation of the log bridge, the terminals, the commands of the router, the cached version, the last call on
    Android (\<open>log_bridge.rs\<close>, \<open>console.rs\<close>, \<open>ipc.rs\<close>, \<open>version.rs\<close>, \<open>shutdown.rs\<close>). This theory composes validation, order and boot.

  \<^bold>\<open>State and concurrency.\<close> The record \<open>world\<close> holds what the threads share: configuration, runtime records, control
  channels (numbers) and their unread messages, exits, log hub, watch hub, files, clock, and what was done to the outside.
  One thread is an \<open>'a prog\<close>, a sequence of critical sections. Before each of them the other threads and the system may
  change anything, by the function \<open>e_other\<close> of the record \<open>env\<close>; \<open>others\<close> applies it and only keeps the clock from running
  backwards. The rest of \<open>env\<close> holds the system's answers (spawned pids, faults of the file system, wake-ups, the passwd
  database, JSON codecs, network). A panic is \<open>Panic\<close>, since the release profile aborts. A theorem about a thread says in a
  hypothesis \<open>stable e P\<close> what the others leave alone (a rely condition), and \<open>hoare e P m Q\<close> or \<open>keeps e P m\<close> what the thread
  guarantees. The state of the whole daemon (\<open>Init\<close>) adds signal flags and the system calls made.

  \<^bold>\<open>Interfaces.\<close> Each is a locale that is interpreted on the model: \<open>dotenv\<close> (parsers \<open>env\<close>, \<open>otel\<close>), \<open>dependency_sort\<close> (\<open>topo\<close>),
  \<open>bounded_ring\<close> (\<open>log_ring\<close>, \<open>event_ring\<close>), \<open>mailbox\<close> (the exit \<open>registry\<close>), \<open>shared_inv\<close> (what survives logging, notification,
  waiting; \<open>at\<close>, \<open>down\<close>, \<open>unasked\<close>, \<open>mail\<close>), its extensions \<open>control_inv\<close> (also messages to monitors; \<open>sup\<close>, \<open>laid\<close>, \<open>told\<close>,
  \<open>stopping\<close>), \<open>channel_inv\<close> and \<open>monitor_inv\<close> (also the steps of a monitor; \<open>mon\<close>, \<open>lay\<close>, \<open>apart\<close>), and \<open>mail_relation\<close> (how far monitors
  have read; \<open>unread\<close>, \<open>reading\<close>).

  \<^bold>\<open>What is shown.\<close>
  \<^item> Configuration: validation accepts exactly the valid configurations; loading yields valid ones; saving is atomic;
    later drop-ins win; parsers and label printers round-trip.
  \<^item> Order: the sort is sound, greedy by priority, and succeeds exactly on acyclic graphs; boot and shutdown orders.
  \<^item> Supervision: the monitor refines the abstract life of a service; a tracked pid belongs to a running service; the
    restart policy is followed; all threads keep the invariant of the shared state, and monitors keep to their own
    records; a reload brings channels and records in step; enabling agrees in memory, record and file; boot mails one
    start per enabled service; every valid acyclic configuration boots, within a bound, and a cyclic one boots nothing;
    an attempt to start a service returns within a bound; the ordered stop mails stop and quit.
  \<^item> Daemon: the main loop ends when asked; the shutdown sequence completes in its order whatever fails; a broken
    configuration is ignored on reload; a required early-boot script blocks.
  \<^item> Borders: privileges are dropped in the planned order; access to the socket; the responses to a request are of its type,
    and the client never meets one it does not expect; captured output and its bounds;
    spacing of exports and bounds of their figures; bounded waits kill exactly when they give up; the client reports
    the outcome and prints each service of the dependency graph once.

  \<^bold>\<open>Bounds and fuel.\<close> Loops that wait have the clock as their measure, since every wait that does not time out takes time,
  so they are total functions. Loops that the program runs for ever are cut by a number of turns that every theorem
  quantifies over: \<open>monitor_loop n\<close>, the two streams of \<open>handle_ipc\<close>, \<open>export_loop n\<close>; the main loop of \<open>Init\<close> runs over a list of what
  the system does in each turn, and that it ends when asked is proved without a bound. The bounds on time (\<open>start_budget\<close>, \<open>boot_budget\<close>) are stated for any \<open>\<delta>\<close> that
  limits how far the others move the clock before a critical section (\<open>tame\<close>), and ask that the clock has that much
  room below the limit of \<open>Instant\<close>. Integers have the width of the
  source where it matters (\<open>u64\<close> as 64-bit words, saturation written out; \<open>i32\<close>, used for pids and exit codes only, as integers); times are natural numbers of milliseconds with the
  limit of \<open>Instant\<close> as a panic. Sizes, such as ring capacities, are those of \<open>constants.rs\<close>.

  \<^bold>\<open>Findings.\<close> Theorems that show behaviour against its documentation or purpose: \<open>cyclic_config_starts_nothing\<close>,
  \<open>ordered_stop_takes_three_seconds\<close>, \<open>stale_exit_taken_for_new_process\<close>, \<open>failed_service_is_not_restarted\<close>,
  \<open>restart_command_leaves_stale_pid\<close>, \<open>set_enabled_fails_halfway\<close>, \<open>bad_image_aborts\<close>, \<open>huge_interval_aborts\<close>, \<open>endless_start_wait_aborts\<close>, \<open>capture_stops_at_latin1\<close>,
  \<open>reaper_flag_without_thread\<close>, \<open>cycle_error_names_bystander\<close>.

  \<^bold>\<open>Not modelled.\<close> The crate \<open>bigfred_shared_daemon\<close> (frame codec, accept loop, inotify and its debouncing) is not part of the
  sources: its answers are arguments. So are the encodings that serde derives, the argument parser clap derives, the texts
  of \<open>Debug\<close>, floating-point operations, the HTTP client and the contents of \<open>/proc\<close>. The other Android variants of the source and the
  build without the features \<open>init\<close> and \<open>otel\<close> are left out, as are module declarations, re-exports (\<open>lib.rs\<close>, \<open>datadir.rs\<close>) and
  the recovery from poisoned locks (\<open>syncutil.rs\<close>), which cannot occur when a panic aborts.
\<close>

section \<open>From a loaded configuration to a boot\<close>

text \<open>What validation leaves open for the order: only a cycle can stand in the way.\<close>

lemma valid_config_orders:
  assumes v: "validate db uid cfg = Inr ()" and ho: "\<And>xs. set (ho xs) = set xs"
  shows "if acyclic (edge_rel (cfg_services cfg)) then \<exists>order. topological_sort ho (cfg_services cfg) = Inr order
    else \<exists>x \<in> names_of (cfg_services cfg). topological_sort ho (cfg_services cfg) = Inl (ErrCycle x)"
proof -
  let ?ss = "cfg_services cfg"
  have valid: "distinct (map sc_name ?ss)" "\<forall>s \<in> set ?ss. set (sc_depends_on s) \<subseteq> names_of ?ss"
    using v by (simp_all add: validate_iff_valid valid_config_def)
  then have c: "closed ?ss" unfolding closed_def edge_def by blast
  show ?thesis
  proof (cases "acyclic (edge_rel ?ss)")
    case False
    then obtain err where err: "topological_sort ho ?ss = Inl err"
      using topological_sort_ok_iff [OF c, of ho] by (cases "topological_sort ho ?ss") auto
    then show ?thesis using topological_sort_Inl [OF err ho valid(1)] valid(2) False by auto
  qed (use topological_sort_ok_iff [OF c, of ho] valid(1) in auto)
qed

text \<open>
  C23: validation does not look for dependency cycles. A configuration that it accepts although it has one gets its control
  channels, but the boot ends with the cycle error of one of its services (or with a thread that could not be
  created), and no service, on the cycle or not, is ever mailed a start.
\<close>

theorem cyclic_config_starts_nothing:
  assumes "validate db uid cfg = Inr ()" "\<not> acyclic {(d, n). edge (cfg_services cfg) d n}" "\<And>xs. set (e_ho e xs) = set xs"
    and "\<And>f. stable e (mailed R cfg f)" "R = (=) \<or> R = partly_read"
    and "channels_ok w" "w_ctl w = []" "w_config w = cfg" "boot e w = Ret r w'"
  shows "(\<exists>t. r = Inl (ErrOther t))
    \<or> (\<exists>x \<in> names_of (cfg_services cfg). r = Inl (ErrCycle x))
      \<and> R (inbox w' n) (if n \<in> names_of (cfg_services cfg) then Some [] else None)"
proof -
  have "R None None" using assms(5) by (auto simp: partly_read_def)
  then have w: "mailed R cfg (\<lambda>_. None) w" using assms(6-8) by (simp add: mailed_def inbox_def)
  obtain x where x: "x \<in> names_of (cfg_services cfg)" "topological_sort (e_ho e) (cfg_services cfg) = Inl (ErrCycle x)"
    using valid_config_orders [OF assms(1,3)] assms(2) by auto
  then have err: "partition_boot (e_ho e) (cfg_services cfg) = Inl (ErrCycle x)" by (simp add: partition_boot_def)
  from hoareD [OF mail_relation.mailed_boot_unordered [OF either_relation [OF assms(5)] assms(4) err] w assms(9)] x(1)
  show ?thesis unfolding mailed_def by blast
qed

definition cyclic_config :: config where
  "cyclic_config = demo_config\<lparr>cfg_services := [(default_service_config ''a'')\<lparr>sc_cmd := Some ''/a'', sc_depends_on := [''b'']\<rparr>,
     (default_service_config ''b'')\<lparr>sc_cmd := Some ''/b'', sc_depends_on := [''a'']\<rparr>]\<rparr>"

lemma cyclic_config_accepted: "validate demo_db 0 cyclic_config = Inr ()"
proof -
  have "valid_config demo_db cyclic_config"
    using demo_config_valid
    by (simp add: valid_config_def cyclic_config_def demo_config_def valid_service_def default_service_config_def resolve_start_def)
  then show ?thesis by (simp add: validate_iff_valid)
qed

lemma cyclic_config_boot: "\<exists>w'. boot demo_env (demo_world cyclic_config) = Ret (Inl (ErrCycle ''a'')) w'"
proof -
  have e: "e_ho demo_env = id" "e_thread demo_env k s = None" for k s by (simp_all add: demo_env_def)
  have "partition_boot id (cfg_services cyclic_config) = Inl (ErrCycle ''a'')" unfolding cyclic_config_def by code_simp
  moreover have "cfg_services (w_config (demo_world cyclic_config)) = cfg_services cyclic_config" by (simp add: demo_world_def)
  moreover have "map sc_name (cfg_services cyclic_config) = [''a'', ''b'']" by (simp add: cyclic_config_def default_service_config_def)
  ultimately show ?thesis by (simp add: boot_def demo_others spawn_monitor_def atomic_simp e bind_def Let_def)
qed

theorem cyclic_config_starts_nothing_witness:
  "\<exists>w'. boot demo_env (demo_world cyclic_config) = Ret (Inl (ErrCycle ''a'')) w' \<and> inbox w' ''a'' = Some [] \<and> inbox w' ''b'' = Some []"
proof -
  obtain w' where run: "boot demo_env (demo_world cyclic_config) = Ret (Inl (ErrCycle ''a'')) w'" using cyclic_config_boot by blast
  let ?E = "{(d, n). edge (cfg_services cyclic_config) d n}"
  have "(''a'', ''b'') \<in> ?E" "(''b'', ''a'') \<in> ?E" by (simp_all add: edge_def cyclic_config_def default_service_config_def)
  then have "(''a'', ''a'') \<in> ?E\<^sup>+" by (meson trancl.r_into_trancl trancl_into_trancl)
  then have c: "\<not> acyclic ?E" unfolding acyclic_def by blast
  have ho: "set (e_ho demo_env xs) = set xs" for xs by (simp add: demo_env_def)
  have w: "channels_ok (demo_world cyclic_config)" "w_ctl (demo_world cyclic_config) = []" "w_config (demo_world cyclic_config) = cyclic_config"
    by (simp_all add: demo_world_def channels_ok_def)
  note mail = cyclic_config_starts_nothing [where R = "(=)", OF cyclic_config_accepted c ho demo_stable disjI1 [OF refl] w run]
  have names: "names_of (cfg_services cyclic_config) = {''a'', ''b''}" by (simp add: cyclic_config_def default_service_config_def)
  show ?thesis using run mail [unfolded names, of "''a''"] mail [unfolded names, of "''b''"] by simp
qed

lemma filters_apart: "(\<And>x. \<not> (p x \<and> q x)) \<Longrightarrow> length (filter p xs) + length (filter q xs) \<le> length xs"
  by (induction xs) auto

lemma partition_boot_lengths:
  assumes "partition_boot ho ss = Inr (fg, bg)"
  shows "length fg + length bg \<le> length ss"
proof -
  obtain order where order: "topological_sort ho ss = Inr order"
    and lists: "fg = filter (boots_foreground ss) order" "bg = filter (boots_background ss) order"
    using assms by (auto simp: partition_boot_Inr)
  have "length fg + length bg \<le> length order"
    unfolding lists by (rule filters_apart) (auto simp: boots_foreground_def boots_background_def split: option.splits)
  also have "length order = length ss" using topological_sort_Inr [OF order] by blast
  finally show ?thesis .
qed

text \<open>
  C5: every configuration that validation accepts and that has no dependency cycle boots. When threads can be created and
  the clock has room, the boot returns with success, after at most two minutes for each service and the time the others
  take, and has mailed exactly one start to each enabled service.
\<close>

theorem valid_config_boots:
  assumes "validate db uid cfg = Inr ()" "acyclic {(d, n). edge (cfg_services cfg) d n}" "\<And>xs. set (e_ho e xs) = set xs"
    and "\<And>k s. e_thread e k s = None" "tame \<delta> e" "\<And>f. stable e (mailed R cfg f)" "R = (=) \<or> R = partly_read"
    and "channels_ok w" "w_ctl w = []" "w_config w = cfg"
    and "w_now w + (\<delta> + length (cfg_services cfg) * (BOOT_FG_SETTLE + 6 * \<delta>)) < INSTANT_LIMIT"
  shows "\<exists>w'. boot e w = Ret (Inr ()) w' \<and> w_now w' \<le> w_now w + (\<delta> + length (cfg_services cfg) * (BOOT_FG_SETTLE + 6 * \<delta>))
    \<and> (\<forall>n. R (inbox w' n)
         (if n \<notin> names_of (cfg_services cfg) then None
          else if \<exists>s \<in> set (cfg_services cfg). sc_name s = n \<and> sc_enabled s then Some [CtlStart False] else Some []))"
proof -
  let ?ss = "cfg_services cfg"
  have "R None None" using assms(7) by (auto simp: partly_read_def)
  then have w: "mailed R cfg (\<lambda>_. None) w" using assms(8-10) by (simp add: mailed_def inbox_def)
  then have ss: "cfg_services (w_config (others e w)) = ?ss" using stableD [OF assms(6)] by (auto simp: mailed_def)
  obtain order where "topological_sort (e_ho e) ?ss = Inr order" using valid_config_orders [OF assms(1,3)] assms(2) by auto
  then obtain fg bg where p: "partition_boot (e_ho e) ?ss = Inr (fg, bg)" by (auto simp: partition_boot_Inr)
  note bound = boot_budget_bound [OF partition_boot_lengths [OF p], of \<delta>]
  then have "w_now w + boot_budget \<delta> (length ?ss) (length fg) (length bg) < INSTANT_LIMIT" using assms(11) by linarith
  then obtain w' where w': "boot e w = Ret (Inr ()) w'" "w_now w' \<le> w_now w + boot_budget \<delta> (length ?ss) (length fg) (length bg)"
    using boot_ends [OF assms(5) ss assms(4) p] by blast
  have "mailed R cfg (boot_mail ?ss) w'"
    using hoareD [OF mail_relation.mailed_boot [OF either_relation [OF assms(7)] assms(6)] w w'(1)] by blast
  then have "\<forall>n. R (inbox w' n) (boot_mail ?ss n)" by (simp add: mailed_def)
  then show ?thesis using w' bound unfolding boot_mail_def by (intro exI [of _ w'] conjI) (simp, linarith, simp)
qed

theorem valid_config_boots_witness:
  "\<exists>w'. boot demo_env (demo_world endless_config) = Ret (Inr ()) w' \<and> w_now w' \<le> 120000 \<and> inbox w' ''web'' = Some [CtlStart False]"
proof -
  let ?w = "demo_world endless_config"
  have t: "tame 0 demo_env" by (simp add: tame_def demo_others) (simp add: demo_env_def)
  have e: "e_thread demo_env k s = None" "set (e_ho demo_env xs) = set xs" for k s xs by (simp_all add: demo_env_def)
  have ss: "cfg_services endless_config = [endless_service]" by (simp add: endless_config_def)
  have a: "acyclic {(d, n). edge (cfg_services endless_config) d n}" by (simp add: edge_def ss endless_fields acyclic_def)
  have w: "channels_ok ?w" "w_ctl ?w = []" "w_config ?w = endless_config" by (simp_all add: demo_world_def channels_ok_def)
  have room: "w_now ?w + (0 + length (cfg_services endless_config) * (BOOT_FG_SETTLE + 6 * 0)) < INSTANT_LIMIT"
    by (simp add: demo_world_def ss BOOT_FG_SETTLE_def INSTANT_LIMIT_def)
  note boots = valid_config_boots [where R = "(=)", OF endless_config_valid a e(2) e(1) t demo_stable disjI1 [OF refl] w room]
  then show ?thesis by (auto simp: ss endless_fields BOOT_FG_SETTLE_def demo_world_def)
qed

end
